(* ===== verification/Prelude.thy ===== *)
theory Prelude
  imports Main "HOL-Library.AList" "HOL-Library.Word"
begin

section \<open>Shared vocabulary of the development\<close>

text \<open>
  What every component uses and none of them owns: the 64-bit signed integers of Go with
  their wrap-around, Go's built-in \<^verbatim>\<open>map\<close> as an association list with distinct keys, Go
  strings as byte lists (a \<^typ>\<open>char\<close> is one byte) with splitting and joining at a
  separator, and the collections of rewrite rules the component proofs are run with.
\<close>

named_theorems gomap_simps \<open>lookup, update and deletion on Go maps\<close>
named_theorems i64_simps \<open>64-bit signed arithmetic inside its range\<close>

type_synonym byte = "8 word"
type_synonym duration = int
type_synonym ('k, 'v) gomap = "('k \<times> 'v) list"

subsection \<open>64-bit signed integers\<close>

text \<open>
  \<^verbatim>\<open>int64\<close> and (on the supported 64-bit targets) \<^verbatim>\<open>int\<close> are carried as \<^typ>\<open>int\<close>; every
  addition of the source goes through \<open>wrap64\<close>.
\<close>

definition wrap64 :: "int \<Rightarrow> int" where
  "wrap64 x = (x + 2 ^ 63) mod 2 ^ 64 - 2 ^ 63"

definition in_i64 :: "int \<Rightarrow> bool" where
  "in_i64 x \<longleftrightarrow> - (2 ^ 63) \<le> x \<and> x < 2 ^ 63"

lemma wrap64_range: "in_i64 (wrap64 x)"
  by (simp add: in_i64_def wrap64_def)

lemma wrap64_id [i64_simps]: "in_i64 x \<Longrightarrow> wrap64 x = x"
  by (simp add: in_i64_def wrap64_def)

lemma wrap64_nonneg_id [i64_simps]: "0 \<le> x \<Longrightarrow> x < 2 ^ 63 \<Longrightarrow> wrap64 x = x"
  by (rule wrap64_id) (simp add: in_i64_def)

lemma wrap64_idem [simp]: "wrap64 (wrap64 x) = wrap64 x"
  by (rule wrap64_id) (rule wrap64_range)

lemma wrap64_add_left [i64_simps]: "wrap64 (wrap64 x + y) = wrap64 (x + y)"
proof -
  have "(wrap64 x + y + 2 ^ 63) mod 2 ^ 64 = ((x + 2 ^ 63) mod 2 ^ 64 + y) mod 2 ^ 64"
    by (simp add: wrap64_def)
  also have "\<dots> = (x + y + 2 ^ 63) mod 2 ^ 64"
    by (simp only: mod_add_left_eq) (simp add: ac_simps)
  finally show ?thesis by (simp only: wrap64_def [of "wrap64 x + y"] wrap64_def [of "x + y"])
qed

subsection \<open>Go maps\<close>

abbreviation gomap_get :: "('k, 'v) gomap \<Rightarrow> 'k \<Rightarrow> 'v option" where
  "gomap_get \<equiv> map_of"

abbreviation gomap_set :: "'k \<Rightarrow> 'v \<Rightarrow> ('k, 'v) gomap \<Rightarrow> ('k, 'v) gomap" where
  "gomap_set \<equiv> AList.update"

abbreviation gomap_delete :: "'k \<Rightarrow> ('k, 'v) gomap \<Rightarrow> ('k, 'v) gomap" where
  "gomap_delete \<equiv> AList.delete"

abbreviation gomap_ok :: "('k, 'v) gomap \<Rightarrow> bool" where
  "gomap_ok m \<equiv> distinct (map fst m)"

abbreviation gomap_dom :: "('k, 'v) gomap \<Rightarrow> 'k set" where
  "gomap_dom m \<equiv> fst ` set m"

declare update_conv' [gomap_simps] delete_conv' [gomap_simps]

lemma gomap_ok_set [gomap_simps]: "gomap_ok m \<Longrightarrow> gomap_ok (gomap_set k v m)"
  by (rule distinct_update)

lemma gomap_ok_delete [gomap_simps]: "gomap_ok m \<Longrightarrow> gomap_ok (gomap_delete k m)"
  by (rule distinct_delete)

lemma gomap_dom_set [gomap_simps]: "gomap_dom (gomap_set k v m) = insert k (gomap_dom m)"
  by (simp add: dom_update)

lemma gomap_dom_delete [gomap_simps]: "gomap_dom (gomap_delete k m) = gomap_dom m - {k}"
  by (simp add: delete_keys flip: set_map)

lemma gomap_get_dom: "gomap_get m k \<noteq> None \<longleftrightarrow> k \<in> gomap_dom m"
  by (simp add: map_of_eq_None_iff)

lemma gomap_get_in_dom: "gomap_get m k = Some v \<Longrightarrow> k \<in> gomap_dom m"
  using gomap_get_dom [of m k] by simp

lemma gomap_length_card: "gomap_ok m \<Longrightarrow> length m = card (gomap_dom m)"
  by (metis distinct_card length_map set_map)

lemma gomap_length_delete [gomap_simps]:
  "gomap_ok m \<Longrightarrow> length (gomap_delete k m) = length m - (if k \<in> gomap_dom m then 1 else 0)"
  by (simp add: gomap_length_card gomap_ok_delete gomap_dom_delete card_Diff_singleton_if)

lemma gomap_delete_shrinks:
  assumes "gomap_ok m" and "k \<in> gomap_dom m"
  shows "length (gomap_delete k m) < length m"
proof -
  from assms(2) have "0 < length m" by (cases m) auto
  with gomap_length_delete [OF assms(1), of k] assms(2) show ?thesis by simp
qed

lemma gomap_length_set [gomap_simps]:
  "gomap_ok m \<Longrightarrow> length (gomap_set k v m) = length m + (if k \<in> gomap_dom m then 0 else 1)"
  by (simp add: gomap_length_card gomap_ok_set gomap_dom_set card_insert_if)

subsection \<open>Go slices\<close>

text \<open>
  \<^verbatim>\<open>copy(dst, src)\<close> copies the shorter length. Swap-remove at index \<open>i\<close> moves the last
  element into the hole and drops the last slot, as the cache does with its key slice.
\<close>

definition swap_remove :: "nat \<Rightarrow> 'a list \<Rightarrow> 'a list" where
  "swap_remove i xs =
     (let l = length xs - 1 in take l (if i \<noteq> l then xs[i := xs ! l] else xs))"

lemma length_swap_remove [simp]: "length (swap_remove i xs) = length xs - 1"
  by (simp add: swap_remove_def Let_def)

lemma swap_remove_nth:
  "j < length xs - 1 \<Longrightarrow> swap_remove i xs ! j = (if j = i then last xs else xs ! j)"
  by (cases "xs = []") (auto simp: swap_remove_def Let_def nth_list_update last_conv_nth)

lemma swap_remove_set:
  assumes "distinct xs" and "i < length xs"
  shows "set (swap_remove i xs) = set xs - {xs ! i}"
proof (intro set_eqI iffI)
  fix x assume "x \<in> set (swap_remove i xs)"
  then obtain j where j: "j < length xs - 1" "x = swap_remove i xs ! j"
    by (auto simp: in_set_conv_nth)
  moreover from assms have "xs \<noteq> []" by auto
  ultimately show "x \<in> set xs - {xs ! i}"
    using assms by (cases "j = i") (auto simp: swap_remove_nth last_conv_nth nth_eq_iff_index_eq)
next
  fix x assume "x \<in> set xs - {xs ! i}"
  then obtain j where j: "j < length xs" "x = xs ! j" "j \<noteq> i"
    by (auto simp: in_set_conv_nth)
  show "x \<in> set (swap_remove i xs)"
  proof (cases "j = length xs - 1")
    case True
    with j assms have i: "i < length xs - 1" by auto
    then have "xs \<noteq> []" by auto
    with True j i have "swap_remove i xs ! i = x"
      by (simp add: swap_remove_nth last_conv_nth)
    with i show ?thesis by (metis length_swap_remove nth_mem)
  next
    case False
    with j have "j < length xs - 1" by auto
    with j have "swap_remove i xs ! j = x" by (simp add: swap_remove_nth)
    with \<open>j < length xs - 1\<close> show ?thesis by (metis length_swap_remove nth_mem)
  qed
qed

lemma swap_remove_distinct:
  assumes "distinct xs" and "i < length xs"
  shows "distinct (swap_remove i xs)"
proof -
  have "card (set (swap_remove i xs)) = length (swap_remove i xs)"
    using assms by (simp add: swap_remove_set distinct_card card_Diff_singleton)
  then show ?thesis by (rule card_distinct)
qed

subsection \<open>Go strings\<close>

definition HasSuffix :: "string \<Rightarrow> string \<Rightarrow> bool" where
  "HasSuffix s suf \<longleftrightarrow> length suf \<le> length s \<and> drop (length s - length suf) s = suf"

definition TrimSuffix :: "string \<Rightarrow> string \<Rightarrow> string" where
  "TrimSuffix s suf = (if HasSuffix s suf then take (length s - length suf) s else s)"

definition TrimPrefix :: "string \<Rightarrow> string \<Rightarrow> string" where
  "TrimPrefix s pre = (if take (length pre) s = pre then drop (length pre) s else s)"

fun split_on :: "'a \<Rightarrow> 'a list \<Rightarrow> 'a list list" where
  "split_on c [] = [[]]"
| "split_on c (x # xs) =
     (if x = c then [] # split_on c xs
      else (case split_on c xs of [] \<Rightarrow> [[x]] | y # ys \<Rightarrow> (x # y) # ys))"

fun join_with :: "'a \<Rightarrow> 'a list list \<Rightarrow> 'a list" where
  "join_with c [] = []"
| "join_with c [x] = x"
| "join_with c (x # y # r) = x @ c # join_with c (y # r)"

lemma split_on_not_Nil [simp]: "split_on c xs \<noteq> []"
  by (induction xs) (auto split: list.splits)

lemma split_on_no_sep: "e \<in> set (split_on c xs) \<Longrightarrow> c \<notin> set e"
  by (induction xs arbitrary: e) (auto split: list.splits if_splits)

lemma join_split [simp]: "join_with c (split_on c xs) = xs"
proof (induction xs)
  case (Cons x xs)
  then show ?case by (cases "split_on c xs"; cases "tl (split_on c xs)") auto
qed simp

lemma split_no_sep [simp]: "c \<notin> set x \<Longrightarrow> split_on c x = [x]"
  by (induction x) auto

lemma split_append_sep: "c \<notin> set x \<Longrightarrow> split_on c (x @ c # xs) = x # split_on c xs"
  by (induction x) auto

lemma split_join:
  "es \<noteq> [] \<Longrightarrow> \<forall>e \<in> set es. c \<notin> set e \<Longrightarrow> split_on c (join_with c es) = es"
  by (induction c es rule: join_with.induct) (auto simp: split_append_sep)

lemma split_on_append: "split_on c (xs @ c # ys) = split_on c xs @ split_on c ys"
proof (induction xs)
  case (Cons x xs)
  then show ?case by (auto split: list.splits)
qed simp

lemma join_with_append:
  "xs \<noteq> [] \<Longrightarrow> ys \<noteq> [] \<Longrightarrow> join_with c (xs @ ys) = join_with c xs @ c # join_with c ys"
proof (induction xs)
  case (Cons x xs)
  then show ?case by (cases xs; cases ys) auto
qed simp

end
