(* ===== verification/Ttl_Cache.thy ===== *)
theory Ttl_Cache
  imports Prelude
begin

section \<open>Interface of an expiring cache\<close>

text \<open>
  What the filesystem relies on when it consults a cache of object attributes: lookups
  answer from the stored entry until it expires, a store makes its own key current and can
  only drop other keys, and no operation fails. \<open>peek\<close> is the stored value with its expiry,
  \<open>life\<close> the lifetime the cache gives a value; both exist for the laws alone. The attribute
  cache is the provider (theory \<open>Attr_Cache\<close>), the filesystem's \<open>Stat\<close> the client.
\<close>

definition all_entries :: "('c \<Rightarrow> 'k \<Rightarrow> ('v \<times> int) option) \<Rightarrow> ('k \<Rightarrow> 'v \<Rightarrow> int \<Rightarrow> bool) \<Rightarrow> 'c \<Rightarrow> bool" where
  "all_entries peek P c \<longleftrightarrow> (\<forall>k v t. peek c k = Some (v, t) \<longrightarrow> P k v t)"

locale ttl_cache =
  fixes inv :: "'c \<Rightarrow> bool"
    and peek :: "'c \<Rightarrow> 'k \<Rightarrow> ('v \<times> int) option"
    and life :: "'c \<Rightarrow> 'v \<Rightarrow> int"
    and get :: "int \<Rightarrow> int \<Rightarrow> 'k \<Rightarrow> 'c \<Rightarrow> ('v option \<times> 'c) option"
    and put :: "int \<Rightarrow> int \<Rightarrow> (nat \<Rightarrow> nat) \<Rightarrow> 'k \<Rightarrow> 'v \<Rightarrow> 'c \<Rightarrow> 'c option"
  assumes get_total: "inv c \<Longrightarrow> \<exists>r c'. get n1 n2 k c = Some (r, c') \<and> inv c' \<and> life c' = life c"
    and get_result: "inv c \<Longrightarrow> get n1 n2 k c = Some (r, c') \<Longrightarrow>
      r = (case peek c k of None \<Rightarrow> None | Some (v, t) \<Rightarrow> if t < n1 then None else Some v)"
    and get_frame: "inv c \<Longrightarrow> get n1 n2 k c = Some (r, c') \<Longrightarrow>
      peek c' k' = peek c k' \<or> peek c' k' = None \<and> k' = k \<and> r = None"
    and put_total: "inv c \<Longrightarrow> \<exists>c'. put n1 n2 rnd k v c = Some c' \<and> inv c' \<and> life c' = life c"
    and put_same: "inv c \<Longrightarrow> put n1 n2 rnd k v c = Some c' \<Longrightarrow>
      peek c' k = Some (v, wrap64 (n2 + life c v))"
    and put_frame: "inv c \<Longrightarrow> put n1 n2 rnd k v c = Some c' \<Longrightarrow> k' \<noteq> k \<Longrightarrow>
      peek c' k' = peek c k' \<or> peek c' k' = None"
begin

lemma get_inv: "inv c \<Longrightarrow> get n1 n2 k c = Some (r, c') \<Longrightarrow> inv c'"
  using get_total [of c n1 n2 k] by auto

lemma put_inv: "inv c \<Longrightarrow> put n1 n2 rnd k v c = Some c' \<Longrightarrow> inv c'"
  using put_total [of c n1 n2 rnd k v] by auto

lemma put_then_get:
  assumes "inv c" and "put n1 n2 rnd k v c = Some c'" and "n3 \<le> wrap64 (n2 + life c v)"
  shows "\<exists>c''. get n3 n4 k c' = Some (Some v, c'')"
proof -
  from put_inv [OF assms(1,2)] obtain r c'' where g: "get n3 n4 k c' = Some (r, c'')"
    using get_total by blast
  from get_result [OF put_inv [OF assms(1,2)] g] put_same [OF assms(1,2)] assms(3)
  have "r = Some v" by simp
  with g show ?thesis by blast
qed

lemma get_expired_misses:
  assumes "inv c" and "get n1 n2 k c = Some (Some v, c')"
  shows "\<exists>t. peek c k = Some (v, t) \<and> n1 \<le> t"
  using get_result [OF assms] by (auto split: option.splits if_splits)

lemma get_keeps_entries:
  "inv c \<Longrightarrow> all_entries peek P c \<Longrightarrow> get n1 n2 k c = Some (r, c') \<Longrightarrow> all_entries peek P c'"
  unfolding all_entries_def by (metis get_frame option.distinct(1))

lemma get_hit_entry:
  "inv c \<Longrightarrow> all_entries peek P c \<Longrightarrow> get n1 n2 k c = Some (Some v, c') \<Longrightarrow> \<exists>t. n1 \<le> t \<and> P k v t"
  using get_expired_misses [of c n1 n2 k v c'] by (auto simp: all_entries_def)

lemma put_keeps_entries:
  assumes "inv c" and "all_entries peek P c" and "\<forall>t. P k v t" and "put n1 n2 rnd k v c = Some c'"
  shows "all_entries peek P c'"
  unfolding all_entries_def
proof (intro allI impI)
  fix k' v' t assume p: "peek c' k' = Some (v', t)"
  show "P k' v' t"
  proof (cases "k' = k")
    case True
    with p put_same [OF assms(1,4)] assms(3) show ?thesis by simp
  next
    case False
    with p put_frame [OF assms(1,4)] have "peek c k' = Some (v', t)" by fastforce
    with assms(2) show ?thesis by (auto simp: all_entries_def)
  qed
qed

end

end
