(* ===== verification/Attr_Cache.thy ===== *)
theory Attr_Cache
  imports Ttl_Cache
begin

section \<open>The attribute cache\<close>

text \<open>
  Model of \<^verbatim>\<open>pkg/gcs/fs/attrcache.go\<close>: the bounded, expiring map from object paths to GCS
  object attributes, its key slice and position index for constant-time swap-removal, the
  sampling eviction, and the process-wide clock it reads.

  Conventions. A load of the shared clock is an argument of the operation that makes it
  (\<open>now1\<close>, \<open>now2\<close> in the order of the loads), since the ticker goroutine may store a new
  value between two loads. \<^verbatim>\<open>rand.IntN(n)\<close> is \<open>rand_IntN r n\<close> for an arbitrary raw draw
  \<open>r\<close>: ranging over all draws gives every index below \<open>n\<close>. A run-time panic (an index or a
  slice bound out of range, \<^verbatim>\<open>IntN(0)\<close>) is \<^const>\<open>None\<close>.
\<close>

subsection \<open>Data\<close>

text \<open>
  The fields of \<^verbatim>\<open>storage.ObjectAttrs\<close> the repository reads. A cached pointer is either the
  address of the one sentinel or of some other attributes; \<open>isNegative\<close> compares addresses.
\<close>

record ObjectAttrs =
  oa_Name :: string
  oa_Prefix :: string
  oa_Size :: int
  oa_Updated :: int

datatype attrs_ptr = SentinelNotFound | Attrs ObjectAttrs

definition isNegative :: "attrs_ptr \<Rightarrow> bool" where
  "isNegative a = (a = SentinelNotFound)"

record attrEntry =
  attrs :: attrs_ptr
  expiresAt :: int

record attrCache =
  entries :: "(string, attrEntry) gomap"
  keys :: "string list"
  keyIndex :: "(string, nat) gomap"
  ttl :: duration
  negTTL :: duration
  maxEntries :: int
  hits :: int
  misses :: int

abbreviation Second :: duration where
  "Second \<equiv> 1000000000"

abbreviation minNegTTL :: duration where
  "minNegTTL \<equiv> Second"

abbreviation negTTLDivisor :: int where
  "negTTLDivisor \<equiv> 10"

abbreviation evictSampleSize :: nat where
  "evictSampleSize \<equiv> 20"

text \<open>Go's integer division truncates towards zero.\<close>

definition go_div :: "int \<Rightarrow> int \<Rightarrow> int" where
  "go_div a b = sgn a * sgn b * (\<bar>a\<bar> div \<bar>b\<bar>)"

text \<open>
  \<^verbatim>\<open>make([]string, 0, maxEntries)\<close> panics on a negative capacity and on one whose 16 bytes per
  element exceed the address space of the runtime, \<open>2 ^ 48\<close> bytes on the 64-bit targets. (A map's
  size is a hint, which the runtime drops if it is too large.)
\<close>

abbreviation (input) maxAlloc :: int where
  "maxAlloc \<equiv> 2 ^ 48"

definition newAttrCache :: "duration \<Rightarrow> int \<Rightarrow> attrCache option" where
  "newAttrCache t maxE =
     (if maxE < 0 \<or> maxAlloc < 16 * maxE then None
      else Some \<lparr>entries = [], keys = [], keyIndex = [], ttl = t,
                 negTTL = (if go_div t negTTLDivisor < minNegTTL then minNegTTL
                           else go_div t negTTLDivisor),
                 maxEntries = maxE, hits = 0, misses = 0\<rparr>)"

subsection \<open>Operations\<close>

definition rand_IntN :: "nat \<Rightarrow> nat \<Rightarrow> nat option" where
  "rand_IntN r n = (if n = 0 then None else Some (r mod n))"

text \<open>
  \<^verbatim>\<open>removeKey\<close>: the index read from \<open>keyIndex\<close> is used as it is, so a wrong one would panic.
\<close>

definition removeKey :: "string \<Rightarrow> attrCache \<Rightarrow> attrCache option" where
  "removeKey key c =
     (case gomap_get (keyIndex c) key of
        None \<Rightarrow> Some c
      | Some idx \<Rightarrow>
          (if keys c = [] \<or> length (keys c) \<le> idx then None
           else let lst = length (keys c) - 1;
                    ks = (if idx \<noteq> lst then (keys c)[idx := keys c ! lst] else keys c);
                    ki = (if idx \<noteq> lst then gomap_set (ks ! idx) idx (keyIndex c) else keyIndex c)
                in Some (c\<lparr>keys := take lst ks, keyIndex := gomap_delete key ki\<rparr>)))"

text \<open>The critical section of \<^verbatim>\<open>get\<close> on an expired entry: re-check, then remove.\<close>

definition get_expire :: "int \<Rightarrow> string \<Rightarrow> attrCache \<Rightarrow> attrCache option" where
  "get_expire now2 key c =
     (case gomap_get (entries c) key of
        Some e \<Rightarrow> (if now2 > expiresAt e
                   then removeKey key (c\<lparr>entries := gomap_delete key (entries c)\<rparr>)
                   else Some c)
      | None \<Rightarrow> Some c)"

definition add_hit :: "attrCache \<Rightarrow> attrCache" where
  "add_hit c = c\<lparr>hits := wrap64 (hits c + 1)\<rparr>"

definition add_miss :: "attrCache \<Rightarrow> attrCache" where
  "add_miss c = c\<lparr>misses := wrap64 (misses c + 1)\<rparr>"

definition cache_get :: "int \<Rightarrow> int \<Rightarrow> string \<Rightarrow> attrCache \<Rightarrow> (attrs_ptr option \<times> attrCache) option" where
  "cache_get now1 now2 key c =
     (case gomap_get (entries c) key of
        None \<Rightarrow> Some (None, add_miss c)
      | Some e \<Rightarrow>
          (if now1 > expiresAt e
           then map_option (\<lambda>c'. (None, add_miss c')) (get_expire now2 key c)
           else Some (Some (attrs e), add_hit c)))"

text \<open>
  The eviction of one slot: it appears twice in the source, in the sampling loop and after
  it. \<open>n\<close> is the local variable of that name.
\<close>

definition evict_at :: "nat \<Rightarrow> nat \<Rightarrow> string \<Rightarrow> attrCache \<Rightarrow> attrCache option" where
  "evict_at n idx k c =
     (if n = 0 \<or> length (keys c) < n \<or> n \<le> idx then None
      else let lst = n - 1;
               ki = gomap_delete k (keyIndex c);
               ks = (if idx \<noteq> lst then (keys c)[idx := keys c ! lst] else keys c);
               ki' = (if idx \<noteq> lst then gomap_set (ks ! idx) idx ki else ki)
           in Some (c\<lparr>entries := gomap_delete k (entries c), keyIndex := ki', keys := take lst ks\<rparr>))"

record evict_state =
  es_cache :: attrCache
  es_n :: nat
  es_evicted :: bool
  es_oldest :: "(nat \<times> int) option" \<comment> \<open>\<open>oldestIdx\<close> and \<open>oldestExpiry\<close>; \<^const>\<open>None\<close> is \<open>oldestIdx = -1\<close>\<close>

text \<open>
  One pass of the loop body, and the loop over the remaining samples; the early
  \<^verbatim>\<open>return\<close> when the last key went is the flag \<open>True\<close>.
\<close>

definition evict_body :: "int \<Rightarrow> nat \<Rightarrow> evict_state \<Rightarrow> evict_state option" where
  "evict_body now r s =
     (case rand_IntN r (es_n s) of
        None \<Rightarrow> None
      | Some idx \<Rightarrow>
          (if length (keys (es_cache s)) \<le> idx then None
           else let k = keys (es_cache s) ! idx in
             (case gomap_get (entries (es_cache s)) k of
                None \<Rightarrow> Some s
              | Some e \<Rightarrow>
                  (if now > expiresAt e
                   then map_option (\<lambda>c'. s\<lparr>es_cache := c', es_n := es_n s - 1, es_evicted := True\<rparr>)
                          (evict_at (es_n s) idx k (es_cache s))
                   else if (case es_oldest s of None \<Rightarrow> True | Some (_, ex) \<Rightarrow> expiresAt e < ex)
                   then Some (s\<lparr>es_oldest := Some (idx, expiresAt e)\<rparr>)
                   else Some s))))"

fun evict_loop :: "nat \<Rightarrow> int \<Rightarrow> (nat \<Rightarrow> nat) \<Rightarrow> evict_state \<Rightarrow> (bool \<times> evict_state) option" where
  "evict_loop 0 now rnd s = Some (False, s)"
| "evict_loop (Suc m) now rnd s =
     (case evict_body now (rnd m) s of
        None \<Rightarrow> None
      | Some s' \<Rightarrow> (if es_evicted s' \<and> es_n s' = 0 then Some (True, s')
                   else evict_loop m now rnd s'))"

definition evictIfNeeded :: "int \<Rightarrow> (nat \<Rightarrow> nat) \<Rightarrow> attrCache \<Rightarrow> attrCache option" where
  "evictIfNeeded now rnd c =
     (if int (length (entries c)) < maxEntries c then Some c
      else let n = length (keys c); samples = min evictSampleSize n in
        (case evict_loop samples now rnd
                \<lparr>es_cache = c, es_n = n, es_evicted = False, es_oldest = None\<rparr> of
           None \<Rightarrow> None
         | Some (returned, s) \<Rightarrow>
             (if returned then Some (es_cache s)
              else if \<not> es_evicted s \<and> es_n s > 0 then
                (case es_oldest s of
                   None \<Rightarrow> Some (es_cache s)
                 | Some (idx, _) \<Rightarrow>
                     (if length (keys (es_cache s)) \<le> idx then None
                      else evict_at (es_n s) idx (keys (es_cache s) ! idx) (es_cache s)))
              else Some (es_cache s))))"

text \<open>
  \<^verbatim>\<open>set\<close> and \<^verbatim>\<open>setNotFound\<close> share everything but the stored pointer and the lifetime.
\<close>

definition cache_insert :: "string \<Rightarrow> attrs_ptr \<Rightarrow> int \<Rightarrow> attrCache \<Rightarrow> attrCache" where
  "cache_insert key a expiry c =
     (let c1 = (if gomap_get (entries c) key = None
                then c\<lparr>keyIndex := gomap_set key (length (keys c)) (keyIndex c), keys := keys c @ [key]\<rparr>
                else c)
      in c1\<lparr>entries := gomap_set key \<lparr>attrs = a, expiresAt = expiry\<rparr> (entries c1)\<rparr>)"

definition setNotFound :: "int \<Rightarrow> int \<Rightarrow> (nat \<Rightarrow> nat) \<Rightarrow> string \<Rightarrow> attrCache \<Rightarrow> attrCache option" where
  "setNotFound now1 now2 rnd key c =
     (case evictIfNeeded now1 rnd c of
        None \<Rightarrow> None
      | Some c' \<Rightarrow> Some (cache_insert key SentinelNotFound (wrap64 (now2 + negTTL c')) c'))"

definition cache_set :: "int \<Rightarrow> int \<Rightarrow> (nat \<Rightarrow> nat) \<Rightarrow> string \<Rightarrow> attrs_ptr \<Rightarrow> attrCache \<Rightarrow> attrCache option" where
  "cache_set now1 now2 rnd key a c =
     (case evictIfNeeded now1 rnd c of
        None \<Rightarrow> None
      | Some c' \<Rightarrow> Some (cache_insert key a (wrap64 (now2 + ttl c')) c'))"

definition cache_len :: "attrCache \<Rightarrow> int" where
  "cache_len c = int (length (entries c))"

definition cache_stats :: "attrCache \<Rightarrow> int \<times> int" where
  "cache_stats c = (hits c, misses c)"

subsection \<open>The shared clock\<close>

text \<open>
  \<^verbatim>\<open>sharedClock\<close>: the \<^verbatim>\<open>sync.Once\<close>, the stop channel and the tick value. Channels are
  numbered; \<open>clk_running\<close> lists the channels some ticker goroutine still selects on. Closing
  a channel ends its goroutine.
\<close>

record sharedClock =
  clk_once :: bool
  clk_done :: "nat option"
  clk_val :: int
  clk_running :: "nat list"
  clk_next :: nat

definition initial_clock :: sharedClock where
  "initial_clock = \<lparr>clk_once = False, clk_done = None, clk_val = 0, clk_running = [], clk_next = 0\<rparr>"

definition initSharedClock :: "int \<Rightarrow> sharedClock \<Rightarrow> sharedClock" where
  "initSharedClock unixNano s =
     s\<lparr>clk_done := Some (clk_next s), clk_val := unixNano,
       clk_running := clk_next s # clk_running s, clk_next := clk_next s + 1\<rparr>"

text \<open>\<^verbatim>\<open>sharedClock.once.Do(initSharedClock)\<close>, the first statement of \<^verbatim>\<open>newAttrCache\<close>.\<close>

definition clock_ensure :: "int \<Rightarrow> sharedClock \<Rightarrow> sharedClock" where
  "clock_ensure unixNano s =
     (if clk_once s then s else (initSharedClock unixNano s)\<lparr>clk_once := True\<rparr>)"

definition clock_tick :: "int \<Rightarrow> sharedClock \<Rightarrow> sharedClock" where
  "clock_tick unixNano s = (if clk_running s = [] then s else s\<lparr>clk_val := unixNano\<rparr>)"

definition stopSharedClock :: "sharedClock \<Rightarrow> sharedClock" where
  "stopSharedClock s =
     (let s1 = (case clk_done s of
                  None \<Rightarrow> s
                | Some ch \<Rightarrow> s\<lparr>clk_running := removeAll ch (clk_running s), clk_done := None\<rparr>)
      in s1\<lparr>clk_once := False\<rparr>)"

datatype clock_event = EnsureClock int | TickClock int | StopClock

fun clock_step :: "sharedClock \<Rightarrow> clock_event \<Rightarrow> sharedClock" where
  "clock_step s (EnsureClock t) = clock_ensure t s"
| "clock_step s (TickClock t) = clock_tick t s"
| "clock_step s StopClock = stopSharedClock s"

subsection \<open>Goroutines interleaving on one cache\<close>

text \<open>
  \<^verbatim>\<open>get\<close> is not atomic: it copies the entry under the read lock, loads the clock with no
  lock held, and takes the write lock only for an expired entry. A goroutine between those
  points is \<open>Checking\<close> (entry copied) or \<open>Expiring\<close> (waiting for the write lock).
  \<^verbatim>\<open>set\<close> and \<^verbatim>\<open>setNotFound\<close> hold the write lock throughout, but the clock may tick between
  their two loads.
\<close>

datatype get_phase = Checking string attrEntry | Expiring string

record conc =
  cc_cache :: attrCache
  cc_clock :: int
  cc_pending :: "get_phase list"

inductive conc_step :: "conc \<Rightarrow> conc \<Rightarrow> bool" where
  tick: "conc_step s (s\<lparr>cc_clock := t\<rparr>)"
| get_absent: "gomap_get (entries (cc_cache s)) key = None \<Longrightarrow>
    conc_step s (s\<lparr>cc_cache := add_miss (cc_cache s)\<rparr>)"
| get_copy: "gomap_get (entries (cc_cache s)) key = Some e \<Longrightarrow>
    conc_step s (s\<lparr>cc_pending := Checking key e # cc_pending s\<rparr>)"
| get_hit: "Checking key e \<in> set (cc_pending s) \<Longrightarrow> cc_clock s \<le> expiresAt e \<Longrightarrow>
    conc_step s (s\<lparr>cc_cache := add_hit (cc_cache s), cc_pending := remove1 (Checking key e) (cc_pending s)\<rparr>)"
| get_stale: "Checking key e \<in> set (cc_pending s) \<Longrightarrow> expiresAt e < cc_clock s \<Longrightarrow>
    conc_step s (s\<lparr>cc_pending := Expiring key # remove1 (Checking key e) (cc_pending s)\<rparr>)"
| get_drop: "Expiring key \<in> set (cc_pending s) \<Longrightarrow> get_expire (cc_clock s) key (cc_cache s) = Some c' \<Longrightarrow>
    conc_step s (s\<lparr>cc_cache := add_miss c', cc_pending := remove1 (Expiring key) (cc_pending s)\<rparr>)"
| do_set: "cache_set (cc_clock s) t rnd key (Attrs a) (cc_cache s) = Some c' \<Longrightarrow>
    conc_step s (s\<lparr>cc_cache := c', cc_clock := t\<rparr>)"
| do_setNotFound: "setNotFound (cc_clock s) t rnd key (cc_cache s) = Some c' \<Longrightarrow>
    conc_step s (s\<lparr>cc_cache := c', cc_clock := t\<rparr>)"

inductive conc_reach :: "attrCache \<Rightarrow> conc \<Rightarrow> bool" for c0 where
  start: "conc_reach c0 \<lparr>cc_cache = c0, cc_clock = t, cc_pending = []\<rparr>"
| step: "conc_reach c0 s \<Longrightarrow> conc_step s s' \<Longrightarrow> conc_reach c0 s'"

subsection \<open>The representation invariant\<close>

text \<open>
  The three containers agree: the key slice lists exactly the stored keys, without
  repetition, and the index gives each key's position in it.
\<close>

definition index_of :: "string list \<Rightarrow> (string \<rightharpoonup> nat) \<Rightarrow> bool" where
  "index_of ks m \<longleftrightarrow> (\<forall>k j. m k = Some j \<longleftrightarrow> j < length ks \<and> ks ! j = k)"

definition cache_inv :: "attrCache \<Rightarrow> bool" where
  "cache_inv c \<longleftrightarrow>
     gomap_ok (entries c) \<and> gomap_ok (keyIndex c) \<and> distinct (keys c) \<and>
     set (keys c) = gomap_dom (entries c) \<and> index_of (keys c) (gomap_get (keyIndex c))"

text \<open>The configured bound, for a cache that may hold at least one entry.\<close>

definition within_capacity :: "attrCache \<Rightarrow> bool" where
  "within_capacity c \<longleftrightarrow> 1 \<le> maxEntries c \<and> int (length (entries c)) \<le> maxEntries c"

text \<open>Settings and counters, which only \<open>get\<close> touches.\<close>

definition same_meta :: "attrCache \<Rightarrow> attrCache \<Rightarrow> bool" where
  "same_meta c' c \<longleftrightarrow> ttl c' = ttl c \<and> negTTL c' = negTTL c \<and> maxEntries c' = maxEntries c \<and>
     hits c' = hits c \<and> misses c' = misses c"

lemma same_meta_refl [simp]: "same_meta c c"
  by (simp add: same_meta_def)

lemma same_meta_trans: "same_meta c'' c' \<Longrightarrow> same_meta c' c \<Longrightarrow> same_meta c'' c"
  by (simp add: same_meta_def)

lemma cache_inv_length: "cache_inv c \<Longrightarrow> length (keys c) = length (entries c)"
  by (metis cache_inv_def distinct_card gomap_length_card)

lemma cache_inv_key_stored:
  "cache_inv c \<Longrightarrow> i < length (keys c) \<Longrightarrow> \<exists>e. gomap_get (entries c) (keys c ! i) = Some e"
  by (metis cache_inv_def gomap_get_dom nth_mem not_None_eq)

lemma index_of_swap_remove:
  assumes d: "distinct ks" and i: "i < length ks" and ix: "index_of ks m"
    and m': "\<And>k. m' k = (if k = ks ! i then None
                        else if i \<noteq> length ks - 1 \<and> k = ks ! (length ks - 1) then Some i else m k)"
  shows "index_of (swap_remove i ks) m'"
  unfolding index_of_def
proof (intro allI)
  fix k j
  have ne: "ks \<noteq> []" using i by auto
  have "m k = Some j \<longleftrightarrow> j < length ks \<and> ks ! j = k"
    using ix by (simp add: index_of_def)
  then show "m' k = Some j \<longleftrightarrow> j < length (swap_remove i ks) \<and> swap_remove i ks ! j = k"
    using d i ne
    by (cases "j < length ks - 1")
      (auto simp: m' swap_remove_nth last_conv_nth nth_eq_iff_index_eq split: if_splits)
qed

lemma index_of_append:
  "index_of ks m \<Longrightarrow> key \<notin> set ks \<Longrightarrow> index_of (ks @ [key]) (m(key \<mapsto> length ks))"
  by (auto simp: index_of_def nth_append less_Suc_eq)

text \<open>
  Taking one key out of all three containers, however the index update is ordered.
\<close>

lemma cache_inv_take_out:
  assumes inv: "cache_inv c" and i: "i < length (keys c)"
    and es: "entries c' = gomap_delete (keys c ! i) (entries c)"
    and ks: "keys c' = swap_remove i (keys c)"
    and ok: "gomap_ok (keyIndex c')"
    and ki: "\<And>k. gomap_get (keyIndex c') k =
              (if k = keys c ! i then None
               else if i \<noteq> length (keys c) - 1 \<and> k = keys c ! (length (keys c) - 1) then Some i
               else gomap_get (keyIndex c) k)"
  shows "cache_inv c'"
proof -
  have d: "distinct (keys c)" and ix: "index_of (keys c) (gomap_get (keyIndex c))"
    using inv by (auto simp: cache_inv_def)
  have "index_of (keys c') (gomap_get (keyIndex c'))"
    unfolding ks by (rule index_of_swap_remove [OF d i ix ki])
  then show ?thesis
    using inv i ok by (auto simp: cache_inv_def es ks gomap_simps swap_remove_set swap_remove_distinct)
qed

lemma evict_at_take_out:
  assumes inv: "cache_inv c" and i: "i < length (keys c)"
  obtains c' where "evict_at (length (keys c)) i (keys c ! i) c = Some c'" and "cache_inv c'"
    and "entries c' = gomap_delete (keys c ! i) (entries c)"
    and "keys c' = swap_remove i (keys c)"
    and "same_meta c' c"
proof -
  have d: "distinct (keys c)" and okI: "gomap_ok (keyIndex c)" using inv by (auto simp: cache_inv_def)
  from i have "evict_at (length (keys c)) i (keys c ! i) c \<noteq> None"
    by (auto simp: evict_at_def Let_def)
  then obtain c' where c': "evict_at (length (keys c)) i (keys c ! i) c = Some c'" by blast
  then have es: "entries c' = gomap_delete (keys c ! i) (entries c)"
    and ks: "keys c' = swap_remove i (keys c)"
    and rest: "same_meta c' c"
    by (auto simp: evict_at_def same_meta_def Let_def swap_remove_def split: if_splits)
  have ki: "gomap_ok (keyIndex c') \<and> (\<forall>k. gomap_get (keyIndex c') k =
              (if k = keys c ! i then None
               else if i \<noteq> length (keys c) - 1 \<and> k = keys c ! (length (keys c) - 1) then Some i
               else gomap_get (keyIndex c) k))"
    using c' i d okI
    by (auto simp: evict_at_def Let_def gomap_simps nth_eq_iff_index_eq split: if_splits)
  have "cache_inv c'"
    by (rule cache_inv_take_out [OF inv i es ks]) (use ki in auto)
  with c' es ks rest that show ?thesis by blast
qed

lemma removeKey_take_out:
  assumes inv: "cache_inv c" and key: "key \<in> gomap_dom (entries c)"
  obtains c' where "removeKey key (c\<lparr>entries := gomap_delete key (entries c)\<rparr>) = Some c'"
    and "cache_inv c'" and "entries c' = gomap_delete key (entries c)"
    and "same_meta c' c"
proof -
  have d: "distinct (keys c)" and okI: "gomap_ok (keyIndex c)"
    and ix: "index_of (keys c) (gomap_get (keyIndex c))"
    using inv by (auto simp: cache_inv_def)
  from inv key obtain i where i: "i < length (keys c)" and k: "keys c ! i = key"
    by (metis cache_inv_def in_set_conv_nth)
  with ix have gi: "gomap_get (keyIndex c) key = Some i" by (auto simp: index_of_def)
  let ?c = "c\<lparr>entries := gomap_delete key (entries c)\<rparr>"
  from gi i have "removeKey key ?c \<noteq> None" by (auto simp: removeKey_def Let_def)
  then obtain c' where c': "removeKey key ?c = Some c'" by blast
  then have es: "entries c' = gomap_delete (keys c ! i) (entries c)"
    and ks: "keys c' = swap_remove i (keys c)"
    and rest: "same_meta c' c"
    using gi i k by (auto simp: removeKey_def same_meta_def Let_def swap_remove_def split: if_splits)
  have ki: "gomap_ok (keyIndex c') \<and> (\<forall>ka. gomap_get (keyIndex c') ka =
              (if ka = keys c ! i then None
               else if i \<noteq> length (keys c) - 1 \<and> ka = keys c ! (length (keys c) - 1) then Some i
               else gomap_get (keyIndex c) ka))"
    using c' gi i d okI k
    by (auto simp: removeKey_def Let_def gomap_simps nth_eq_iff_index_eq split: if_splits)
  have "cache_inv c'"
    by (rule cache_inv_take_out [OF inv i es ks]) (use ki in auto)
  with c' es k rest that show ?thesis by blast
qed

subsection \<open>Eviction\<close>

text \<open>
  \<open>expired_only now c0 c'\<close>: the entries of \<open>c'\<close> are those of \<open>c0\<close> less some that were
  expired at \<open>now\<close>.
\<close>

definition expired_only :: "int \<Rightarrow> attrCache \<Rightarrow> attrCache \<Rightarrow> bool" where
  "expired_only now c0 c' \<longleftrightarrow>
     (\<forall>k. gomap_get (entries c') k = gomap_get (entries c0) k \<or>
          gomap_get (entries c') k = None \<and>
          (\<exists>e. gomap_get (entries c0) k = Some e \<and> expiresAt e < now))"

lemma expired_only_refl [simp]: "expired_only now c c"
  by (simp add: expired_only_def)

lemma expired_only_delete:
  assumes "expired_only now c0 c" and "gomap_get (entries c) k = Some e" and "expiresAt e < now"
    and "entries c' = gomap_delete k (entries c)"
  shows "expired_only now c0 c'"
  unfolding expired_only_def
proof
  fix ka
  from assms(1) have "gomap_get (entries c) ka = gomap_get (entries c0) ka \<or>
      gomap_get (entries c) ka = None \<and>
      (\<exists>e. gomap_get (entries c0) ka = Some e \<and> expiresAt e < now)"
    by (simp add: expired_only_def)
  with assms(2-4) show "gomap_get (entries c') ka = gomap_get (entries c0) ka \<or>
      gomap_get (entries c') ka = None \<and>
      (\<exists>e. gomap_get (entries c0) ka = Some e \<and> expiresAt e < now)"
    by (cases "ka = k") (auto simp: gomap_simps)
qed

definition evict_inv :: "int \<Rightarrow> attrCache \<Rightarrow> evict_state \<Rightarrow> bool" where
  "evict_inv now c0 s \<longleftrightarrow>
     cache_inv (es_cache s) \<and> same_meta (es_cache s) c0 \<and> es_n s = length (keys (es_cache s)) \<and>
     expired_only now c0 (es_cache s) \<and>
     (if es_evicted s then length (entries (es_cache s)) < length (entries c0)
      else es_cache s = c0 \<and> (\<forall>idx ex. es_oldest s = Some (idx, ex) \<longrightarrow> idx < es_n s))"

definition found_victim :: "evict_state \<Rightarrow> bool" where
  "found_victim s \<longleftrightarrow> es_evicted s \<or> es_oldest s \<noteq> None"

lemma evict_body_spec:
  assumes inv: "evict_inv now c0 s" and n: "0 < es_n s"
  shows "\<exists>s'. evict_body now r s = Some s' \<and> evict_inv now c0 s' \<and> found_victim s'"
proof -
  let ?c = "es_cache s" let ?i = "r mod es_n s"
  from inv have ci: "cache_inv ?c" and en: "es_n s = length (keys ?c)"
    by (auto simp: evict_inv_def)
  from n en have i: "?i < length (keys ?c)" by simp
  from n en have ni: "(length (keys ?c) \<le> r mod length (keys ?c)) = False" by (simp add: not_le)
  from cache_inv_key_stored [OF ci i] obtain e where
    e: "gomap_get (entries ?c) (keys ?c ! ?i) = Some e" by blast
  show ?thesis
  proof (cases "expiresAt e < now")
    case True
    obtain c' where c': "evict_at (es_n s) ?i (keys ?c ! ?i) ?c = Some c'" "cache_inv c'"
      "entries c' = gomap_delete (keys ?c ! ?i) (entries ?c)"
      "keys c' = swap_remove ?i (keys ?c)" "same_meta c' ?c"
      using evict_at_take_out [OF ci i] en by metis
    have dom: "keys ?c ! ?i \<in> gomap_dom (entries ?c)" by (rule gomap_get_in_dom [OF e])
    have "length (entries c') < length (entries ?c)"
      using ci dom by (simp add: c'(3) gomap_delete_shrinks cache_inv_def)
    moreover have "expired_only now c0 c'"
      by (rule expired_only_delete [OF _ e True c'(3)]) (use inv in \<open>simp add: evict_inv_def\<close>)
    ultimately show ?thesis
      using True i e c' inv n
      by (auto simp: evict_body_def rand_IntN_def Let_def evict_inv_def found_victim_def ni
          intro: same_meta_trans split: if_splits)
  next
    case False
    then show ?thesis
      using i e inv n
      by (auto simp: evict_body_def rand_IntN_def Let_def evict_inv_def found_victim_def ni
          split: option.splits)
  qed
qed

lemma evict_loop_spec:
  assumes "evict_inv now c0 s" and "0 < es_n s" and "0 < m \<or> found_victim s"
  shows "\<exists>b s'. evict_loop m now rnd s = Some (b, s') \<and> evict_inv now c0 s' \<and> found_victim s' \<and>
           (if b then es_evicted s' else 0 < es_n s')"
  using assms
proof (induction m arbitrary: s)
  case (Suc m)
  obtain s' where s': "evict_body now (rnd m) s = Some s'" "evict_inv now c0 s'" "found_victim s'"
    using evict_body_spec [OF Suc.prems(1,2)] by blast
  show ?case
  proof (cases "es_n s' = 0")
    case False
    with Suc.IH [OF s'(2)] s' show ?thesis by auto
  next
    case True
    moreover have "es_evicted s'"
      using s'(2,3) True by (auto simp: evict_inv_def found_victim_def split: if_splits)
    ultimately show ?thesis using s' by auto
  qed
qed auto

lemma evictIfNeeded_spec:
  assumes inv: "cache_inv c"
  obtains c' where "evictIfNeeded now rnd c = Some c'" and "cache_inv c'" and "same_meta c' c"
    and "expired_only now c c' \<or> (\<exists>k. entries c' = gomap_delete k (entries c))"
    and "maxEntries c \<le> int (length (entries c)) \<longrightarrow> entries c \<noteq> [] \<longrightarrow>
         length (entries c') < length (entries c)"
    and "int (length (entries c)) < maxEntries c \<longrightarrow> c' = c"
proof -
  let ?s = "\<lparr>es_cache = c, es_n = length (keys c), es_evicted = False, es_oldest = None\<rparr>"
  let ?m = "min evictSampleSize (length (keys c))"
  consider (room) "int (length (entries c)) < maxEntries c"
    | (empty) "maxEntries c \<le> int (length (entries c))" "keys c = []"
    | (full) "maxEntries c \<le> int (length (entries c))" "keys c \<noteq> []" by linarith
  then show ?thesis
  proof cases
    case room
    then show ?thesis using inv by (intro that [of c]) (auto simp: evictIfNeeded_def)
  next
    case empty
    then have "entries c = []" using cache_inv_length [OF inv] by simp
    then show ?thesis using inv empty by (intro that [of c]) (auto simp: evictIfNeeded_def Let_def)
  next
    case full
    have "evict_inv now c ?s" using inv by (simp add: evict_inv_def)
    then obtain b s' where s': "evict_loop ?m now rnd ?s = Some (b, s')" "evict_inv now c s'"
      "found_victim s'" "if b then es_evicted s' else 0 < es_n s'"
      using evict_loop_spec [of now c ?s ?m rnd] full(2) by auto
    show ?thesis
    proof (cases "es_evicted s'")
      case True
      with s' full show ?thesis
        by (intro that [of "es_cache s'"]) (auto simp: evictIfNeeded_def Let_def evict_inv_def)
    next
      case False
      with s' obtain idx ex where o: "es_oldest s' = Some (idx, ex)" "idx < length (keys c)"
        and ec: "es_cache s' = c" "\<not> b" "es_n s' = length (keys c)"
        by (auto simp: evict_inv_def found_victim_def split: if_splits)
      obtain c' where c': "evict_at (length (keys c)) idx (keys c ! idx) c = Some c'" "cache_inv c'"
        "entries c' = gomap_delete (keys c ! idx) (entries c)" "same_meta c' c"
        using evict_at_take_out [OF inv o(2)] by metis
      have "keys c ! idx \<in> gomap_dom (entries c)" using inv o(2) by (metis cache_inv_def nth_mem)
      then have "length (entries c') < length (entries c)"
        using inv by (simp add: c'(3) gomap_delete_shrinks cache_inv_def)
      moreover have "evictIfNeeded now rnd c = Some c'"
        using s' False o ec c' full by (auto simp: evictIfNeeded_def Let_def)
      ultimately show ?thesis using c' full by (intro that [of c']) auto
    qed
  qed
qed

subsection \<open>Insertion and lookup\<close>

lemma cache_insert_inv:
  assumes inv: "cache_inv c"
  shows "cache_inv (cache_insert key a ex c)"
proof (cases "gomap_get (entries c) key")
  case None
  then have "key \<notin> set (keys c)"
    using inv by (metis cache_inv_def gomap_get_dom)
  with None inv show ?thesis
    by (auto simp: cache_insert_def Let_def cache_inv_def gomap_simps index_of_append)
next
  case (Some e)
  then have "key \<in> gomap_dom (entries c)" by (rule gomap_get_in_dom)
  with Some inv show ?thesis
    by (auto simp: cache_insert_def Let_def cache_inv_def gomap_simps insert_absorb)
qed

lemma cache_insert_get:
  "gomap_get (entries (cache_insert key a ex c)) =
     (gomap_get (entries c))(key \<mapsto> \<lparr>attrs = a, expiresAt = ex\<rparr>)"
  by (simp add: cache_insert_def Let_def gomap_simps)

lemma cache_insert_meta: "same_meta (cache_insert key a ex c) c"
  by (simp add: cache_insert_def Let_def same_meta_def)

lemma cache_insert_length:
  "gomap_ok (entries c) \<Longrightarrow> length (entries (cache_insert key a ex c)) \<le> length (entries c) + 1"
  by (simp add: cache_insert_def Let_def gomap_length_set)

definition cache_peek :: "attrCache \<Rightarrow> string \<Rightarrow> (attrs_ptr \<times> int) option" where
  "cache_peek c k = map_option (\<lambda>e. (attrs e, expiresAt e)) (gomap_get (entries c) k)"

text \<open>The lifetime of a value, and storing any pointer with the operation meant for it.\<close>

definition cache_life :: "attrCache \<Rightarrow> attrs_ptr \<Rightarrow> duration" where
  "cache_life c a = (if isNegative a then negTTL c else ttl c)"

definition cache_put :: "int \<Rightarrow> int \<Rightarrow> (nat \<Rightarrow> nat) \<Rightarrow> string \<Rightarrow> attrs_ptr \<Rightarrow> attrCache \<Rightarrow> attrCache option" where
  "cache_put now1 now2 rnd key a c =
     (if isNegative a then setNotFound now1 now2 rnd key c else cache_set now1 now2 rnd key a c)"

lemma cache_put_eq:
  "cache_put now1 now2 rnd key a c =
     (case evictIfNeeded now1 rnd c of None \<Rightarrow> None
      | Some c' \<Rightarrow> Some (cache_insert key a (wrap64 (now2 + cache_life c' a)) c'))"
  by (auto simp: cache_put_def setNotFound_def cache_set_def cache_life_def isNegative_def
      split: option.splits)

lemma cache_put_spec:
  assumes inv: "cache_inv c"
  obtains c' where "cache_put now1 now2 rnd key a c = Some c'" and "cache_inv c'" and "same_meta c' c"
    and "cache_peek c' key = Some (a, wrap64 (now2 + cache_life c a))"
    and "\<forall>k. k \<noteq> key \<longrightarrow> cache_peek c' k = cache_peek c k \<or> cache_peek c' k = None"
    and "within_capacity c \<longrightarrow> within_capacity c'"
proof -
  obtain d where d: "evictIfNeeded now1 rnd c = Some d" "cache_inv d" "same_meta d c"
    "expired_only now1 c d \<or> (\<exists>k. entries d = gomap_delete k (entries c))"
    "maxEntries c \<le> int (length (entries c)) \<longrightarrow> entries c \<noteq> [] \<longrightarrow>
      length (entries d) < length (entries c)"
    "int (length (entries c)) < maxEntries c \<longrightarrow> d = c"
    by (rule evictIfNeeded_spec [OF inv, of now1 rnd])
  let ?c' = "cache_insert key a (wrap64 (now2 + cache_life d a)) d"
  have life: "cache_life d a = cache_life c a"
    using d(3) by (simp add: cache_life_def same_meta_def)
  have "same_meta ?c' c" using cache_insert_meta d(3) by (rule same_meta_trans)
  moreover have "cache_peek ?c' k = cache_peek c k \<or> cache_peek ?c' k = None" if "k \<noteq> key" for k
  proof -
    from d(4) have "gomap_get (entries d) k = gomap_get (entries c) k \<or> gomap_get (entries d) k = None"
      by (auto simp: gomap_simps expired_only_def split: if_splits)
    with that show ?thesis by (auto simp: cache_peek_def cache_insert_get)
  qed
  moreover have "within_capacity ?c'" if w: "within_capacity c"
  proof -
    have "int (length (entries d)) < maxEntries c"
      using w d(5,6) by (cases "int (length (entries c)) < maxEntries c")
        (auto simp: within_capacity_def)
    with w d(2,3) cache_insert_length [of d key a "wrap64 (now2 + cache_life d a)"] \<open>same_meta ?c' c\<close>
    show ?thesis by (simp add: within_capacity_def same_meta_def cache_inv_def)
  qed
  ultimately show ?thesis
    using d cache_insert_inv [OF d(2)]
    by (intro that [of ?c']) (auto simp: cache_put_eq life cache_peek_def cache_insert_get)
qed

lemma get_expire_spec:
  assumes inv: "cache_inv c"
  obtains c' where "get_expire now2 key c = Some c'" and "cache_inv c'" and "same_meta c' c"
    and "entries c' = entries c \<or> entries c' = gomap_delete key (entries c) \<and>
          (\<exists>e. gomap_get (entries c) key = Some e \<and> expiresAt e < now2)"
proof (cases "gomap_get (entries c) key")
  case None
  with inv show ?thesis by (intro that [of c]) (auto simp: get_expire_def)
next
  case (Some e)
  note get = this
  then have dom: "key \<in> gomap_dom (entries c)" by (rule gomap_get_in_dom)
  show ?thesis
  proof (cases "expiresAt e < now2")
    case True
    obtain c' where "removeKey key (c\<lparr>entries := gomap_delete key (entries c)\<rparr>) = Some c'"
      "cache_inv c'" "entries c' = gomap_delete key (entries c)" "same_meta c' c"
      by (rule removeKey_take_out [OF inv dom])
    with True Some show ?thesis by (intro that [of c']) (auto simp: get_expire_def)
  next
    case False
    with Some inv show ?thesis by (intro that [of c]) (auto simp: get_expire_def)
  qed
qed

lemma cache_inv_counters [simp]:
  "cache_inv (add_miss c) = cache_inv c" "cache_inv (add_hit c) = cache_inv c"
  "cache_peek (add_miss c) = cache_peek c" "cache_peek (add_hit c) = cache_peek c"
  "cache_life (add_miss c) = cache_life c" "cache_life (add_hit c) = cache_life c"
  "within_capacity (add_miss c) = within_capacity c" "within_capacity (add_hit c) = within_capacity c"
  by (auto simp: add_miss_def add_hit_def cache_inv_def cache_peek_def cache_life_def
      within_capacity_def fun_eq_iff)

lemma cache_get_spec:
  assumes inv: "cache_inv c"
  obtains r c' where "cache_get now1 now2 key c = Some (r, c')" and "cache_inv c'"
    and "cache_life c' = cache_life c"
    and "r = (case cache_peek c key of None \<Rightarrow> None | Some (v, t) \<Rightarrow> if t < now1 then None else Some v)"
    and "\<forall>k. cache_peek c' k = cache_peek c k \<or> cache_peek c' k = None \<and> k = key \<and> r = None"
    and "within_capacity c \<longrightarrow> within_capacity c'"
proof (cases "gomap_get (entries c) key")
  case None
  with inv show ?thesis
    by (intro that [of None "add_miss c"]) (auto simp: cache_get_def cache_peek_def)
next
  case (Some e)
  obtain d where d: "get_expire now2 key c = Some d" "cache_inv d" "same_meta d c"
    "entries d = entries c \<or> entries d = gomap_delete key (entries c) \<and>
          (\<exists>e. gomap_get (entries c) key = Some e \<and> expiresAt e < now2)"
    by (rule get_expire_spec [OF inv])
  have cap: "within_capacity d" if "within_capacity c"
    using d(3,4) that inv
    by (auto simp: within_capacity_def same_meta_def gomap_simps cache_inv_def)
  have life: "cache_life d = cache_life c"
    using d(3) by (auto simp: cache_life_def same_meta_def)
  show ?thesis
  proof (cases "expiresAt e < now1")
    case True
    show ?thesis
    proof (rule that [of None "add_miss d"])
      show "\<forall>k. cache_peek (add_miss d) k = cache_peek c k \<or>
          cache_peek (add_miss d) k = None \<and> k = key \<and> None = None"
        using d(4) by (auto simp: cache_peek_def gomap_simps add_miss_def split: if_splits)
    qed (use True Some d cap life in \<open>auto simp: cache_get_def cache_peek_def\<close>)
  next
    case False
    with Some inv show ?thesis
      by (intro that [of "Some (attrs e)" "add_hit c"]) (auto simp: cache_get_def cache_peek_def)
  qed
qed

interpretation attr_cache: ttl_cache cache_inv cache_peek cache_life cache_get cache_put
proof (unfold_locales, goal_cases)
  case (1 c n1 n2 k) then show ?case by (metis cache_get_spec)
next
  case (2 c n1 n2 k r c') then show ?case by (metis cache_get_spec Pair_inject option.inject)
next
  case (3 c n1 n2 k r c' k')
  show ?case by (rule cache_get_spec [OF 3(1), of n1 n2 k]) (use 3(2) in auto)
next
  case (4 c n1 n2 rnd k v)
  show ?case by (rule cache_put_spec [OF 4, of n1 n2 rnd k v])
      (auto simp: cache_life_def same_meta_def fun_eq_iff)
next
  case (5 c n1 n2 rnd k v c') 
  show ?case by (rule cache_put_spec [OF 5(1), of n1 n2 rnd k v]) (use 5(2) in auto)
next
  case (6 c n1 n2 rnd k v c' k')
  show ?case by (rule cache_put_spec [OF 6(1), of n1 n2 rnd k v]) (use 6(2,3) in auto)
qed

subsection \<open>Runs\<close>

text \<open>A sequence of cache calls from one goroutine, with the clock loads and draws of each.\<close>

datatype cache_op =
    OpGet int int string
  | OpSet int int "nat \<Rightarrow> nat" string ObjectAttrs
  | OpSetNotFound int int "nat \<Rightarrow> nat" string

fun cache_exec :: "cache_op \<Rightarrow> attrCache \<Rightarrow> attrCache option" where
  "cache_exec (OpGet n1 n2 k) c = map_option snd (cache_get n1 n2 k c)"
| "cache_exec (OpSet n1 n2 rnd k a) c = cache_set n1 n2 rnd k (Attrs a) c"
| "cache_exec (OpSetNotFound n1 n2 rnd k) c = setNotFound n1 n2 rnd k c"

fun cache_run :: "cache_op list \<Rightarrow> attrCache \<Rightarrow> attrCache option" where
  "cache_run [] c = Some c"
| "cache_run (x # xs) c = (case cache_exec x c of None \<Rightarrow> None | Some c' \<Rightarrow> cache_run xs c')"

lemma cache_set_put: "cache_set n1 n2 rnd k (Attrs a) c = cache_put n1 n2 rnd k (Attrs a) c"
  by (simp add: cache_put_def isNegative_def)

lemma setNotFound_put: "setNotFound n1 n2 rnd k c = cache_put n1 n2 rnd k SentinelNotFound c"
  by (simp add: cache_put_def isNegative_def)

lemma cache_exec_spec:
  assumes "cache_inv c" and "within_capacity c"
  shows "\<exists>c'. cache_exec x c = Some c' \<and> cache_inv c' \<and> within_capacity c' \<and> maxEntries c' = maxEntries c"
proof (cases x)
  case (OpGet n1 n2 k)
  obtain r c' where c': "cache_get n1 n2 k c = Some (r, c')" "cache_inv c'" "within_capacity c'"
    using cache_get_spec [OF assms(1), of n1 n2 k] assms(2) by metis
  obtain d where "get_expire n2 k c = Some d" "same_meta d c"
    using get_expire_spec [OF assms(1), of n2 k] by metis
  with c'(1) have "maxEntries c' = maxEntries c"
    by (auto simp: cache_get_def add_miss_def add_hit_def same_meta_def split: option.splits if_splits)
  with OpGet c' show ?thesis by auto
next
  case (OpSet n1 n2 rnd k a)
  obtain c' where "cache_put n1 n2 rnd k (Attrs a) c = Some c'" "cache_inv c'" "same_meta c' c"
      "within_capacity c'"
    using cache_put_spec [OF assms(1), of n1 n2 rnd k "Attrs a"] assms(2) by metis
  with OpSet show ?thesis by (auto simp: cache_set_put same_meta_def)
next
  case (OpSetNotFound n1 n2 rnd k)
  obtain c' where "cache_put n1 n2 rnd k SentinelNotFound c = Some c'" "cache_inv c'" "same_meta c' c"
      "within_capacity c'"
    using cache_put_spec [OF assms(1), of n1 n2 rnd k SentinelNotFound] assms(2) by metis
  with OpSetNotFound show ?thesis by (auto simp: setNotFound_put same_meta_def)
qed

lemma newAttrCache_inv:
  "newAttrCache t maxE = Some c \<Longrightarrow> 
     cache_inv c \<and> maxEntries c = maxE \<and> entries c = [] \<and> hits c = 0 \<and> misses c = 0"
  by (auto simp: newAttrCache_def cache_inv_def index_of_def split: if_splits)

lemma cache_run_spec:
  "cache_inv c \<Longrightarrow> within_capacity c \<Longrightarrow>
   \<exists>c'. cache_run ops c = Some c' \<and> cache_inv c' \<and> within_capacity c' \<and> maxEntries c' = maxEntries c"
proof (induction ops arbitrary: c)
  case (Cons x xs)
  from cache_exec_spec [OF Cons.prems, of x] obtain c' where
    "cache_exec x c = Some c'" "cache_inv c'" "within_capacity c'" "maxEntries c' = maxEntries c" by blast
  with Cons.IH show ?case by fastforce
qed simp

lemma get_expire_keeps:
  assumes "cache_inv c" and "within_capacity c" and "get_expire now key c = Some c'"
  shows "cache_inv c' \<and> within_capacity c' \<and> maxEntries c' = maxEntries c"
proof -
  obtain d where d: "get_expire now key c = Some d" "cache_inv d" "same_meta d c"
    "entries d = entries c \<or> entries d = gomap_delete key (entries c) \<and>
          (\<exists>e. gomap_get (entries c) key = Some e \<and> expiresAt e < now)"
    by (rule get_expire_spec [OF assms(1)])
  then have "length (entries d) \<le> length (entries c)"
    using assms(1) by (auto simp: gomap_simps cache_inv_def)
  with d assms(2,3) show ?thesis by (auto simp: within_capacity_def same_meta_def)
qed

lemma cache_put_keeps:
  assumes "cache_inv c" and "within_capacity c" and "cache_put n1 n2 rnd key a c = Some c'"
  shows "cache_inv c' \<and> within_capacity c' \<and> maxEntries c' = maxEntries c"
  using cache_put_spec [OF assms(1), of n1 n2 rnd key a] assms(2,3)
  by (metis option.inject same_meta_def)

lemma conc_step_inv:
  "conc_step s s' \<Longrightarrow> cache_inv (cc_cache s) \<Longrightarrow> within_capacity (cc_cache s) \<Longrightarrow>
   cache_inv (cc_cache s') \<and> within_capacity (cc_cache s') \<and>
   maxEntries (cc_cache s') = maxEntries (cc_cache s)"
proof (induction rule: conc_step.induct)
  case (get_drop key s c')
  from get_expire_keeps [OF get_drop.prems get_drop.hyps(2)] show ?case
    by (simp add: add_miss_def within_capacity_def cache_inv_def)
next
  case (do_set s t rnd key a c')
  from cache_put_keeps [OF do_set.prems do_set.hyps [unfolded cache_set_put]] show ?case by simp
next
  case (do_setNotFound s t rnd key c')
  from cache_put_keeps [OF do_setNotFound.prems do_setNotFound.hyps [unfolded setNotFound_put]]
  show ?case by simp
qed (simp_all add: add_hit_def add_miss_def within_capacity_def cache_inv_def)

lemma conc_reach_inv:
  "conc_reach c0 s \<Longrightarrow> cache_inv c0 \<Longrightarrow> within_capacity c0 \<Longrightarrow>
   cache_inv (cc_cache s) \<and> within_capacity (cc_cache s) \<and> maxEntries (cc_cache s) = maxEntries c0"
  by (induction rule: conc_reach.induct) (use conc_step_inv in force)+

subsection \<open>Which entry eviction takes\<close>

text \<open>
  \<open>sampled_idx\<close> are the positions a full pass draws; while nothing was evicted they all refer
  to the original key slice. \<open>closest_so_far\<close> is what the loop has established then.
\<close>

definition sampled_idx :: "(nat \<Rightarrow> nat) \<Rightarrow> nat \<Rightarrow> nat \<Rightarrow> nat set" where
  "sampled_idx rnd n m = (\<lambda>j. rnd j mod n) ` {..<m}"

definition closest_so_far :: "int \<Rightarrow> attrCache \<Rightarrow> nat set \<Rightarrow> evict_state \<Rightarrow> bool" where
  "closest_so_far now c S s \<longleftrightarrow>
     (\<forall>idx ex. es_oldest s = Some (idx, ex) \<longrightarrow>
        idx \<in> S \<and> (\<exists>e. gomap_get (entries c) (keys c ! idx) = Some e \<and> expiresAt e = ex)) \<and>
     (\<forall>i \<in> S. \<forall>e. gomap_get (entries c) (keys c ! i) = Some e \<longrightarrow>
        now \<le> expiresAt e \<and> (\<exists>idx ex. es_oldest s = Some (idx, ex) \<and> ex \<le> expiresAt e))"

lemma evict_body_closest:
  assumes "evict_inv now c s" and "\<not> es_evicted s" and "closest_so_far now c S s"
    and "evict_body now r s = Some s'" and "\<not> es_evicted s'"
  shows "closest_so_far now c (insert (r mod length (keys c)) S) s'"
proof -
  from assms(1,2) have c: "es_cache s = c" "es_n s = length (keys c)" and ci: "cache_inv c"
    by (auto simp: evict_inv_def)
  let ?i = "r mod length (keys c)"
  from assms(4) c have n: "?i < length (keys c)"
    by (auto simp: evict_body_def rand_IntN_def split: if_splits option.splits)
  obtain e where e: "gomap_get (entries c) (keys c ! ?i) = Some e"
    using cache_inv_key_stored [OF ci n] by blast
  with assms(4,5) n c have live: "now \<le> expiresAt e"
    by (auto simp: evict_body_def rand_IntN_def Let_def split: if_splits option.splits)
  have s': "s' = (if case es_oldest s of None \<Rightarrow> True | Some (_, ex) \<Rightarrow> expiresAt e < ex
                  then s\<lparr>es_oldest := Some (?i, expiresAt e)\<rparr> else s)"
    using assms(4) n c e live
    by (auto simp: evict_body_def rand_IntN_def Let_def split: if_splits)
  show ?thesis
  proof (cases "case es_oldest s of None \<Rightarrow> True | Some (_, ex) \<Rightarrow> expiresAt e < ex")
    case True
    then show ?thesis
      using assms(3) e live by (fastforce simp: s' closest_so_far_def split: option.splits)
  next
    case False
    then show ?thesis
      using assms(3) e live by (auto simp: s' closest_so_far_def split: option.splits)
  qed
qed

lemma evict_body_evicted: "evict_body now r s = Some s' \<Longrightarrow> es_evicted s \<Longrightarrow> es_evicted s'"
  by (auto simp: evict_body_def Let_def split: option.splits if_splits)

lemma evict_loop_evicted: "evict_loop m now rnd s = Some (b, s') \<Longrightarrow> es_evicted s \<Longrightarrow> es_evicted s'"
  by (induction m arbitrary: s) (auto dest: evict_body_evicted split: option.splits if_splits)

lemma evict_loop_closest:
  assumes "evict_inv now c s" and "0 < es_n s" and "\<not> es_evicted s" and "closest_so_far now c S s"
    and "evict_loop m now rnd s = Some (b, s')" and "\<not> es_evicted s'"
  shows "closest_so_far now c (S \<union> sampled_idx rnd (length (keys c)) m) s'"
  using assms
proof (induction m arbitrary: s S)
  case 0
  then show ?case by (simp add: sampled_idx_def)
next
  case (Suc m)
  obtain t where t: "evict_body now (rnd m) s = Some t" "evict_inv now c t"
    using evict_body_spec [OF Suc.prems(1,2)] by blast
  have nt: "\<not> es_evicted t"
    using Suc.prems(5,6) t evict_loop_evicted [of m now rnd t b s']
    by (auto split: if_splits)
  with t(2) Suc.prems(1-3) have n: "0 < es_n t" by (auto simp: evict_inv_def)
  have "closest_so_far now c (insert (rnd m mod length (keys c)) S) t"
    by (rule evict_body_closest [OF Suc.prems(1,3,4) t(1) nt])
  from Suc.IH [OF t(2) n nt this] Suc.prems(5,6) t nt
  have "closest_so_far now c (insert (rnd m mod length (keys c)) S \<union> sampled_idx rnd (length (keys c)) m) s'"
    by simp
  moreover have "insert (rnd m mod length (keys c)) S \<union> sampled_idx rnd (length (keys c)) m =
      S \<union> sampled_idx rnd (length (keys c)) (Suc m)"
    by (auto simp: sampled_idx_def lessThan_Suc)
  ultimately show ?case by simp
qed

subsection \<open>Properties\<close>

text \<open>
  C3. Any sequence of \<open>get\<close>, \<open>set\<close> and \<open>setNotFound\<close> calls on a new cache runs without a
  panic (no index out of range, no \<open>IntN(0)\<close>), whatever the clock and the random draws are;
  afterwards entries, key slice and index agree and the cache holds at most \<open>maxEntries\<close>
  entries.
\<close>

theorem cache_run_safe:
  assumes "newAttrCache t maxE = Some c0" and "1 \<le> maxE"
  shows "\<exists>c. cache_run ops c0 = Some c \<and> cache_inv c \<and> cache_len c \<le> maxE"
proof -
  from newAttrCache_inv [OF assms(1)] assms(2) have "cache_inv c0" "within_capacity c0" "maxEntries c0 = maxE"
    by (auto simp: within_capacity_def)
  with cache_run_spec [of c0 ops] show ?thesis by (auto simp: cache_len_def within_capacity_def)
qed

theorem cache_run_safe_witness:
  "\<exists>c0 c. newAttrCache 0 1 = Some c0 \<and>
     cache_run [OpSetNotFound 5 6 (\<lambda>_. 0) ''a'', OpSetNotFound 7 8 (\<lambda>_. 3) ''b'', OpGet 9 9 ''b'']
       c0 = Some c \<and> cache_inv c \<and> cache_len c \<le> 1"
proof -
  obtain c0 where c0: "newAttrCache 0 1 = Some c0" by (simp add: newAttrCache_def)
  from c0 cache_run_safe [OF c0 order_refl] show ?thesis by blast
qed

text \<open>
  C8. The same under concurrency: in every state goroutines can reach by interleaving the
  lock sections of \<open>get\<close>, \<open>set\<close> and \<open>setNotFound\<close> with clock ticks, the representation
  invariant and the capacity bound hold and no pending or new cache call can panic.
\<close>

theorem cache_concurrent_safe:
  assumes "newAttrCache t maxE = Some c0" and "1 \<le> maxE" and "conc_reach c0 s"
  shows "cache_inv (cc_cache s) \<and> cache_len (cc_cache s) \<le> maxE \<and>
     (\<forall>now key. get_expire now key (cc_cache s) \<noteq> None) \<and>
     (\<forall>n1 n2 rnd key a. cache_set n1 n2 rnd key (Attrs a) (cc_cache s) \<noteq> None \<and>
        setNotFound n1 n2 rnd key (cc_cache s) \<noteq> None)"
proof -
  from newAttrCache_inv [OF assms(1)] assms(2) have "cache_inv c0" "within_capacity c0" "maxEntries c0 = maxE"
    by (auto simp: within_capacity_def)
  with conc_reach_inv [OF assms(3)] have inv: "cache_inv (cc_cache s)" "cache_len (cc_cache s) \<le> maxE"
    by (auto simp: within_capacity_def cache_len_def)
  have "get_expire now key (cc_cache s) \<noteq> None" for now key
    by (rule get_expire_spec [OF inv(1), of now key]) simp
  moreover have "cache_put n1 n2 rnd key a (cc_cache s) \<noteq> None" for n1 n2 rnd key a
    by (rule cache_put_spec [OF inv(1), of n1 n2 rnd key a]) simp
  ultimately show ?thesis using inv by (simp add: cache_set_put setNotFound_put)
qed

theorem cache_concurrent_safe_witness:
  "\<exists>c0. newAttrCache Second 2 = Some c0 \<and>
     conc_reach c0 \<lparr>cc_cache = add_miss c0, cc_clock = 7, cc_pending = []\<rparr> \<and>
     cache_inv (add_miss c0) \<and> cache_len (add_miss c0) \<le> 2"
proof -
  let ?c = "the (newAttrCache Second 2)"
  have c: "newAttrCache Second 2 = Some ?c" by (simp add: newAttrCache_def)
  let ?s = "\<lparr>cc_cache = ?c, cc_clock = 7, cc_pending = []\<rparr>"
  have "conc_step ?s (?s\<lparr>cc_cache := add_miss (cc_cache ?s)\<rparr>)"
    by (rule conc_step.get_absent [of _ "''a''"]) (simp add: newAttrCache_def)
  with conc_reach.start have r: "conc_reach ?c \<lparr>cc_cache = add_miss ?c, cc_clock = 7, cc_pending = []\<rparr>"
    using conc_reach.step by fastforce
  from cache_concurrent_safe [OF c _ r] c r show ?thesis by (intro exI [of _ ?c]) simp
qed

text \<open>
  C26. A lookup after a store returns what was stored until the entry's lifetime is over:
  \<open>ttl\<close> for attributes, the shorter \<open>negTTL\<close> for a missing object.
\<close>

theorem cache_store_then_get:
  assumes "cache_inv c" and "in_i64 (n2 + ttl c)" and "in_i64 (n2 + negTTL c)"
  shows "(\<forall>c' n3. cache_set n1 n2 rnd k (Attrs a) c = Some c' \<and> n3 \<le> n2 + ttl c \<longrightarrow>
            (\<exists>c''. cache_get n3 n4 k c' = Some (Some (Attrs a), c''))) \<and>
         (\<forall>c' n3. setNotFound n1 n2 rnd k c = Some c' \<and> n3 \<le> n2 + negTTL c \<longrightarrow>
            (\<exists>c''. cache_get n3 n4 k c' = Some (Some SentinelNotFound, c'')))"
  using attr_cache.put_then_get [OF assms(1), of n1 n2 rnd k "Attrs a"]
    attr_cache.put_then_get [OF assms(1), of n1 n2 rnd k SentinelNotFound] assms(2,3)
  by (simp add: cache_set_put setNotFound_put cache_life_def isNegative_def wrap64_id)

theorem cache_store_then_get_witness:
  "\<exists>c c' c''. newAttrCache (20 * Second) 1 = Some c \<and>
     setNotFound 0 100 (\<lambda>_. 0) ''a'' c = Some c' \<and>
     cache_get (100 + 2 * Second) 0 ''a'' c' = Some (Some SentinelNotFound, c'')"
proof -
  let ?c = "the (newAttrCache (20 * Second) 1)"
  have c: "newAttrCache (20 * Second) 1 = Some ?c" by (simp add: newAttrCache_def)
  have t: "in_i64 (100 + ttl ?c)" "in_i64 (100 + negTTL ?c)" "negTTL ?c = 2 * Second"
    by (simp_all add: newAttrCache_def in_i64_def go_div_def)
  have i: "cache_inv ?c" using newAttrCache_inv [OF c] by simp
  then obtain c' where c': "setNotFound 0 100 (\<lambda>_. 0) ''a'' ?c = Some c'"
    using attr_cache.put_total [OF i] by (metis setNotFound_put)
  have "\<exists>c''. cache_get (100 + 2 * Second) 0 ''a'' c' = Some (Some SentinelNotFound, c'')"
    by (rule conjunct2 [OF cache_store_then_get [OF i t(1,2)], rule_format])
      (use c' t(3) in simp)
  with c c' show ?thesis by blast
qed

text \<open>
  An expired entry is never served: a lookup that loads the clock after the expiry
  misses, and if the re-check still sees it expired the key is gone from all containers while
  every other entry stays.
\<close>

lemma cache_get_expired:
  assumes "cache_inv c" and "gomap_get (entries c) k = Some e"
    and "expiresAt e < n1" and "expiresAt e < n2"
  shows "\<exists>c'. cache_get n1 n2 k c = Some (None, c') \<and> cache_inv c' \<and>
     k \<notin> set (keys c') \<and> gomap_get (keyIndex c') k = None \<and>
     (\<forall>k'. gomap_get (entries c') k' = (if k' = k then None else gomap_get (entries c) k'))"
proof -
  have dom: "k \<in> gomap_dom (entries c)" by (rule gomap_get_in_dom [OF assms(2)])
  obtain d where d: "removeKey k (c\<lparr>entries := gomap_delete k (entries c)\<rparr>) = Some d" "cache_inv d"
    "entries d = gomap_delete k (entries c)" "same_meta d c"
    by (rule removeKey_take_out [OF assms(1) dom])
  then have nk: "k \<notin> set (keys d)" by (simp add: cache_inv_def gomap_simps)
  have "gomap_get (keyIndex d) k = None"
  proof (rule ccontr)
    assume "gomap_get (keyIndex d) k \<noteq> None"
    then obtain j where "j < length (keys d)" "keys d ! j = k"
      using d(2) by (auto simp: cache_inv_def index_of_def)
    with nk show False by auto
  qed
  moreover have "cache_get n1 n2 k c = Some (None, add_miss d)"
    using d(1) assms(2-4) by (simp add: cache_get_def get_expire_def)
  ultimately show ?thesis
    using d(2,3) nk by (intro exI [of _ "add_miss d"]) (simp add: gomap_simps add_miss_def cache_inv_def)
qed

definition stale_cache :: attrCache where
  "stale_cache =
     \<lparr>entries = [(''a'', \<lparr>attrs = SentinelNotFound, expiresAt = 4\<rparr>)], keys = [''a''],
      keyIndex = [(''a'', 0)], ttl = 0, negTTL = 0, maxEntries = 1, hits = 0, misses = 0\<rparr>"

lemma stale_cache_inv: "cache_inv stale_cache"
  by (auto simp: cache_inv_def index_of_def stale_cache_def)

lemma cache_get_expired_witness:
  "\<exists>c'. cache_get 5 6 ''a'' stale_cache = Some (None, c') \<and> ''a'' \<notin> set (keys c')"
proof -
  have "gomap_get (entries stale_cache) ''a'' = Some \<lparr>attrs = SentinelNotFound, expiresAt = 4\<rparr>"
    by (simp add: stale_cache_def)
  from cache_get_expired [OF stale_cache_inv this, of 5 6] show ?thesis by auto
qed

text \<open>What eviction may remove.\<close>

lemma eviction_victims:
  assumes inv: "cache_inv c" and ev: "evictIfNeeded now rnd c = Some c'"
  shows "expired_only now c c' \<or>
    (\<exists>idx e. entries c' = gomap_delete (keys c ! idx) (entries c) \<and>
       idx \<in> sampled_idx rnd (length (keys c)) (min evictSampleSize (length (keys c))) \<and>
       gomap_get (entries c) (keys c ! idx) = Some e \<and>
       (\<forall>i \<in> sampled_idx rnd (length (keys c)) (min evictSampleSize (length (keys c))).
          \<forall>e'. gomap_get (entries c) (keys c ! i) = Some e' \<longrightarrow>
             now \<le> expiresAt e' \<and> expiresAt e \<le> expiresAt e'))"
proof (cases "int (length (entries c)) < maxEntries c \<or> keys c = []")
  case True
  with ev have "c' = c" by (auto simp: evictIfNeeded_def Let_def split: if_splits)
  then show ?thesis by simp
next
  case False
  let ?s = "\<lparr>es_cache = c, es_n = length (keys c), es_evicted = False, es_oldest = None\<rparr>"
  let ?m = "min evictSampleSize (length (keys c))"
  have i: "evict_inv now c ?s" using inv by (simp add: evict_inv_def)
  with False obtain b s where s: "evict_loop ?m now rnd ?s = Some (b, s)" "evict_inv now c s"
    "found_victim s" "if b then es_evicted s else 0 < es_n s"
    using evict_loop_spec [of now c ?s ?m rnd] by auto
  show ?thesis
  proof (cases "es_evicted s")
    case True
    with ev s False have "c' = es_cache s"
      by (auto simp: evictIfNeeded_def Let_def split: if_splits)
    with s(2) show ?thesis by (simp add: evict_inv_def)
  next
    case nev: False
    with s obtain idx ex where o: "es_oldest s = Some (idx, ex)" "idx < length (keys c)"
      and ec: "es_cache s = c" "\<not> b" "es_n s = length (keys c)"
      by (auto simp: evict_inv_def found_victim_def split: if_splits)
    have "closest_so_far now c ({} \<union> sampled_idx rnd (length (keys c)) ?m) s"
      by (rule evict_loop_closest [OF i _ _ _ s(1) nev]) (use False in \<open>auto simp: closest_so_far_def\<close>)
    moreover have "entries c' = gomap_delete (keys c ! idx) (entries c)"
      using ev s False nev o ec by (auto simp: evictIfNeeded_def evict_at_def Let_def)
    ultimately show ?thesis using o(1) by (fastforce simp: closest_so_far_def)
  qed
qed

text \<open>
  C27. Eviction leaves a cache with room, or without entries, as it is. From a full cache it really
  removes something: either only entries that were expired, at least one of them, or exactly
  one live entry, namely one with the least remaining lifetime among the sampled keys, and that
  only when no sampled key was expired.
\<close>

theorem eviction_choice:
  assumes inv: "cache_inv c" and ev: "evictIfNeeded now rnd c = Some c'"
  shows "if int (length (entries c)) < maxEntries c \<or> entries c = [] then c' = c
    else length (entries c') < length (entries c) \<and>
      (expired_only now c c' \<or>
       (\<exists>idx e. entries c' = gomap_delete (keys c ! idx) (entries c) \<and>
          idx \<in> sampled_idx rnd (length (keys c)) (min evictSampleSize (length (keys c))) \<and>
          gomap_get (entries c) (keys c ! idx) = Some e \<and>
          (\<forall>i \<in> sampled_idx rnd (length (keys c)) (min evictSampleSize (length (keys c))).
             \<forall>e'. gomap_get (entries c) (keys c ! i) = Some e' \<longrightarrow>
                now \<le> expiresAt e' \<and> expiresAt e \<le> expiresAt e')))"
proof (cases "int (length (entries c)) < maxEntries c \<or> entries c = []")
  case True
  then have "int (length (entries c)) < maxEntries c \<or> keys c = []" using cache_inv_length [OF inv] by auto
  with ev have "c' = c" by (auto simp: evictIfNeeded_def Let_def split: if_splits)
  with True show ?thesis by simp
next
  case False
  obtain c1 where "evictIfNeeded now rnd c = Some c1" "maxEntries c \<le> int (length (entries c)) \<longrightarrow> entries c \<noteq> [] \<longrightarrow>
      length (entries c1) < length (entries c)"
    using evictIfNeeded_spec [OF inv] by metis
  with ev False have "length (entries c') < length (entries c)" by auto
  with eviction_victims [OF inv ev] show ?thesis unfolding if_not_P [OF False] by blast
qed

theorem eviction_choice_witness:
  "\<exists>c'. evictIfNeeded 4 (\<lambda>_. 0) stale_cache = Some c' \<and> \<not> expired_only 4 stale_cache c' \<and>
     length (entries c') < length (entries stale_cache) \<and>
     (\<exists>idx. entries c' = gomap_delete (keys stale_cache ! idx) (entries stale_cache))"
proof -
  let ?c = "stale_cache\<lparr>entries := [], keys := [], keyIndex := []\<rparr>"
  have ev: "evictIfNeeded 4 (\<lambda>_. 0) stale_cache = Some ?c"
    by (simp add: evictIfNeeded_def stale_cache_def evict_body_def rand_IntN_def evict_at_def Let_def)
  have "\<not> expired_only 4 stale_cache ?c"
    by (auto simp: expired_only_def stale_cache_def)
  moreover have "\<not> (int (length (entries stale_cache)) < maxEntries stale_cache \<or> entries stale_cache = [])"
    by (simp add: stale_cache_def)
  ultimately show ?thesis using ev eviction_choice [OF stale_cache_inv ev] by (metis (no_types, lifting))
qed

text \<open>
  C28. A live entry is lost only to capacity pressure: if one step of any goroutine removes an
  entry that has not expired at the current clock, the cache was full. In particular the
  delayed write-lock section of a \<open>get\<close> never deletes an entry another goroutine refreshed.
\<close>

theorem live_entry_lost_only_when_full:
  assumes "conc_step s s'" and "cache_inv (cc_cache s)"
    and "gomap_get (entries (cc_cache s)) k = Some e" and "cc_clock s \<le> expiresAt e"
    and "gomap_get (entries (cc_cache s')) k = None"
  shows "maxEntries (cc_cache s) \<le> cache_len (cc_cache s)"
proof -
  have put: "maxEntries c \<le> cache_len c"
    if "cache_put n1 n2 rnd key a c = Some c'" "cache_inv c"
      "gomap_get (entries c) k = Some e" "gomap_get (entries c') k = None" for n1 n2 rnd key a c c'
    using that evictIfNeeded_spec [OF that(2), of n1 rnd]
    by (cases "int (length (entries c)) < maxEntries c")
      (auto simp: cache_put_eq cache_insert_get cache_len_def evictIfNeeded_def split: if_splits)
  from assms show ?thesis
  proof (cases rule: conc_step.cases)
    case (get_drop key c')
    then obtain "entries c' = entries (cc_cache s) \<or> entries c' = gomap_delete key (entries (cc_cache s)) \<and>
        (\<exists>e. gomap_get (entries (cc_cache s)) key = Some e \<and> expiresAt e < cc_clock s)"
      using get_expire_spec [OF assms(2), of "cc_clock s" key] by (metis option.inject)
    with get_drop assms(3-5) show ?thesis
      by (auto simp: add_miss_def gomap_simps split: if_splits)
  next
    case (do_set t rnd key a c')
    with assms put show ?thesis by (auto simp: cache_set_put)
  next
    case (do_setNotFound t rnd key c')
    with assms put show ?thesis by (auto simp: setNotFound_put)
  qed (auto simp: add_miss_def add_hit_def)
qed

theorem live_entry_lost_only_when_full_witness:
  "\<exists>s s'. conc_step s s' \<and> gomap_get (entries (cc_cache s)) ''a'' \<noteq> None \<and>
     gomap_get (entries (cc_cache s')) ''a'' = None \<and> maxEntries (cc_cache s) \<le> cache_len (cc_cache s)"
proof -
  let ?s = "\<lparr>cc_cache = stale_cache, cc_clock = 4, cc_pending = []\<rparr>"
  let ?e = "\<lparr>attrs = SentinelNotFound, expiresAt = 4\<rparr>"
  let ?c' = "\<lparr>entries = [(''b'', ?e)], keys = [''b''],
      keyIndex = [(''b'', 0)], ttl = 0, negTTL = 0, maxEntries = 1, hits = 0, misses = 0\<rparr>"
  have "setNotFound 4 4 (\<lambda>_. 0) ''b'' stale_cache = Some ?c'"
    by (simp add: setNotFound_def evictIfNeeded_def stale_cache_def evict_body_def rand_IntN_def
        evict_at_def cache_insert_def wrap64_def Let_def)
  then have st: "conc_step ?s (?s\<lparr>cc_cache := ?c', cc_clock := 4\<rparr>)"
    by (intro conc_step.do_setNotFound) simp
  have g: "gomap_get (entries (cc_cache ?s)) ''a'' = Some ?e" by (simp add: stale_cache_def)
  have "maxEntries (cc_cache ?s) \<le> cache_len (cc_cache ?s)"
    by (rule live_entry_lost_only_when_full [OF st _ g]) (simp_all add: stale_cache_inv)
  with st g show ?thesis by (intro exI [of _ ?s] exI [of _ "?s\<lparr>cc_cache := ?c', cc_clock := 4\<rparr>"]) simp
qed

text \<open>
  The counters are exact: after any run on a new cache, hits plus misses is the number of
  lookups made (as long as that fits the counters).
\<close>

definition is_get :: "cache_op \<Rightarrow> bool" where
  "is_get x = (case x of OpGet _ _ _ \<Rightarrow> True | _ \<Rightarrow> False)"

lemma cache_exec_counts:
  assumes "cache_inv c" and "cache_exec x c = Some c'" and "0 \<le> hits c" "0 \<le> misses c"
    and "hits c + misses c < 2 ^ 63 - 1"
  shows "hits c' + misses c' = hits c + misses c + (if is_get x then 1 else 0) \<and>
    0 \<le> hits c' \<and> 0 \<le> misses c'"
proof (cases x)
  case (OpGet n1 n2 k)
  obtain d where "get_expire n2 k c = Some d" "same_meta d c"
    using get_expire_spec [OF assms(1), of n2 k] by metis
  with OpGet assms(2-5) show ?thesis
    by (auto simp: cache_get_def add_miss_def add_hit_def same_meta_def is_get_def i64_simps
        split: option.splits if_splits)
next
  case (OpSet n1 n2 rnd k a)
  then have "same_meta c' c"
    using assms(1,2) cache_put_spec [OF assms(1), of n1 n2 rnd k "Attrs a"]
    by (metis cache_exec.simps(2) cache_set_put option.inject)
  with OpSet assms(3,4) show ?thesis by (simp add: same_meta_def is_get_def)
next
  case (OpSetNotFound n1 n2 rnd k)
  then have "same_meta c' c"
    using assms(1,2) cache_put_spec [OF assms(1), of n1 n2 rnd k SentinelNotFound]
    by (metis cache_exec.simps(3) setNotFound_put option.inject)
  with OpSetNotFound assms(3,4) show ?thesis by (simp add: same_meta_def is_get_def)
qed

lemma cache_run_counts:
  assumes "cache_inv c" and "within_capacity c" and "cache_run ops c = Some c'" and "0 \<le> hits c" "0 \<le> misses c"
    and "hits c + misses c + int (length ops) < 2 ^ 63"
  shows "hits c' + misses c' = hits c + misses c + int (length (filter is_get ops))"
  using assms
proof (induction ops arbitrary: c)
  case (Cons x xs)
  obtain d where d: "cache_exec x c = Some d" "cache_inv d" "within_capacity d"
    using cache_exec_spec [OF Cons.prems(1,2)] by blast
  have n: "hits d + misses d = hits c + misses c + (if is_get x then 1 else 0)" "0 \<le> hits d" "0 \<le> misses d"
    using cache_exec_counts [OF Cons.prems(1) d(1)] Cons.prems(4-6) by auto
  from Cons.IH [OF d(2,3)] Cons.prems(3,6) d(1) n show ?case by (auto split: if_splits)
qed simp

lemma cache_stats_exact:
  assumes "newAttrCache t maxE = Some c0" and "1 \<le> maxE" and "cache_run ops c0 = Some c"
    and "int (length ops) < 2 ^ 63"
  shows "fst (cache_stats c) + snd (cache_stats c) = int (length (filter is_get ops))"
proof -
  have "cache_inv c0" "within_capacity c0" "hits c0 = 0" "misses c0 = 0"
    using newAttrCache_inv [OF assms(1)] assms(2) by (auto simp: within_capacity_def)
  with cache_run_counts [OF _ _ assms(3)] assms(4) show ?thesis by (simp add: cache_stats_def)
qed

lemma cache_stats_exact_witness:
  "\<exists>c0 c. newAttrCache 0 1 = Some c0 \<and> cache_run [OpGet 1 1 ''a'', OpGet 2 2 ''b''] c0 = Some c \<and>
     fst (cache_stats c) + snd (cache_stats c) = 2"
proof -
  let ?c0 = "the (newAttrCache 0 1)"
  let ?ops = "[OpGet 1 1 ''a'', OpGet 2 2 ''b'']"
  have c0: "newAttrCache 0 1 = Some ?c0" by (simp add: newAttrCache_def)
  obtain c where c: "cache_run ?ops ?c0 = Some c"
    by (simp add: newAttrCache_def cache_get_def add_miss_def)
  from cache_stats_exact [OF c0 order_refl c] c0 c show ?thesis
    by (intro exI [of _ ?c0] exI [of _ c]) (simp add: is_get_def)
qed

definition clock_inv :: "sharedClock \<Rightarrow> bool" where
  "clock_inv s \<longleftrightarrow>
     (if clk_once s then \<exists>ch. clk_running s = [ch] \<and> clk_done s = Some ch
      else clk_running s = [] \<and> clk_done s = None)"

lemma clock_step_inv: "clock_inv s \<Longrightarrow> clock_inv (clock_step s e)"
  by (cases e) (auto simp: clock_inv_def clock_ensure_def clock_tick_def stopSharedClock_def
      initSharedClock_def Let_def split: option.splits if_splits)

lemma clock_run_inv: "clock_inv (foldl clock_step initial_clock es)"
proof (induction es rule: rev_induct)
  case Nil
  then show ?case by (simp add: clock_inv_def initial_clock_def)
next
  case (snoc e es)
  then show ?case by (simp add: clock_step_inv)
qed

text \<open>
  The process runs at most one ticker goroutine, however often caches are created and the
  clock is stopped, and exactly one while the clock counts as started.
\<close>

lemma single_ticker:
  "length (clk_running (foldl clock_step initial_clock es)) =
     (if clk_once (foldl clock_step initial_clock es) then 1 else 0)"
  using clock_run_inv [of es] by (auto simp: clock_inv_def split: if_splits)

end
