(* ===== verification/Go_Path.thy ===== *)
theory Go_Path
  imports Prelude
begin

section \<open>UTF-8, slash-separated paths and the filesystem's path check\<close>

text \<open>
  The parts of Go's standard library that decide which object a request reaches:
  \<^verbatim>\<open>unicode/utf8\<close> decoding, \<^verbatim>\<open>path.Clean\<close>, \<^verbatim>\<open>path.Join\<close>, \<^verbatim>\<open>path.Base\<close>, \<^verbatim>\<open>path.Ext\<close> and
  \<^verbatim>\<open>fs.ValidPath\<close>, and the repository's own \<open>validPath\<close> on top of them
  (\<^verbatim>\<open>pkg/gcs/fs/gcsfs.go\<close>). The main results: joining a valid name to any prefix only
  appends the name to a string that depends on the prefix alone, so a request never leaves
  the prefix and different names never reach the same object.
\<close>

subsection \<open>UTF-8\<close>

text \<open>
  \<open>decode_rune\<close> is \<^verbatim>\<open>utf8.DecodeRune\<close>: the code point and its width, and
  \<open>(RuneError, 1)\<close> on an ill-formed sequence (overlong, surrogate, beyond U+10FFFF,
  truncated, or a stray continuation byte).
\<close>

abbreviation RuneError :: nat where
  "RuneError \<equiv> 65533"

definition cont_byte :: "nat \<Rightarrow> bool" where
  "cont_byte b \<longleftrightarrow> 128 \<le> b \<and> b \<le> 191"

fun decode_rune :: "nat list \<Rightarrow> nat \<times> nat" where
  "decode_rune [] = (RuneError, 0)"
| "decode_rune (a # r) =
     (if a < 128 then (a, 1)
      else if 194 \<le> a \<and> a \<le> 223 then
        (case r of b # _ \<Rightarrow> if cont_byte b then ((a - 192) * 64 + (b - 128), 2) else (RuneError, 1)
                 | _ \<Rightarrow> (RuneError, 1))
      else if 224 \<le> a \<and> a \<le> 239 then
        (case r of b # c # _ \<Rightarrow>
             if (if a = 224 then 160 else 128) \<le> b \<and> b \<le> (if a = 237 then 159 else 191) \<and> cont_byte c
             then ((a - 224) * 4096 + (b - 128) * 64 + (c - 128), 3) else (RuneError, 1)
           | _ \<Rightarrow> (RuneError, 1))
      else if 240 \<le> a \<and> a \<le> 244 then
        (case r of b # c # d # _ \<Rightarrow>
             if (if a = 240 then 144 else 128) \<le> b \<and> b \<le> (if a = 244 then 143 else 191)
                \<and> cont_byte c \<and> cont_byte d
             then ((a - 240) * 262144 + (b - 128) * 4096 + (c - 128) * 64 + (d - 128), 4)
             else (RuneError, 1)
           | _ \<Rightarrow> (RuneError, 1))
      else (RuneError, 1))"

definition bytes_of :: "string \<Rightarrow> nat list" where
  "bytes_of s = map of_char s"

lemma decode_rune_width:
  "bs \<noteq> [] \<Longrightarrow> 1 \<le> snd (decode_rune bs) \<and> snd (decode_rune bs) \<le> length bs"
  by (cases bs) (auto split: list.splits)

function utf8_valid :: "nat list \<Rightarrow> bool" where
  "utf8_valid bs =
     (if bs = [] then True
      else if decode_rune bs = (RuneError, 1) then False
      else utf8_valid (drop (snd (decode_rune bs)) bs))"
  by pat_completeness auto
termination
  by (relation "measure length") (use decode_rune_width in \<open>force+\<close>)

declare utf8_valid.simps [simp del]

definition ValidString :: "string \<Rightarrow> bool" where
  "ValidString s = utf8_valid (bytes_of s)"

lemma utf8_valid_ascii: "\<forall>b \<in> set bs. b < 128 \<Longrightarrow> utf8_valid bs"
  by (induction bs) (auto simp: utf8_valid.simps [of "_ # _"] utf8_valid.simps [of "[]"])

lemma ValidString_ascii: "\<forall>c \<in> set s. (of_char c :: nat) < 128 \<Longrightarrow> ValidString s"
  unfolding ValidString_def bytes_of_def by (rule utf8_valid_ascii) simp

subsection \<open>Package path\<close>

text \<open>
  \<^verbatim>\<open>path.Clean\<close> walks the slash-separated elements with a stack (kept reversed here):
  empty and dot elements vanish, a dot-dot element removes the last real element; at the
  root it vanishes, and in a relative path with nothing left to remove it is kept.
\<close>

fun clean_elem :: "bool \<Rightarrow> string list \<Rightarrow> string \<Rightarrow> string list" where
  "clean_elem rooted stk e =
     (if e = [] \<or> e = ''.'' then stk
      else if e = ''..'' then
        (case stk of
           [] \<Rightarrow> (if rooted then [] else [''..''])
         | t # ts \<Rightarrow> (if t = ''..'' then ''..'' # stk else ts))
      else e # stk)"

definition clean_stack :: "string \<Rightarrow> string list" where
  "clean_stack p = foldl (clean_elem (p \<noteq> [] \<and> hd p = CHR ''/'')) [] (split_on CHR ''/'' p)"

definition path_Clean :: "string \<Rightarrow> string" where
  "path_Clean p =
     (if p = [] then ''.''
      else if hd p = CHR ''/'' then CHR ''/'' # join_with CHR ''/'' (rev (clean_stack p))
      else if clean_stack p = [] then ''.''
      else join_with CHR ''/'' (rev (clean_stack p)))"

text \<open>
  \<^verbatim>\<open>path.Join\<close> skips leading empty elements, separates the rest by slashes and cleans.
\<close>

fun join_buf :: "string \<Rightarrow> string list \<Rightarrow> string" where
  "join_buf buf [] = buf"
| "join_buf buf (e # es) =
     join_buf (if buf \<noteq> [] \<or> e \<noteq> [] then (if buf \<noteq> [] then buf @ ''/'' else buf) @ e else buf) es"

definition path_Join :: "string list \<Rightarrow> string" where
  "path_Join es = (if concat es = [] then [] else path_Clean (join_buf [] es))"

definition path_Base :: "string \<Rightarrow> string" where
  "path_Base p =
     (if p = [] then ''.''
      else let q = rev (dropWhile (\<lambda>c. c = CHR ''/'') (rev p))
           in if q = [] then ''/'' else last (split_on CHR ''/'' q))"

text \<open>\<^verbatim>\<open>path.Ext\<close>: the suffix of the last element that starts at its last dot.\<close>

definition path_Ext :: "string \<Rightarrow> string" where
  "path_Ext p =
     (let e = last (split_on CHR ''/'' p)
      in if CHR ''.'' \<in> set e
         then CHR ''.'' # last (split_on CHR ''.'' e) else [])"

subsection \<open>fs.ValidPath and validPath\<close>

definition valid_elem :: "string \<Rightarrow> bool" where
  "valid_elem e \<longleftrightarrow> e \<noteq> [] \<and> e \<noteq> ''.'' \<and> e \<noteq> ''..''"

definition fs_ValidPath :: "string \<Rightarrow> bool" where
  "fs_ValidPath name \<longleftrightarrow>
     ValidString name \<and> (name = ''.'' \<or> list_all valid_elem (split_on CHR ''/'' name))"

definition validPath :: "string \<Rightarrow> bool" where
  "validPath name \<longleftrightarrow> fs_ValidPath name \<and> CHR 0x5C \<notin> set name"

subsection \<open>What joining a valid name does\<close>

lemma foldl_clean_valid:
  "list_all valid_elem es \<Longrightarrow> foldl (clean_elem r) stk es = rev es @ stk"
  by (induction es arbitrary: stk) (auto simp: valid_elem_def)

lemma valid_name_nonempty: "list_all valid_elem (split_on CHR ''/'' n) \<Longrightarrow> n \<noteq> []"
  by (cases n) (auto simp: valid_elem_def)

lemma valid_name_not_rooted:
  "list_all valid_elem (split_on CHR ''/'' n) \<Longrightarrow> hd n \<noteq> CHR ''/''"
  by (cases n) (auto simp: valid_elem_def split: if_splits list.splits)

lemma valid_name_no_trailing:
  assumes "list_all valid_elem (split_on CHR ''/'' n)"
  shows "TrimSuffix n ''/'' = n"
proof (rule ccontr)
  assume "TrimSuffix n ''/'' \<noteq> n"
  then have suf: "drop (length n - 1) n = ''/''"
    by (auto simp: TrimSuffix_def HasSuffix_def split: if_splits)
  then have "n = take (length n - 1) n @ CHR ''/'' # []"
    by (metis append_take_drop_id)
  then have "split_on CHR ''/'' n = split_on CHR ''/'' (take (length n - 1) n) @ [[]]"
    by (metis split_on.simps(1) split_on_append)
  with assms show False by (simp add: valid_elem_def)
qed

text \<open>
  \<open>path_base pfx\<close> is what every object name under the prefix starts with.
\<close>

definition path_base :: "string \<Rightarrow> string" where
  "path_base pfx =
     (if pfx = [] then []
      else let c = path_Clean pfx
           in if c = ''.'' then [] else if c = ''/'' then ''/'' else c @ ''/'')"

lemma path_Clean_valid:
  assumes "list_all valid_elem (split_on CHR ''/'' n)"
  shows "path_Clean n = n"
proof -
  have "clean_stack n = rev (split_on CHR ''/'' n)"
    by (simp add: clean_stack_def foldl_clean_valid [OF assms])
  then show ?thesis
    using valid_name_nonempty [OF assms] valid_name_not_rooted [OF assms]
    by (simp add: path_Clean_def)
qed

lemma clean_stack_append:
  assumes "list_all valid_elem (split_on CHR ''/'' n)" and "pfx \<noteq> []"
  shows "clean_stack (pfx @ CHR ''/'' # n) = rev (split_on CHR ''/'' n) @ clean_stack pfx"
  using assms by (simp add: clean_stack_def split_on_append foldl_clean_valid hd_append2)

definition real_elem :: "string \<Rightarrow> bool" where
  "real_elem e \<longleftrightarrow> e \<noteq> [] \<and> e \<noteq> ''.'' \<and> CHR ''/'' \<notin> set e"

lemma clean_elem_shape:
  "clean_elem r stk e = stk \<or> clean_elem r stk e = ''..'' # stk \<or> clean_elem r stk e = tl stk
   \<or> e \<noteq> [] \<and> e \<noteq> ''.'' \<and> clean_elem r stk e = e # stk"
  by (cases stk) simp_all

lemma clean_elem_real:
  assumes "\<forall>e \<in> set stk. real_elem e" and "CHR ''/'' \<notin> set x"
  shows "\<forall>e \<in> set (clean_elem r stk x). real_elem e"
proof -
  have "real_elem ''..''" by (simp add: real_elem_def)
  moreover have "set (tl stk) \<subseteq> set stk" by (cases stk) auto
  ultimately show ?thesis
    using clean_elem_shape [of r stk x] assms
    by (auto simp: real_elem_def simp del: clean_elem.simps)
qed

lemma foldl_clean_real:
  "\<forall>e \<in> set stk. real_elem e \<Longrightarrow> \<forall>x \<in> set es. CHR ''/'' \<notin> set x \<Longrightarrow>
   \<forall>e \<in> set (foldl (clean_elem r) stk es). real_elem e"
proof (induction es arbitrary: stk)
  case (Cons x es)
  have "\<forall>e \<in> set (clean_elem r stk x). real_elem e"
    by (rule clean_elem_real) (use Cons.prems in simp_all)
  from Cons.IH [OF this] Cons.prems show ?case by simp
qed simp

lemma clean_stack_elems:
  "\<forall>e \<in> set (clean_stack p). real_elem e"
  unfolding clean_stack_def
  by (rule foldl_clean_real) (auto dest: split_on_no_sep)

lemma join_with_no_elem:
  "es \<noteq> [] \<Longrightarrow> \<forall>e \<in> set es. e \<noteq> [] \<and> e \<noteq> ''.'' \<Longrightarrow> join_with c es \<noteq> [] \<and> join_with c es \<noteq> ''.''"
  by (induction c es rule: join_with.induct) (auto simp: append_eq_Cons_conv)

lemma join_with_hd:
  "es \<noteq> [] \<Longrightarrow> hd es \<noteq> [] \<Longrightarrow> hd (join_with c es) = hd (hd es)"
  by (induction c es rule: join_with.induct) auto

lemma path_base_eq:
  "pfx \<noteq> [] \<Longrightarrow> path_base pfx =
    (if hd pfx = CHR ''/''
     then CHR ''/'' # (if clean_stack pfx = [] then [] else join_with CHR ''/'' (rev (clean_stack pfx)) @ ''/'')
     else if clean_stack pfx = [] then [] else join_with CHR ''/'' (rev (clean_stack pfx)) @ ''/'')"
proof -
  assume p: "pfx \<noteq> []"
  have els: "\<forall>e \<in> set (rev (clean_stack pfx)). e \<noteq> [] \<and> e \<noteq> ''.'' \<and> CHR ''/'' \<notin> set e"
    using clean_stack_elems [of pfx] by (simp add: real_elem_def)
  show ?thesis
  proof (cases "clean_stack pfx = []")
    case True
    with p show ?thesis by (auto simp: path_base_def path_Clean_def)
  next
    case False
    then have ne: "rev (clean_stack pfx) \<noteq> []" by simp
    have j: "join_with CHR ''/'' (rev (clean_stack pfx)) \<noteq> []"
      "join_with CHR ''/'' (rev (clean_stack pfx)) \<noteq> ''.''"
      using join_with_no_elem [OF ne] els by blast+
    have "hd (rev (clean_stack pfx)) \<in> set (rev (clean_stack pfx))"
      using ne by (rule hd_in_set)
    then have "hd (rev (clean_stack pfx)) \<noteq> []" "CHR ''/'' \<notin> set (hd (rev (clean_stack pfx)))"
      using els by blast+
    then have "hd (join_with CHR ''/'' (rev (clean_stack pfx))) \<noteq> CHR ''/''"
      using ne by (simp add: join_with_hd) (metis hd_in_set)
    with j p False show ?thesis by (auto simp: path_base_def path_Clean_def Let_def)
  qed
qed

lemma path_Join_valid:
  assumes n: "list_all valid_elem (split_on CHR ''/'' n)"
  shows "path_Join [pfx, n] = path_base pfx @ n"
proof (cases "pfx = []")
  case True
  with n show ?thesis
    by (simp add: path_Join_def path_base_def path_Clean_valid valid_name_nonempty)
next
  case False
  have "path_Join [pfx, n] = path_Clean (pfx @ CHR ''/'' # n)"
    using False by (simp add: path_Join_def)
  moreover have "rev (clean_stack (pfx @ CHR ''/'' # n)) = rev (clean_stack pfx) @ split_on CHR ''/'' n"
    using n False by (simp add: clean_stack_append)
  moreover have "clean_stack (pfx @ CHR ''/'' # n) \<noteq> []"
    using n False by (simp add: clean_stack_append)
  ultimately show ?thesis
    using False by (cases "clean_stack pfx = []")
      (auto simp: path_Clean_def path_base_eq join_with_append)
qed

lemma path_Join_empty: "path_Join [pfx, []] = (if pfx = [] then [] else path_Clean pfx)"
proof (cases "pfx = []")
  case False
  have "clean_stack (pfx @ ''/'') = clean_stack pfx"
    using False split_on_append [of "CHR ''/''" pfx "[]"] by (simp add: clean_stack_def)
  with False show ?thesis by (simp add: path_Join_def path_Clean_def)
qed (simp add: path_Join_def)

lemma path_base_not_root:
  assumes "n \<noteq> []" and "n \<noteq> ''.''"
  shows "path_Join [pfx, []] \<noteq> path_base pfx @ n"
proof (cases "pfx = []")
  case True
  with assms show ?thesis by (simp add: path_Join_empty path_base_def)
next
  case False
  then show ?thesis
    using assms by (auto simp: path_Join_empty path_base_def Let_def)
qed

lemma validPath_elems:
  "validPath name \<Longrightarrow> name \<noteq> ''.'' \<Longrightarrow> list_all valid_elem (split_on CHR ''/'' name)"
  by (simp add: validPath_def fs_ValidPath_def)

text \<open>
  Containment: whatever the configured prefix is, the object name the filesystem builds
  for a valid request path is a fixed string determined by the prefix alone, followed by the
  request path unchanged. No request path escapes the prefix.
\<close>

lemma validPath_contained:
  assumes "validPath name" and "name \<noteq> ''.''"
  shows "path_Join [pfx, name] = path_base pfx @ name"
  by (rule path_Join_valid) (rule validPath_elems [OF assms])

lemma validPath_contained_witness:
  "validPath ''css/site.css'' \<and> path_Join [''/sites//prod/'', ''css/site.css''] = ''/sites/prod/css/site.css''"
proof -
  have v: "validPath ''css/site.css''"
    by (auto simp: validPath_def fs_ValidPath_def valid_elem_def intro!: ValidString_ascii)
  have "path_base ''/sites//prod/'' = ''/sites/prod/''"
    by (simp add: path_base_def path_Clean_def clean_stack_def)
  then show ?thesis using v validPath_contained [OF v, of "''/sites//prod/''"] by simp
qed

end
