(* ===== verification/Go_Errors.thy ===== *)
theory Go_Errors
  imports Prelude
begin

section \<open>Errors\<close>

text \<open>
  The error values the program tests for, with Go's \<^verbatim>\<open>errors.Is\<close> and \<^verbatim>\<open>errors.AsType\<close>. A
  sentinel (a package-level variable) is a nullary constructor; \<open>PathError\<close> is
  \<^verbatim>\<open>*fs.PathError\<close>; \<open>WrapError\<close> is any error that unwraps to others (\<^verbatim>\<open>fmt.Errorf\<close> with
  \<^verbatim>\<open>%w\<close>, as the storage client builds its own), in the order of its \<^verbatim>\<open>Unwrap\<close>;
  \<open>OtherError\<close> is any error outside these, told apart by its text.
\<close>

datatype gerror =
    EOF
  | ErrUnexpectedEOF
  | ErrInvalid
  | ErrNotExist
  | ErrInvalidWhence
  | ErrObjectNotExist
  | ErrBucketNotExist
  | IteratorDone
  | DeadlineExceeded
  | Canceled
  | PathError string string gerror
  | WrapError string "gerror list"
  | OtherError string

fun errors_Is :: "gerror \<Rightarrow> gerror \<Rightarrow> bool" where
  "errors_Is (PathError op p e) t \<longleftrightarrow> PathError op p e = t \<or> errors_Is e t"
| "errors_Is (WrapError m es) t \<longleftrightarrow> WrapError m es = t \<or> list_ex (\<lambda>e. errors_Is e t) es"
| "errors_Is e t \<longleftrightarrow> e = t"

text \<open>The first \<^verbatim>\<open>*fs.PathError\<close> in the error's tree, in pre-order.\<close>

fun errors_AsPathError :: "gerror \<Rightarrow> (string \<times> string \<times> gerror) option"
  and errors_AsPathErrors :: "gerror list \<Rightarrow> (string \<times> string \<times> gerror) option" where
  "errors_AsPathError (PathError op p e) = Some (op, p, e)"
| "errors_AsPathError (WrapError m es) = errors_AsPathErrors es"
| "errors_AsPathError _ = None"
| "errors_AsPathErrors [] = None"
| "errors_AsPathErrors (e # es) =
     (case errors_AsPathError e of Some x \<Rightarrow> Some x | None \<Rightarrow> errors_AsPathErrors es)"

lemma errors_Is_refl [simp]: "errors_Is e e"
  by (cases e) auto

text \<open>\<^verbatim>\<open>errors.Is\<close> with a \<^verbatim>\<open>nil\<close> error never matches a sentinel.\<close>

definition errors_Is_opt :: "gerror option \<Rightarrow> gerror \<Rightarrow> bool" where
  "errors_Is_opt err t = (case err of None \<Rightarrow> False | Some e \<Rightarrow> errors_Is e t)"

lemma errors_Is_opt_simps [simp]:
  "errors_Is_opt None t = False" "errors_Is_opt (Some e) t = errors_Is e t"
  by (simp_all add: errors_Is_opt_def)

abbreviation err_of :: "gerror + 'a \<Rightarrow> gerror option" where
  "err_of r \<equiv> (case r of Inl e \<Rightarrow> Some e | Inr _ \<Rightarrow> None)"

end
