(* ===== verification/Go_Context.thy ===== *)
theory Go_Context
  imports Prelude
begin

section \<open>Contexts\<close>

text \<open>Of a \<^verbatim>\<open>context.Context\<close> the model keeps the deadline, an instant in nanoseconds.\<close>

record gctx =
  ctx_deadline :: "int option"

definition context_WithTimeout :: "gctx \<Rightarrow> duration \<Rightarrow> int \<Rightarrow> gctx" where
  "context_WithTimeout ctx timeout now =
     ctx\<lparr>ctx_deadline := Some (case ctx_deadline ctx of
                                 None \<Rightarrow> now + timeout
                               | Some d \<Rightarrow> min d (now + timeout))\<rparr>"

text \<open>A timeout never extends the deadline it is put under.\<close>

lemma context_WithTimeout_deadline:
  "\<exists>d. ctx_deadline (context_WithTimeout ctx t now) = Some d \<and> d \<le> now + t \<and>
     (\<forall>d0. ctx_deadline ctx = Some d0 \<longrightarrow> d \<le> d0)"
  by (auto simp: context_WithTimeout_def split: option.splits)

end
