(* ===== verification/Gcs_Fs.thy ===== *)
theory Gcs_Fs
  imports Attr_Cache Go_Path Go_Errors Go_Context
begin

section \<open>The filesystem: opening, describing and caching objects\<close>

text \<open>
  Model of the filesystem half of \<^verbatim>\<open>pkg/gcs/fs/gcsfs.go\<close>: the \<open>gcsFS\<close> value, \<open>Open\<close>,
  \<open>Stat\<close>, \<open>Sub\<close>, \<open>WithContext\<close>, the recording callbacks, the error translation and
  the file information. Reading and seeking are in theory \<open>Gcs_File\<close>.

  The storage client is a parameter: a record \<open>gcs_api\<close> of its calls over a world of
  arbitrary type \<^typ>\<open>'w\<close>, in which anything a call, a callback or another process does is a
  change of the world. A callback of the filesystem is an optional transformer of the world
  (\<^const>\<open>None\<close> is \<^verbatim>\<open>nil\<close>). The attribute cache is shared by every copy of a filesystem
  (\<open>Sub\<close>, \<open>WithContext\<close>), so it is not a field of \<open>gcsFS\<close> but a cell of the state
  that the operations pass on; an empty cell is a \<^verbatim>\<open>nil\<close> cache.
\<close>

subsection \<open>The storage client\<close>

record query =
  q_Delimiter :: string
  q_Prefix :: string

record ('w, 'r, 'it) gcs_api =
  api_NewRangeReader :: "string \<Rightarrow> gctx \<Rightarrow> int \<Rightarrow> int \<Rightarrow> 'w \<Rightarrow> (gerror + 'r) \<times> 'w"
  api_Read :: "'r \<Rightarrow> nat \<Rightarrow> 'w \<Rightarrow> (byte list \<times> gerror option \<times> 'r) \<times> 'w"
  api_Close :: "'r \<Rightarrow> 'w \<Rightarrow> gerror option \<times> 'w"
  api_Attrs :: "string \<Rightarrow> gctx \<Rightarrow> 'w \<Rightarrow> (gerror + ObjectAttrs) \<times> 'w"
  api_Objects :: "gctx \<Rightarrow> query \<Rightarrow> 'it"
  api_Next :: "'it \<Rightarrow> 'w \<Rightarrow> (gerror + ObjectAttrs) \<times> 'it \<times> 'w"
  api_Now :: "'w \<Rightarrow> int"
  api_ErrorText :: "gerror \<Rightarrow> string"

subsection \<open>The filesystem value and its state\<close>

record 'w gcsFS =
  fs_ctx :: gctx
  fs_bucketName :: string
  fs_prefix :: string
  fs_opTimeout :: duration
  fs_onEvent :: "(string \<Rightarrow> (string, string) gomap \<Rightarrow> 'w \<Rightarrow> 'w) option"
  fs_onCacheHit :: "('w \<Rightarrow> 'w) option"
  fs_onCacheMiss :: "('w \<Rightarrow> 'w) option"
  fs_onGCSOp :: "(string \<Rightarrow> duration \<Rightarrow> gerror option \<Rightarrow> 'w \<Rightarrow> 'w) option"
  fs_onStreamBytes :: "(int \<Rightarrow> 'w \<Rightarrow> 'w) option"

record 'w fs_state =
  st_cache :: "attrCache option"
  st_world :: 'w

text \<open>
  The clock loads and random draws one call makes: \<open>e_clk i\<close> is the \<open>i\<close>-th load slot,
  \<open>e_rnd i\<close> the draws of the \<open>i\<close>-th eviction.
\<close>

record env =
  e_clk :: "nat \<Rightarrow> int"
  e_rnd :: "nat \<Rightarrow> nat \<Rightarrow> nat"

record ('r, 'it) gcsFile =
  name :: string
  fullPath :: string
  reader :: "'r option"
  pos :: int
  fsize :: int
  sizeKnown :: bool
  sniffBuf :: "byte list option"
  sniffLen :: nat
  sniffPos :: nat
  diter :: "'it option"

definition newGCSFS :: "gctx \<Rightarrow> string \<Rightarrow> 'w gcsFS" where
  "newGCSFS ctx bucket =
     \<lparr>fs_ctx = ctx, fs_bucketName = bucket, fs_prefix = [], fs_opTimeout = 0, fs_onEvent = None,
      fs_onCacheHit = None, fs_onCacheMiss = None, fs_onGCSOp = None, fs_onStreamBytes = None\<rparr>"

definition WithContext :: "'w gcsFS \<Rightarrow> gctx \<Rightarrow> 'w gcsFS" where
  "WithContext fsys ctx = fsys\<lparr>fs_ctx := ctx\<rparr>"

abbreviation defaultOpTimeout :: duration where
  "defaultOpTimeout \<equiv> 60 * Second"

definition opCtx :: "'w gcsFS \<Rightarrow> int \<Rightarrow> gctx" where
  "opCtx fsys now =
     (let timeout = (if fs_opTimeout fsys = 0 then defaultOpTimeout else fs_opTimeout fsys)
      in context_WithTimeout (fs_ctx fsys) timeout now)"

definition object_path :: "'w gcsFS \<Rightarrow> string \<Rightarrow> string" where
  "object_path fsys nm = path_Join [fs_prefix fsys, nm]"

definition fs_Open :: "'w gcsFS \<Rightarrow> string \<Rightarrow> gerror + ('r, 'it) gcsFile" where
  "fs_Open fsys nm =
     (if \<not> validPath nm then Inl (PathError ''open'' nm ErrInvalid)
      else let n1 = (if nm = ''.'' then [] else nm) in
        Inr \<lparr>name = TrimSuffix n1 ''/'',
             fullPath = path_Join [fs_prefix fsys, TrimSuffix n1 ''/''],
             reader = None, pos = 0, fsize = 0, sizeKnown = False,
             sniffBuf = None, sniffLen = 0, sniffPos = 0, diter = None\<rparr>)"

definition fs_Sub :: "'w gcsFS \<Rightarrow> string \<Rightarrow> 'w gcsFS" where
  "fs_Sub fsys dir = fsys\<lparr>fs_prefix := path_Join [fs_prefix fsys, dir]\<rparr>"

subsection \<open>Events and metrics\<close>

definition emitEvent :: "'w gcsFS \<Rightarrow> string \<Rightarrow> (string, string) gomap \<Rightarrow> 'w \<Rightarrow> 'w" where
  "emitEvent fsys nm data w = (case fs_onEvent fsys of None \<Rightarrow> w | Some cb \<Rightarrow> cb nm data w)"

definition recordCacheHit :: "'w gcsFS \<Rightarrow> 'w \<Rightarrow> 'w" where
  "recordCacheHit fsys w = (case fs_onCacheHit fsys of None \<Rightarrow> w | Some cb \<Rightarrow> cb w)"

definition recordCacheMiss :: "'w gcsFS \<Rightarrow> 'w \<Rightarrow> 'w" where
  "recordCacheMiss fsys w = (case fs_onCacheMiss fsys of None \<Rightarrow> w | Some cb \<Rightarrow> cb w)"

definition recordGCSOp ::
  "('w, 'r, 'it) gcs_api \<Rightarrow> 'w gcsFS \<Rightarrow> string \<Rightarrow> int \<Rightarrow> gerror option \<Rightarrow> 'w \<Rightarrow> 'w" where
  "recordGCSOp api fsys op start err w =
     (case fs_onGCSOp fsys of None \<Rightarrow> w | Some cb \<Rightarrow> cb op (api_Now api w - start) err w)"

definition recordStreamBytes :: "'w gcsFS \<Rightarrow> int \<Rightarrow> 'w \<Rightarrow> 'w" where
  "recordStreamBytes fsys n w =
     (case fs_onStreamBytes fsys of None \<Rightarrow> w | Some cb \<Rightarrow> if n > 0 then cb n w else w)"

subsection \<open>Error translation\<close>

text \<open>
  \<open>i\<close> numbers the cache store among those of the current call. The result is \<^const>\<open>None\<close>
  only if the cache panics.
\<close>

definition cacheNotFound :: "env \<Rightarrow> nat \<Rightarrow> ('r, 'it) gcsFile \<Rightarrow> 'w fs_state \<Rightarrow> 'w fs_state option" where
  "cacheNotFound en i f st =
     (case st_cache st of
        None \<Rightarrow> Some st
      | Some c \<Rightarrow> map_option (\<lambda>c'. st\<lparr>st_cache := Some c'\<rparr>)
                   (setNotFound (e_clk en (2 * i)) (e_clk en (2 * i + 1)) (e_rnd en i) (fullPath f) c))"

definition translateError ::
  "('w, 'r, 'it) gcs_api \<Rightarrow> 'w gcsFS \<Rightarrow> env \<Rightarrow> nat \<Rightarrow> string \<Rightarrow> gerror option \<Rightarrow> ('r, 'it) gcsFile
     \<Rightarrow> 'w fs_state \<Rightarrow> (gerror option \<times> 'w fs_state) option" where
  "translateError api fsys en i op err f st =
     (case err of
        None \<Rightarrow> Some (None, st)
      | Some e \<Rightarrow>
          (if errors_Is e EOF then Some (Some e, st)
           else if errors_Is e ErrBucketNotExist \<or> errors_Is e ErrObjectNotExist then
             (case cacheNotFound en i f st of
                None \<Rightarrow> None
              | Some st1 \<Rightarrow>
                  Some (Some (PathError op (name f) ErrNotExist),
                    st1\<lparr>st_world := emitEvent fsys ''gcs.object_not_found''
                          [(''bucket'', fs_bucketName fsys), (''object'', fullPath f), (''op'', op)]
                          (st_world st1)\<rparr>))
           else
             (case errors_AsPathError e of
                Some (_, _, inner) \<Rightarrow> Some (Some (PathError op (name f) inner), st)
              | None \<Rightarrow>
                  Some (Some (PathError op (name f) e),
                    st\<lparr>st_world := emitEvent fsys ''gcs.backend_error''
                         [(''bucket'', fs_bucketName fsys), (''object'', fullPath f), (''op'', op),
                          (''error'', api_ErrorText api e)]
                         (st_world st)\<rparr>))))"

subsection \<open>File information\<close>

record gcsFileInfo =
  fi_attrs :: ObjectAttrs

text \<open>The bit patterns of \<^verbatim>\<open>fs.ModeDir\<close> and \<^verbatim>\<open>fs.ModeType\<close>.\<close>

abbreviation ModeDir :: "32 word" where
  "ModeDir \<equiv> 0x80000000"

abbreviation ModeType :: "32 word" where
  "ModeType \<equiv> 0x8F280000"

definition fi_IsDir :: "gcsFileInfo \<Rightarrow> bool" where
  "fi_IsDir fi = (oa_Prefix (fi_attrs fi) \<noteq> [])"

definition fi_Name :: "gcsFileInfo \<Rightarrow> string" where
  "fi_Name fi =
     (if oa_Prefix (fi_attrs fi) \<noteq> [] then path_Base (oa_Prefix (fi_attrs fi))
      else path_Base (oa_Name (fi_attrs fi)))"

definition fi_Size :: "gcsFileInfo \<Rightarrow> int" where
  "fi_Size fi = oa_Size (fi_attrs fi)"

definition fi_Mode :: "gcsFileInfo \<Rightarrow> 32 word" where
  "fi_Mode fi = (if fi_IsDir fi then Bit_Operations.or ModeDir 0x16D else 0x124)"

definition fi_ModTime :: "gcsFileInfo \<Rightarrow> int" where
  "fi_ModTime fi = oa_Updated (fi_attrs fi)"

definition fi_Type :: "gcsFileInfo \<Rightarrow> 32 word" where
  "fi_Type fi = Bit_Operations.and (fi_Mode fi) ModeType"

definition dir_attrs :: "string \<Rightarrow> ObjectAttrs" where
  "dir_attrs pfx = \<lparr>oa_Name = [], oa_Prefix = pfx, oa_Size = 0, oa_Updated = 0\<rparr>"

subsection \<open>Stat\<close>

text \<open>The attributes behind a cached pointer; the sentinel has its own name.\<close>

definition sentinelNotFound :: ObjectAttrs where
  "sentinelNotFound =
     \<lparr>oa_Name = CHR 0x00 # ''notfound'', oa_Prefix = [], oa_Size = 0, oa_Updated = 0\<rparr>"

definition deref :: "attrs_ptr \<Rightarrow> ObjectAttrs" where
  "deref a = (case a of SentinelNotFound \<Rightarrow> sentinelNotFound | Attrs oa \<Rightarrow> oa)"

text \<open>\<^verbatim>\<open>if f.fs.cache != nil { f.fs.cache.set(cacheKey, attrs) }\<close>\<close>

definition cacheAttrs :: "env \<Rightarrow> nat \<Rightarrow> string \<Rightarrow> ObjectAttrs \<Rightarrow> 'w fs_state \<Rightarrow> 'w fs_state option" where
  "cacheAttrs en i key oa st =
     (case st_cache st of
        None \<Rightarrow> Some st
      | Some c \<Rightarrow> map_option (\<lambda>c'. st\<lparr>st_cache := Some c'\<rparr>)
                   (cache_set (e_clk en (2 * i)) (e_clk en (2 * i + 1)) (e_rnd en i) key (Attrs oa) c))"

text \<open>A failed \<^verbatim>\<open>Stat\<close> returns the translated error and no information.\<close>

definition stat_fail ::
  "('w, 'r, 'it) gcs_api \<Rightarrow> 'w gcsFS \<Rightarrow> env \<Rightarrow> nat \<Rightarrow> gerror \<Rightarrow> ('r, 'it) gcsFile \<Rightarrow> 'w fs_state
     \<Rightarrow> ((gerror option + gcsFileInfo) \<times> 'w fs_state) option" where
  "stat_fail api fsys en i e f st =
     map_option (\<lambda>(err, st'). (Inl err, st')) (translateError api fsys en i ''stat'' (Some e) f st)"

definition stat_found ::
  "env \<Rightarrow> nat \<Rightarrow> string \<Rightarrow> ObjectAttrs \<Rightarrow> 'w fs_state \<Rightarrow> ((gerror option + gcsFileInfo) \<times> 'w fs_state) option" where
  "stat_found en i key oa st =
     map_option (\<lambda>st'. (Inr \<lparr>fi_attrs = oa\<rparr>, st')) (cacheAttrs en i key oa st)"

definition dir_query :: "'w gcsFS \<Rightarrow> string \<Rightarrow> query" where
  "dir_query fsys nm =
     (let p = path_Join [fs_prefix fsys, nm]
      in \<lparr>q_Delimiter = ''/'', q_Prefix = (if p \<noteq> [] then p @ ''/'' else p)\<rparr>)"

text \<open>The directory probe: lines after the object was found missing.\<close>

definition stat_probe ::
  "('w, 'r, 'it) gcs_api \<Rightarrow> 'w gcsFS \<Rightarrow> env \<Rightarrow> ('r, 'it) gcsFile \<Rightarrow> 'w fs_state
     \<Rightarrow> ((gerror option + gcsFileInfo) \<times> 'w fs_state) option" where
  "stat_probe api fsys en f st =
     (let it = api_Objects api (opCtx fsys (api_Now api (st_world st))) (dir_query fsys (name f));
          probeStart = api_Now api (st_world st)
      in case api_Next api it (st_world st) of
           (res, _, w1) \<Rightarrow>
             (let st1 = st\<lparr>st_world := recordGCSOp api fsys ''list'' probeStart (err_of res) w1\<rparr> in
                (case res of
                   Inr _ \<Rightarrow> stat_found en 1 (fullPath f) (dir_attrs (name f @ ''/'')) st1
                 | Inl iterErr \<Rightarrow>
                     (case (if errors_Is iterErr IteratorDone then cacheNotFound en 1 f st1 else Some st1) of
                        None \<Rightarrow> None
                      | Some st2 \<Rightarrow> stat_fail api fsys en 2 ErrObjectNotExist f st2))))"

definition stat_uncached ::
  "('w, 'r, 'it) gcs_api \<Rightarrow> 'w gcsFS \<Rightarrow> env \<Rightarrow> ('r, 'it) gcsFile \<Rightarrow> 'w fs_state
     \<Rightarrow> ((gerror option + gcsFileInfo) \<times> 'w fs_state) option" where
  "stat_uncached api fsys en f st =
     (if name f = [] then stat_found en 1 (fullPath f) (dir_attrs ''/'') st
      else let attrsStart = api_Now api (st_world st) in
        (case api_Attrs api (object_path fsys (name f)) (opCtx fsys (api_Now api (st_world st))) (st_world st) of
           (res, w1) \<Rightarrow>
             (let st1 = st\<lparr>st_world := recordGCSOp api fsys ''attrs'' attrsStart (err_of res) w1\<rparr> in
                (case res of
                   Inr oa \<Rightarrow> stat_found en 1 (fullPath f) oa st1
                 | Inl e \<Rightarrow>
                     (if \<not> errors_Is e ErrObjectNotExist then stat_fail api fsys en 1 e f st1
                      else if path_Ext (name f) \<noteq> [] then stat_fail api fsys en 1 ErrObjectNotExist f st1
                      else stat_probe api fsys en f st1)))))"

definition gcsFile_Stat ::
  "('w, 'r, 'it) gcs_api \<Rightarrow> 'w gcsFS \<Rightarrow> env \<Rightarrow> ('r, 'it) gcsFile \<Rightarrow> 'w fs_state
     \<Rightarrow> ((gerror option + gcsFileInfo) \<times> 'w fs_state) option" where
  "gcsFile_Stat api fsys en f st =
     (case st_cache st of
        None \<Rightarrow> stat_uncached api fsys en f st
      | Some c \<Rightarrow>
          (case cache_get (e_clk en 0) (e_clk en 1) (fullPath f) c of
             None \<Rightarrow> None
           | Some (Some a, c') \<Rightarrow>
               (let st1 = st\<lparr>st_cache := Some c', st_world := recordCacheHit fsys (st_world st)\<rparr> in
                if isNegative a then stat_fail api fsys en 1 ErrObjectNotExist f st1
                else Some (Inr \<lparr>fi_attrs = deref a\<rparr>, st1))
           | Some (None, c') \<Rightarrow>
               stat_uncached api fsys en f
                 (st\<lparr>st_cache := Some c', st_world := recordCacheMiss fsys (st_world st)\<rparr>)))"

text \<open>\<^verbatim>\<open>gcsFS.Stat\<close>: the deferred \<^verbatim>\<open>Close\<close> finds no reader and does nothing.\<close>

definition fs_Stat ::
  "('w, 'r, 'it) gcs_api \<Rightarrow> 'w gcsFS \<Rightarrow> env \<Rightarrow> string \<Rightarrow> 'w fs_state
     \<Rightarrow> ((gerror option + gcsFileInfo) \<times> 'w fs_state) option" where
  "fs_Stat api fsys en nm st =
     (case (fs_Open fsys nm :: gerror + ('r, 'it) gcsFile) of
        Inl e \<Rightarrow> Some (Inl (Some e), st)
      | Inr f \<Rightarrow> gcsFile_Stat api fsys en f st)"

subsection \<open>Opening\<close>

lemma TrimSuffix_Nil [simp]: "TrimSuffix [] suf = []"
  by (simp add: TrimSuffix_def)

text \<open>The file a successful \<open>Open\<close> returns, in terms of the requested name.\<close>

lemma fs_Open_cases:
  assumes "fs_Open fsys nm = Inr f"
  obtains (root) "nm = ''.''" "name f = []" "fullPath f = path_Join [fs_prefix fsys, []]"
  | (object) "nm \<noteq> ''.''" "nm \<noteq> []" "name f = nm" "fullPath f = path_base (fs_prefix fsys) @ nm"
proof (cases "nm = ''.''")
  case True
  with assms root show ?thesis by (auto simp: fs_Open_def split: if_splits)
next
  case False
  from assms have v: "validPath nm" by (auto simp: fs_Open_def split: if_splits)
  then have el: "list_all valid_elem (split_on CHR ''/'' nm)" using False by (rule validPath_elems)
  then have "name f = nm" "fullPath f = path_base (fs_prefix fsys) @ nm" "nm \<noteq> []"
    using assms False v
    by (auto simp: fs_Open_def Let_def valid_name_no_trailing path_Join_valid valid_name_nonempty)
  with False object show ?thesis by blast
qed

lemma fs_Open_object:
  assumes "validPath nm" and "nm \<noteq> ''.''"
  shows "\<exists>f :: ('r, 'it) gcsFile. fs_Open fsys nm = Inr f \<and> name f = nm \<and> fullPath f = path_base (fs_prefix fsys) @ nm"
proof -
  obtain h :: "('r, 'it) gcsFile" where h: "fs_Open fsys nm = Inr h" using assms(1) by (auto simp: fs_Open_def Let_def)
  then show ?thesis by (cases rule: fs_Open_cases) (use assms(2) h in auto)
qed

lemma fs_Open_inj:
  assumes f: "fs_Open fsys a = Inr f" and g: "fs_Open fsys b = Inr g" and eq: "fullPath f = fullPath g"
  shows "a = b"
  using f
proof (cases rule: fs_Open_cases)
  case root
  from g show ?thesis
  proof (cases rule: fs_Open_cases)
    case object
    with root eq path_base_not_root [of b "fs_prefix fsys"] show ?thesis by simp
  qed (use root in simp)
next
  case object
  note oa = this
  from g show ?thesis
  proof (cases rule: fs_Open_cases)
    case root
    with oa eq path_base_not_root [of a "fs_prefix fsys"] show ?thesis by simp
  next
    case object
    with oa eq show ?thesis by simp
  qed
qed

subsection \<open>Totality and the cache invariant\<close>

definition st_inv :: "'w fs_state \<Rightarrow> bool" where
  "st_inv st \<longleftrightarrow> (\<forall>c. st_cache st = Some c \<longrightarrow> cache_inv c)"

lemma st_inv_world [simp]: "st_inv (st\<lparr>st_world := w\<rparr>) = st_inv st"
  by (simp add: st_inv_def)

text \<open>
  \<open>store_ok k v st st'\<close>: storing \<open>v\<close> under \<open>k\<close> succeeded, if there is a cache at all.
\<close>

definition store_ok :: "string \<Rightarrow> attrs_ptr \<Rightarrow> 'w fs_state \<Rightarrow> 'w fs_state \<Rightarrow> bool" where
  "store_ok k v st st' \<longleftrightarrow> st_world st' = st_world st \<and>
     (case st_cache st of
        None \<Rightarrow> st_cache st' = None
      | Some c \<Rightarrow> (\<exists>c' n1 n2 rnd. st_cache st' = Some c' \<and> cache_put n1 n2 rnd k v c = Some c'))"

lemma cacheNotFound_ok:
  assumes "st_inv st"
  shows "\<exists>st'. cacheNotFound en i f st = Some st' \<and> store_ok (fullPath f) SentinelNotFound st st'"
proof (cases "st_cache st")
  case (Some c)
  with assms have "cache_inv c" by (simp add: st_inv_def)
  then obtain c' where "cache_put (e_clk en (2 * i)) (e_clk en (2 * i + 1)) (e_rnd en i) (fullPath f)
      SentinelNotFound c = Some c'"
    using attr_cache.put_total by blast
  with Some show ?thesis by (auto simp: cacheNotFound_def store_ok_def setNotFound_put)
qed (simp add: cacheNotFound_def store_ok_def)

lemma cacheAttrs_ok:
  assumes "st_inv st"
  shows "\<exists>st'. cacheAttrs en i k oa st = Some st' \<and> store_ok k (Attrs oa) st st'"
proof (cases "st_cache st")
  case (Some c)
  with assms have "cache_inv c" by (simp add: st_inv_def)
  then obtain c' where "cache_put (e_clk en (2 * i)) (e_clk en (2 * i + 1)) (e_rnd en i) k
      (Attrs oa) c = Some c'"
    using attr_cache.put_total by blast
  with Some show ?thesis by (auto simp: cacheAttrs_def store_ok_def cache_set_put)
qed (simp add: cacheAttrs_def store_ok_def)

lemma store_ok_inv: "st_inv st \<Longrightarrow> store_ok k v st st' \<Longrightarrow> st_inv st'"
  by (auto simp: st_inv_def store_ok_def intro: attr_cache.put_inv split: option.splits)

subsection \<open>What Stat answers when the bucket does not change\<close>

text \<open>
  \<open>stable_backend api A L\<close>: every attribute call for an object path answers \<open>A\<close>, and the
  first entry of every listing is given by \<open>L\<close>. This is the storage client on a bucket that
  nobody writes to and whose errors persist.
\<close>

definition stable_backend ::
  "('w, 'r, 'it) gcs_api \<Rightarrow> (string \<Rightarrow> gerror + ObjectAttrs) \<Rightarrow> (query \<Rightarrow> gerror + ObjectAttrs) \<Rightarrow> bool" where
  "stable_backend api A L \<longleftrightarrow>
     (\<forall>p ctx w. fst (api_Attrs api p ctx w) = A p) \<and>
     (\<forall>q ctx w. fst (api_Next api (api_Objects api ctx q) w) = L q)"

text \<open>The error \<open>translateError\<close> returns, without its effects.\<close>

definition translated :: "string \<Rightarrow> string \<Rightarrow> gerror \<Rightarrow> gerror" where
  "translated op nm e =
     (if errors_Is e EOF then e
      else if errors_Is e ErrBucketNotExist \<or> errors_Is e ErrObjectNotExist
      then PathError op nm ErrNotExist
      else (case errors_AsPathError e of
              Some (_, _, inner) \<Rightarrow> PathError op nm inner
            | None \<Rightarrow> PathError op nm e))"

subsection \<open>Totality for any client\<close>

text \<open>Whatever the client answers, neither the translation nor \<open>Stat\<close> panics.\<close>

lemma translateError_total:
  assumes "st_inv st"
  shows "\<exists>st'. translateError api fsys en i op (Some e) f st = Some (Some (translated op (name f) e), st') \<and> st_inv st'"
proof -
  obtain st1 where "cacheNotFound en i f st = Some st1" "store_ok (fullPath f) SentinelNotFound st st1"
    using cacheNotFound_ok [OF assms] by blast
  then show ?thesis
    using store_ok_inv [OF assms] assms by (auto simp: translateError_def translated_def split: option.splits)
qed

lemma stat_fail_total:
  "st_inv st \<Longrightarrow> \<exists>st'. stat_fail api fsys en i e f st = Some (Inl (Some (translated ''stat'' (name f) e)), st') \<and> st_inv st'"
  using translateError_total [of st api fsys en i "''stat''" e f] by (auto simp: stat_fail_def)

lemma stat_found_total:
  "st_inv st \<Longrightarrow> \<exists>st'. stat_found en i k oa st = Some (Inr \<lparr>fi_attrs = oa\<rparr>, st') \<and> st_inv st'"
  using cacheAttrs_ok [of st en i k oa] store_ok_inv [of st k "Attrs oa"] by (auto simp: stat_found_def)

definition stat_returns :: "((gerror option + gcsFileInfo) \<times> 'w fs_state) option \<Rightarrow> bool" where
  "stat_returns out \<longleftrightarrow> (\<exists>r st'. out = Some (r, st') \<and> st_inv st' \<and> r \<noteq> Inl None)"

lemma stat_fail_returns: "st_inv st \<Longrightarrow> stat_returns (stat_fail api fsys en i e f st)"
  using stat_fail_total [of st api fsys en i e f] by (auto simp: stat_returns_def)

lemma stat_found_returns: "st_inv st \<Longrightarrow> stat_returns (stat_found en i k oa st)"
  using stat_found_total [of st en i k oa] by (auto simp: stat_returns_def)

lemma stat_probe_returns:
  assumes "st_inv st"
  shows "stat_returns (stat_probe api fsys en f st)"
proof -
  let ?it = "api_Objects api (opCtx fsys (api_Now api (st_world st))) (dir_query fsys (name f))"
  obtain res it' w1 where n: "api_Next api ?it (st_world st) = (res, it', w1)" by (metis prod.exhaust)
  show ?thesis
  proof (cases res)
    case (Inr oa)
    with n assms show ?thesis by (simp add: stat_probe_def stat_found_returns)
  next
    case (Inl e)
    let ?st1 = "st\<lparr>st_world := recordGCSOp api fsys ''list'' (api_Now api (st_world st)) (Some e) w1\<rparr>"
    have i: "st_inv ?st1" using assms by simp
    obtain st2 where st2: "(if errors_Is e IteratorDone then cacheNotFound en 1 f ?st1 else Some ?st1) = Some st2"
      "st_inv st2"
      using cacheNotFound_ok [OF i, of en 1 f] store_ok_inv [OF i] i by metis
    have "stat_probe api fsys en f st = stat_fail api fsys en 2 ErrObjectNotExist f st2"
      using n Inl st2(1) by (auto simp: stat_probe_def Let_def split: if_splits)
    then show ?thesis by (simp only: stat_fail_returns [OF st2(2)])
  qed
qed

lemma stat_uncached_returns: "st_inv st \<Longrightarrow> stat_returns (stat_uncached api fsys en f st)"
  by (auto simp: stat_uncached_def Let_def stat_fail_returns stat_found_returns stat_probe_returns
      split: prod.split sum.split)

lemma gcsFile_Stat_returns:
  assumes "st_inv st"
  shows "stat_returns (gcsFile_Stat api fsys en f st)"
proof (cases "st_cache st")
  case None
  with assms show ?thesis by (simp add: gcsFile_Stat_def stat_uncached_returns)
next
  case (Some c)
  with assms have "cache_inv c" by (simp add: st_inv_def)
  then obtain r c1 where g: "cache_get (e_clk en 0) (e_clk en 1) (fullPath f) c = Some (r, c1)" "cache_inv c1"
    using attr_cache.get_total by blast
  have i: "st_inv (st\<lparr>st_cache := Some c1, st_world := w\<rparr>)" for w using g(2) by (simp add: st_inv_def)
  show ?thesis
  proof (cases r)
    case None
    with Some g(1) i show ?thesis by (simp add: gcsFile_Stat_def stat_uncached_returns)
  next
    case (Some a)
    have "stat_returns (Some (Inr \<lparr>fi_attrs = deref a\<rparr>, st\<lparr>st_cache := Some c1, st_world := w\<rparr>))" for w
      using i by (auto simp: stat_returns_def)
    with Some \<open>st_cache st = Some c\<close> g(1) i show ?thesis
      by (simp add: gcsFile_Stat_def stat_fail_returns Let_def)
  qed
qed

text \<open>The answer of \<open>Stat\<close> as a function of the bucket, with no cache in sight.\<close>

definition stat_spec ::
  "(string \<Rightarrow> gerror + ObjectAttrs) \<Rightarrow> (query \<Rightarrow> gerror + ObjectAttrs) \<Rightarrow> 'w gcsFS \<Rightarrow> string \<Rightarrow> gerror + ObjectAttrs" where
  "stat_spec A L fsys nm =
     (if nm = [] then Inr (dir_attrs ''/'')
      else case A (object_path fsys nm) of
        Inr oa \<Rightarrow> Inr oa
      | Inl e \<Rightarrow>
          (if \<not> errors_Is e ErrObjectNotExist then Inl (translated ''stat'' nm e)
           else if path_Ext nm \<noteq> [] then Inl (PathError ''stat'' nm ErrNotExist)
           else case L (dir_query fsys nm) of
             Inr _ \<Rightarrow> Inr (dir_attrs (nm @ ''/''))
           | Inl _ \<Rightarrow> Inl (PathError ''stat'' nm ErrNotExist)))"

text \<open>A cached pointer tells the truth about a name.\<close>

definition agrees :: "string \<Rightarrow> gerror + ObjectAttrs \<Rightarrow> attrs_ptr \<Rightarrow> bool" where
  "agrees nm r a =
     (case a of SentinelNotFound \<Rightarrow> r = Inl (PathError ''stat'' nm ErrNotExist)
              | Attrs oa \<Rightarrow> r = Inr oa)"

definition key_agrees ::
  "(string \<Rightarrow> gerror + ObjectAttrs) \<Rightarrow> (query \<Rightarrow> gerror + ObjectAttrs) \<Rightarrow> 'w gcsFS \<Rightarrow> string \<Rightarrow> attrs_ptr \<Rightarrow> bool" where
  "key_agrees A L fsys k a \<longleftrightarrow>
     (\<forall>nm (f :: (unit, unit) gcsFile). fs_Open fsys nm = Inr f \<and> fullPath f = k \<longrightarrow>
        agrees (name f) (stat_spec A L fsys (name f)) a)"

text \<open>
  The cache tells the truth about the bucket as it is, except possibly for positive entries that
  are good for at most \<open>E\<close> (none if \<open>E\<close> is absent): what is left of an earlier state of the bucket.
\<close>

definition stale :: "int option \<Rightarrow> attrs_ptr \<Rightarrow> int \<Rightarrow> bool" where
  "stale E a t \<longleftrightarrow> (\<exists>b. E = Some b \<and> t \<le> b \<and> \<not> isNegative a)"

definition cache_fresh ::
  "(string \<Rightarrow> gerror + ObjectAttrs) \<Rightarrow> (query \<Rightarrow> gerror + ObjectAttrs) \<Rightarrow> 'w gcsFS \<Rightarrow> int option \<Rightarrow> 'w fs_state \<Rightarrow> bool" where
  "cache_fresh A L fsys E st \<longleftrightarrow>
     st_inv st \<and> (\<forall>c. st_cache st = Some c \<longrightarrow> all_entries cache_peek (\<lambda>k a t. key_agrees A L fsys k a \<or> stale E a t) c)"

abbreviation cache_agrees ::
  "(string \<Rightarrow> gerror + ObjectAttrs) \<Rightarrow> (query \<Rightarrow> gerror + ObjectAttrs) \<Rightarrow> 'w gcsFS \<Rightarrow> 'w fs_state \<Rightarrow> bool" where
  "cache_agrees A L fsys st \<equiv> cache_fresh A L fsys None st"

lemma cache_fresh_world [simp]: "cache_fresh A L fsys E (st\<lparr>st_world := w\<rparr>) = cache_fresh A L fsys E st"
  by (simp add: cache_fresh_def)

definition path_only :: "('r, 'it) gcsFile \<Rightarrow> (unit, unit) gcsFile" where
  "path_only f = \<lparr>name = name f, fullPath = fullPath f, reader = None, pos = 0, fsize = 0,
     sizeKnown = False, sniffBuf = None, sniffLen = 0, sniffPos = 0, diter = None\<rparr>"

lemma fs_Open_path_only: "fs_Open fsys nm = Inr f \<Longrightarrow> fs_Open fsys nm = Inr (path_only f)"
  by (auto simp: fs_Open_def path_only_def Let_def split: if_splits)

lemma key_agreesI:
  assumes "fs_Open fsys nm = Inr f" and "agrees (name f) (stat_spec A L fsys (name f)) a"
  shows "key_agrees A L fsys (fullPath f) a"
  unfolding key_agrees_def
proof (intro allI impI)
  fix nm' and g :: "(unit, unit) gcsFile"
  assume g: "fs_Open fsys nm' = Inr g \<and> fullPath g = fullPath f"
  then have "fullPath (path_only f) = fullPath g" by (simp add: path_only_def)
  with fs_Open_inj [OF fs_Open_path_only [OF assms(1)]] g have "nm = nm'" by blast
  with g fs_Open_path_only [OF assms(1)] have "name g = name f" by (auto simp: path_only_def)
  with assms(2) show "agrees (name g) (stat_spec A L fsys (name g)) a" by simp
qed

lemma key_agreesD:
  "key_agrees A L fsys (fullPath f) a \<Longrightarrow> fs_Open fsys nm = Inr f \<Longrightarrow>
   agrees (name f) (stat_spec A L fsys (name f)) a"
  using fs_Open_path_only [of fsys nm f] by (fastforce simp: key_agrees_def path_only_def)

lemma store_agrees:
  assumes "cache_fresh A L fsys E st" and "store_ok k v st st'" and "key_agrees A L fsys k v"
  shows "cache_fresh A L fsys E st'"
proof (cases "st_cache st")
  case (Some c)
  with assms obtain c' n1 n2 rnd where c': "st_cache st' = Some c'" "cache_put n1 n2 rnd k v c = Some c'"
    and c: "cache_inv c" "all_entries cache_peek (\<lambda>k a t. key_agrees A L fsys k a \<or> stale E a t) c"
    by (auto simp: cache_fresh_def store_ok_def st_inv_def)
  have "\<forall>t. key_agrees A L fsys k v \<or> stale E v t" using assms(3) by simp
  from attr_cache.put_keeps_entries [OF c this c'(2)] attr_cache.put_inv [OF c(1) c'(2)] c'(1)
  show ?thesis by (simp add: cache_fresh_def st_inv_def)
qed (use assms in \<open>auto simp: cache_fresh_def store_ok_def st_inv_def\<close>)

lemma translateError_ok:
  assumes "cache_fresh A L fsys E st" and "fs_Open fsys nm = Inr f"
    and "translated op (name f) e = PathError op (name f) ErrNotExist \<Longrightarrow>
         stat_spec A L fsys (name f) = Inl (PathError ''stat'' (name f) ErrNotExist)"
  shows "\<exists>st'. translateError api fsys en i op (Some e) f st = Some (Some (translated op (name f) e), st') \<and>
     cache_fresh A L fsys E st'"
proof (cases "\<not> errors_Is e EOF \<and> (errors_Is e ErrBucketNotExist \<or> errors_Is e ErrObjectNotExist)")
  case True
  have "st_inv st" using assms(1) by (simp add: cache_fresh_def)
  then obtain st1 where st1: "cacheNotFound en i f st = Some st1"
    "store_ok (fullPath f) SentinelNotFound st st1"
    using cacheNotFound_ok by blast
  have "key_agrees A L fsys (fullPath f) SentinelNotFound"
    by (rule key_agreesI [OF assms(2)]) (use True assms(3) in \<open>auto simp: agrees_def translated_def\<close>)
  from store_agrees [OF assms(1) st1(2) this] st1(1) True show ?thesis
    by (auto simp: translateError_def translated_def)
next
  case False
  with assms(1) show ?thesis
    by (auto simp: translateError_def translated_def split: option.splits)
qed

text \<open>
  \<open>answers\<close>: a step of \<open>Stat\<close> returned the answer \<open>r\<close> and left a truthful cache.
\<close>

definition answers ::
  "(string \<Rightarrow> gerror + ObjectAttrs) \<Rightarrow> (query \<Rightarrow> gerror + ObjectAttrs) \<Rightarrow> 'w gcsFS \<Rightarrow> int option \<Rightarrow> gerror + ObjectAttrs
     \<Rightarrow> ((gerror option + gcsFileInfo) \<times> 'w fs_state) option \<Rightarrow> bool" where
  "answers A L fsys E r out \<longleftrightarrow>
     (\<exists>st'. out = Some (case r of Inl e \<Rightarrow> Inl (Some e) | Inr oa \<Rightarrow> Inr \<lparr>fi_attrs = oa\<rparr>, st') \<and>
        cache_fresh A L fsys E st')"

lemma stat_found_answers:
  assumes "cache_fresh A L fsys E st" and "fs_Open fsys nm = Inr f"
    and "stat_spec A L fsys (name f) = Inr oa"
  shows "answers A L fsys E (Inr oa) (stat_found en i (fullPath f) oa st)"
proof -
  have "st_inv st" using assms(1) by (simp add: cache_fresh_def)
  then obtain st1 where st1: "cacheAttrs en i (fullPath f) oa st = Some st1"
    "store_ok (fullPath f) (Attrs oa) st st1"
    using cacheAttrs_ok by blast
  have "key_agrees A L fsys (fullPath f) (Attrs oa)"
    by (rule key_agreesI [OF assms(2)]) (simp add: agrees_def assms(3))
  from store_agrees [OF assms(1) st1(2) this] st1(1) show ?thesis
    by (simp add: stat_found_def answers_def)
qed

lemma stat_fail_answers:
  assumes "cache_fresh A L fsys E st" and "fs_Open fsys nm = Inr f"
    and "stat_spec A L fsys (name f) = Inl (translated ''stat'' (name f) e)"
  shows "answers A L fsys E (Inl (translated ''stat'' (name f) e)) (stat_fail api fsys en i e f st)"
  using translateError_ok [OF assms(1,2), of "''stat''" e api en i] assms(3)
  by (auto simp: stat_fail_def answers_def)

lemma translated_not_exist [simp]:
  "translated op nm ErrObjectNotExist = PathError op nm ErrNotExist"
  by (simp add: translated_def)

lemma stat_probe_answers:
  assumes "cache_fresh A L fsys E st" and "fs_Open fsys nm = Inr f" and "stable_backend api A L"
    and spec: "stat_spec A L fsys (name f) =
       (case L (dir_query fsys (name f)) of
          Inr _ \<Rightarrow> Inr (dir_attrs (name f @ ''/''))
        | Inl _ \<Rightarrow> Inl (PathError ''stat'' (name f) ErrNotExist))"
  shows "answers A L fsys E (stat_spec A L fsys (name f)) (stat_probe api fsys en f st)"
proof -
  let ?it = "api_Objects api (opCtx fsys (api_Now api (st_world st))) (dir_query fsys (name f))"
  obtain res it' w1 where n: "api_Next api ?it (st_world st) = (res, it', w1)" by (cases "api_Next api ?it (st_world st)") auto
  with assms(3) have res: "L (dir_query fsys (name f)) = res"
    by (auto simp: stable_backend_def) (metis fst_conv)
  let ?st1 = "st\<lparr>st_world := recordGCSOp api fsys ''list'' (api_Now api (st_world st)) (err_of res) w1\<rparr>"
  have st1: "cache_fresh A L fsys E ?st1" using assms(1) by simp
  show ?thesis
  proof (cases res)
    case (Inr x)
    with n res spec stat_found_answers [OF st1 assms(2)] show ?thesis
      by (simp add: stat_probe_def Let_def)
  next
    case (Inl e)
    with spec res have sp: "stat_spec A L fsys (name f) = Inl (translated ''stat'' (name f) ErrObjectNotExist)"
      by simp
    have "\<exists>st2. (if errors_Is e IteratorDone then cacheNotFound en 1 f ?st1 else Some ?st1) = Some st2 \<and>
        cache_fresh A L fsys E st2"
    proof (cases "errors_Is e IteratorDone")
      case True
      obtain st2 where st2: "cacheNotFound en 1 f ?st1 = Some st2"
        "store_ok (fullPath f) SentinelNotFound ?st1 st2"
        using cacheNotFound_ok [of ?st1 en 1 f] st1 by (auto simp only: cache_fresh_def)
      have "key_agrees A L fsys (fullPath f) SentinelNotFound"
        by (rule key_agreesI [OF assms(2)]) (simp add: agrees_def sp)
      from store_agrees [OF st1 st2(2) this] st2(1) True show ?thesis by simp
    qed (use st1 in simp)
    then obtain st2 where st2: "(if errors_Is e IteratorDone then cacheNotFound en 1 f ?st1 else Some ?st1) = Some st2"
      "cache_fresh A L fsys E st2" by blast
    have "stat_probe api fsys en f st = stat_fail api fsys en 2 ErrObjectNotExist f st2"
      using n Inl st2(1) by (cases "errors_Is e IteratorDone") (simp_all add: stat_probe_def Let_def)
    with stat_fail_answers [OF st2(2) assms(2) sp] sp show ?thesis by simp
  qed
qed

lemma stat_uncached_answers:
  assumes "cache_fresh A L fsys E st" and "fs_Open fsys nm = Inr f" and "stable_backend api A L"
  shows "answers A L fsys E (stat_spec A L fsys (name f)) (stat_uncached api fsys en f st)"
proof (cases "name f = []")
  case True
  with stat_found_answers [OF assms(1,2)] show ?thesis
    by (simp add: stat_uncached_def stat_spec_def)
next
  case False
  let ?p = "object_path fsys (name f)" let ?ctx = "opCtx fsys (api_Now api (st_world st))"
  obtain res w1 where a: "api_Attrs api ?p ?ctx (st_world st) = (res, w1)" by (cases "api_Attrs api ?p ?ctx (st_world st)") auto
  with assms(3) have res: "A ?p = res" by (auto simp: stable_backend_def) (metis fst_conv)
  let ?st1 = "st\<lparr>st_world := recordGCSOp api fsys ''attrs'' (api_Now api (st_world st)) (err_of res) w1\<rparr>"
  have st1: "cache_fresh A L fsys E ?st1" using assms(1) by simp
  show ?thesis
  proof (cases res)
    case (Inr oa)
    with False a res stat_found_answers [OF st1 assms(2)] show ?thesis
      by (simp add: stat_uncached_def stat_spec_def Let_def)
  next
    case (Inl e)
    consider (other) "\<not> errors_Is e ErrObjectNotExist"
      | (ext) "errors_Is e ErrObjectNotExist" "path_Ext (name f) \<noteq> []"
      | (probe) "errors_Is e ErrObjectNotExist" "path_Ext (name f) = []" by blast
    then show ?thesis
    proof cases
      case other
      with False a Inl res stat_fail_answers [OF st1 assms(2), of e] show ?thesis
        by (simp add: stat_uncached_def stat_spec_def Let_def)
    next
      case ext
      with False a Inl res stat_fail_answers [OF st1 assms(2), of ErrObjectNotExist] show ?thesis
        by (simp add: stat_uncached_def stat_spec_def Let_def)
    next
      case probe
      with False Inl res have "stat_spec A L fsys (name f) =
          (case L (dir_query fsys (name f)) of
             Inr _ \<Rightarrow> Inr (dir_attrs (name f @ ''/''))
           | Inl _ \<Rightarrow> Inl (PathError ''stat'' (name f) ErrNotExist))"
        by (simp add: stat_spec_def)
      from stat_probe_answers [OF st1 assms(2,3) this] False a Inl probe show ?thesis
        by (simp add: stat_uncached_def Let_def)
    qed
  qed
qed

text \<open>
  A whole call leaves such a cache behind, and if its clock reads past \<open>E\<close> it gives the answer of the
  bucket as it is.
\<close>

definition past :: "env \<Rightarrow> int option \<Rightarrow> bool" where
  "past en E \<longleftrightarrow> (\<forall>b. E = Some b \<longrightarrow> b < e_clk en 0)"

lemma gcsFile_Stat_fresh:
  assumes "cache_fresh A L fsys E st" and "fs_Open fsys nm = Inr f" and "stable_backend api A L"
  shows "\<exists>r st'. gcsFile_Stat api fsys en f st = Some (r, st') \<and> cache_fresh A L fsys E st' \<and>
    (past en E \<longrightarrow> answers A L fsys E (stat_spec A L fsys (name f)) (Some (r, st')))"
proof (cases "st_cache st")
  case None
  with stat_uncached_answers [OF assms, of en] show ?thesis by (auto simp: gcsFile_Stat_def answers_def)
next
  case (Some c)
  with assms(1) have c: "cache_inv c" "all_entries cache_peek (\<lambda>k a t. key_agrees A L fsys k a \<or> stale E a t) c"
    by (auto simp: cache_fresh_def st_inv_def)
  obtain r c' where g: "cache_get (e_clk en 0) (e_clk en 1) (fullPath f) c = Some (r, c')" "cache_inv c'"
    using attr_cache.get_total [OF c(1)] by blast
  have agr: "cache_fresh A L fsys E (st\<lparr>st_cache := Some c', st_world := w\<rparr>)" for w
    using attr_cache.get_keeps_entries [OF c g(1)] g(2) by (simp add: cache_fresh_def st_inv_def)
  show ?thesis
  proof (cases r)
    case None
    with Some g stat_uncached_answers [OF agr assms(2,3), of en "recordCacheMiss fsys (st_world st)"]
    show ?thesis by (auto simp: gcsFile_Stat_def answers_def)
  next
    case hit: (Some a)
    with attr_cache.get_hit_entry [OF c] g(1) obtain t where t: "e_clk en 0 \<le> t" "key_agrees A L fsys (fullPath f) a \<or> stale E a t"
      by blast
    show ?thesis
    proof (cases a)
      case SentinelNotFound
      with t have "key_agrees A L fsys (fullPath f) a" by (auto simp: stale_def isNegative_def)
      from key_agreesD [OF this assms(2)] SentinelNotFound
      have sp: "stat_spec A L fsys (name f) = Inl (translated ''stat'' (name f) ErrObjectNotExist)" by (simp add: agrees_def)
      from stat_fail_answers [OF agr assms(2) this, of api en 1 "recordCacheHit fsys (st_world st)"] sp Some g hit SentinelNotFound
      show ?thesis
        by (auto simp: gcsFile_Stat_def isNegative_def Let_def answers_def)
    next
      case (Attrs oa)
      have "stat_spec A L fsys (name f) = Inr oa" if "past en E"
        using t that key_agreesD [OF _ assms(2), of A L a] Attrs by (auto simp: stale_def past_def agrees_def)
      with Attrs Some g hit agr show ?thesis
        by (auto simp: gcsFile_Stat_def isNegative_def Let_def answers_def deref_def)
    qed
  qed
qed

lemma past_None [simp]: "past en None"
  by (simp add: past_def)

lemma gcsFile_Stat_answers:
  assumes "cache_agrees A L fsys st" and "fs_Open fsys nm = Inr f" and "stable_backend api A L"
  shows "answers A L fsys None (stat_spec A L fsys (name f)) (gcsFile_Stat api fsys en f st)"
  using gcsFile_Stat_fresh [OF assms, of en] by auto

subsection \<open>Properties\<close>

text \<open>
  A storage client over a fixed bucket, to apply the theorems to: one object, no directories,
  readers and iterators without state. The world counts the calls.
\<close>

definition sample_attrs :: ObjectAttrs where
  "sample_attrs = \<lparr>oa_Name = ''site/a.txt'', oa_Prefix = [], oa_Size = 2, oa_Updated = 7\<rparr>"

definition sample_objects :: "string \<Rightarrow> gerror + ObjectAttrs" where
  "sample_objects p = (if p = ''site/a.txt'' then Inr sample_attrs else Inl ErrObjectNotExist)"

definition sample_api :: "(query \<Rightarrow> gerror + ObjectAttrs) \<Rightarrow> (nat, unit, query) gcs_api" where
  "sample_api L =
     \<lparr>api_NewRangeReader = (\<lambda>_ _ _ _ w. (Inl (OtherError ''down''), w)),
      api_Read = (\<lambda>_ _ w. (([], Some EOF, ()), w)), api_Close = (\<lambda>_ w. (None, w)),
      api_Attrs = (\<lambda>p _ w. (sample_objects p, w + 1)),
      api_Objects = (\<lambda>_ q. q), api_Next = (\<lambda>q w. (L q, q, w + 1)),
      api_Now = int, api_ErrorText = (\<lambda>_. [])\<rparr>"

lemma sample_api_stable: "stable_backend (sample_api L) sample_objects L"
  by (simp add: stable_backend_def sample_api_def)

definition sample_fs :: "nat gcsFS" where
  "sample_fs = fs_Sub (newGCSFS \<lparr>ctx_deadline = None\<rparr> ''bucket'') ''site''"

definition sample_env :: env where
  "sample_env = \<lparr>e_clk = int, e_rnd = (\<lambda>_ _. 0)\<rparr>"

text \<open>The answer a \<open>Stat\<close> call should give for a requested name.\<close>

definition stat_answer ::
  "(string \<Rightarrow> gerror + ObjectAttrs) \<Rightarrow> (query \<Rightarrow> gerror + ObjectAttrs) \<Rightarrow> 'w gcsFS \<Rightarrow> string
     \<Rightarrow> gerror option + gcsFileInfo" where
  "stat_answer A L fsys nm =
     (if \<not> validPath nm then Inl (Some (PathError ''open'' nm ErrInvalid))
      else case stat_spec A L fsys (if nm = ''.'' then [] else nm) of
             Inl e \<Rightarrow> Inl (Some e) | Inr oa \<Rightarrow> Inr \<lparr>fi_attrs = oa\<rparr>)"

fun stat_run ::
  "('w, 'r, 'it) gcs_api \<Rightarrow> 'w gcsFS \<Rightarrow> (env \<times> string) list \<Rightarrow> 'w fs_state
     \<Rightarrow> ((gerror option + gcsFileInfo) list \<times> 'w fs_state) option" where
  "stat_run api fsys [] st = Some ([], st)"
| "stat_run api fsys ((en, nm) # calls) st =
     (case fs_Stat api fsys en nm st of
        None \<Rightarrow> None
      | Some (r, st') \<Rightarrow> map_option (\<lambda>(rs, st''). (r # rs, st'')) (stat_run api fsys calls st'))"

lemma fs_Stat_fresh:
  assumes "cache_fresh A L fsys E st" and "stable_backend api A L"
  shows "\<exists>r st'. fs_Stat api fsys en nm st = Some (r, st') \<and> cache_fresh A L fsys E st' \<and>
    (past en E \<longrightarrow> r = stat_answer A L fsys nm)"
proof (cases "fs_Open fsys nm :: gerror + ('b, 'c) gcsFile")
  case (Inl e)
  then have "\<not> validPath nm" "e = PathError ''open'' nm ErrInvalid"
    by (auto simp: fs_Open_def Let_def split: if_splits)
  with Inl assms(1) show ?thesis by (simp add: fs_Stat_def stat_answer_def)
next
  case (Inr f)
  then have v: "validPath nm" by (auto simp: fs_Open_def split: if_splits)
  from Inr have "name f = (if nm = ''.'' then [] else nm)" by (cases rule: fs_Open_cases) auto
  with gcsFile_Stat_fresh [OF assms(1) Inr assms(2), of en] Inr v show ?thesis
    by (auto simp: fs_Stat_def stat_answer_def answers_def)
qed

lemma stat_run_fresh:
  "cache_fresh A L fsys E st \<Longrightarrow> stable_backend api A L \<Longrightarrow>
   \<exists>rs st'. stat_run api fsys calls st = Some (rs, st') \<and>
     list_all2 (\<lambda>(en, nm) r. past en E \<longrightarrow> r = stat_answer A L fsys nm) calls rs"
proof (induction calls arbitrary: st)
  case (Cons call calls)
  obtain en nm where call: "call = (en, nm)" by force
  obtain r st' where "fs_Stat api fsys en nm st = Some (r, st')" "cache_fresh A L fsys E st'" "past en E \<longrightarrow> r = stat_answer A L fsys nm"
    using fs_Stat_fresh [OF Cons.prems] by blast
  with Cons.IH [OF _ Cons.prems(2), of st'] call show ?case by auto
qed simp

lemma stat_run_answers:
  assumes "cache_agrees A L fsys st" and "stable_backend api A L"
  shows "\<exists>st'. stat_run api fsys calls st = Some (map (\<lambda>(_, nm). stat_answer A L fsys nm) calls, st')"
proof -
  obtain rs st' where "stat_run api fsys calls st = Some (rs, st')"
      "list_all2 (\<lambda>(en, nm) r. past en None \<longrightarrow> r = stat_answer A L fsys nm) calls rs"
    using stat_run_fresh [OF assms] by blast
  moreover from this(2) have "rs = map (\<lambda>(_, nm). stat_answer A L fsys nm) calls"
    by (induction rule: list_all2_induct) auto
  ultimately show ?thesis by blast
qed

lemma new_cache_agrees:
  "(\<And>c. st_cache st = Some c \<Longrightarrow> \<exists>t m. newAttrCache t m = Some c) \<Longrightarrow> cache_agrees A L fsys st"
  using newAttrCache_inv
  by (fastforce simp: cache_fresh_def st_inv_def all_entries_def cache_peek_def)

text \<open>
  C2. The attribute cache is invisible on a bucket that does not change: any sequence of
  \<open>Stat\<close> calls, with or without a cache and whatever the cache's size, lifetimes, clock and
  evictions, returns for each name exactly the answer computed from the bucket alone, and no
  call panics.
\<close>

theorem stat_cache_transparent:
  assumes "stable_backend api A L"
    and "\<And>c. st_cache st = Some c \<Longrightarrow> \<exists>t m. newAttrCache t m = Some c"
  shows "\<exists>st'. stat_run api fsys calls st = Some (map (\<lambda>(_, nm). stat_answer A L fsys nm) calls, st')"
  by (rule stat_run_answers [OF new_cache_agrees [OF assms(2)] assms(1)])

lemma sample_valid: "validPath ''a.txt''" "validPath ''b''"
  by (auto simp: validPath_def fs_ValidPath_def valid_elem_def intro!: ValidString_ascii)

theorem stat_cache_transparent_witness:
  "\<exists>c st'. newAttrCache (10 * Second) 1 = Some c \<and>
     stat_run (sample_api (\<lambda>_. Inl IteratorDone)) sample_fs
       [(sample_env, ''a.txt''), (sample_env, ''b''), (sample_env, ''a.txt'')] \<lparr>st_cache = Some c, st_world = 0\<rparr>
     = Some ([Inr \<lparr>fi_attrs = sample_attrs\<rparr>, Inl (Some (PathError ''stat'' ''b'' ErrNotExist)),
              Inr \<lparr>fi_attrs = sample_attrs\<rparr>], st')"
proof -
  let ?L = "\<lambda>_. Inl IteratorDone" let ?c = "the (newAttrCache (10 * Second) 1)"
  have c: "newAttrCache (10 * Second) 1 = Some ?c" by (simp add: newAttrCache_def)
  have p: "object_path sample_fs ''a.txt'' = ''site/a.txt''" "object_path sample_fs ''b'' = ''site/b''"
    by (simp_all add: object_path_def sample_fs_def fs_Sub_def newGCSFS_def path_Join_def path_Clean_def clean_stack_def)
  have a: "stat_answer sample_objects ?L sample_fs ''a.txt'' = Inr \<lparr>fi_attrs = sample_attrs\<rparr>"
    by (simp add: stat_answer_def stat_spec_def sample_valid p sample_objects_def)
  have b: "stat_answer sample_objects ?L sample_fs ''b'' = Inl (Some (PathError ''stat'' ''b'' ErrNotExist))"
    by (simp add: stat_answer_def stat_spec_def sample_valid p sample_objects_def path_Ext_def)
  have "\<exists>st'. stat_run (sample_api ?L) sample_fs
       [(sample_env, ''a.txt''), (sample_env, ''b''), (sample_env, ''a.txt'')] \<lparr>st_cache = Some ?c, st_world = 0\<rparr>
     = Some (map (\<lambda>(_, nm). stat_answer sample_objects ?L sample_fs nm)
         [(sample_env, ''a.txt''), (sample_env, ''b''), (sample_env, ''a.txt'')], st')"
    by (rule stat_cache_transparent [OF sample_api_stable]) (use c in auto)
  then show ?thesis using c by (auto simp: a b)
qed

text \<open>
  C4. Changes become visible. Whatever the bucket was before, once it has settled, and if the cache
  holds positive entries only, each good until \<open>b\<close> at the latest: then through any number of \<open>Stat\<close> calls,
  each of which returns, every call whose clock reads past \<open>b\<close> gives the answer of the bucket as it is
  now. Hits before \<open>b\<close> do not extend the life of an old entry. (Negative entries are renewed by hits,
  see \<open>negative_hit_restarts_lifetime\<close>, so nothing of the kind holds for them.)
\<close>

theorem stat_changes_become_visible:
  assumes "stable_backend api A L" and "st_inv st"
    and "\<And>c. st_cache st = Some c \<Longrightarrow> all_entries cache_peek (\<lambda>k a t. \<not> isNegative a \<and> t \<le> b) c"
  shows "\<exists>rs st'. stat_run api fsys calls st = Some (rs, st') \<and>
    list_all2 (\<lambda>(en, nm) r. b < e_clk en 0 \<longrightarrow> r = stat_answer A L fsys nm) calls rs"
proof -
  have "cache_fresh A L fsys (Some b) st"
    using assms(2,3) by (auto simp: cache_fresh_def all_entries_def stale_def)
  from stat_run_fresh [OF this assms(1), of calls] show ?thesis by (simp add: past_def)
qed

text \<open>A cache that still holds an object which has been deleted: it is served until time 9, not at time 10.\<close>

definition old_cache :: attrCache where
  "old_cache = \<lparr>entries = [(''site/b'', \<lparr>attrs = Attrs sample_attrs, expiresAt = 9\<rparr>)], keys = [''site/b''],
     keyIndex = [(''site/b'', 0)], ttl = 5, negTTL = 1, maxEntries = 3, hits = 0, misses = 0\<rparr>"

definition at_time :: "int \<Rightarrow> env" where
  "at_time t = \<lparr>e_clk = \<lambda>_. t, e_rnd = (\<lambda>_ _. 0)\<rparr>"

theorem stat_changes_become_visible_witness:
  "\<exists>r1 r2 st'. stat_run (sample_api (\<lambda>_. Inl IteratorDone)) sample_fs [(at_time 8, ''b''), (at_time 10, ''b'')]
     \<lparr>st_cache = Some old_cache, st_world = 0\<rparr> = Some ([r1, r2], st') \<and>
   r2 = Inl (Some (PathError ''stat'' ''b'' ErrNotExist))"
proof -
  let ?L = "\<lambda>_. Inl IteratorDone" let ?st = "\<lparr>st_cache = Some old_cache, st_world = 0\<rparr> :: nat fs_state"
  have inv: "st_inv ?st" by (auto simp: st_inv_def cache_inv_def old_cache_def index_of_def)
  have old: "all_entries cache_peek (\<lambda>k a t. \<not> isNegative a \<and> t \<le> 9) c" if "st_cache ?st = Some c" for c
    using that by (auto simp: all_entries_def cache_peek_def old_cache_def isNegative_def split: if_splits)
  have p: "object_path sample_fs ''b'' = ''site/b''"
    by (simp add: object_path_def sample_fs_def fs_Sub_def newGCSFS_def path_Join_def path_Clean_def clean_stack_def)
  have b: "stat_answer sample_objects ?L sample_fs ''b'' = Inl (Some (PathError ''stat'' ''b'' ErrNotExist))"
    by (simp add: stat_answer_def stat_spec_def sample_valid p sample_objects_def path_Ext_def)
  obtain rs st' where r: "stat_run (sample_api ?L) sample_fs [(at_time 8, ''b''), (at_time 10, ''b'')] ?st = Some (rs, st')"
      "list_all2 (\<lambda>(en, nm) r. 9 < e_clk en 0 \<longrightarrow> r = stat_answer sample_objects ?L sample_fs nm)
        [(at_time 8, ''b''), (at_time 10, ''b'')] rs"
    using stat_changes_become_visible [OF sample_api_stable inv old, where fsys = sample_fs and L = ?L] by blast
  from r(2) obtain r1 r2 where "rs = [r1, r2]" "r2 = stat_answer sample_objects ?L sample_fs ''b''"
    by (auto simp: list_all2_Cons1 at_time_def)
  with r(1) b show ?thesis by auto
qed

text \<open>
  C5. Opening: the call fails exactly on an invalid path, with \<open>fs.ErrInvalid\<close>; otherwise the
  file refers to the prefix's own base string followed by the requested name, and no two
  names of one filesystem share an object path (hence a cache key).
\<close>

theorem open_contained_and_injective:
  fixes fsys :: "'w gcsFS" and f g :: "('r, 'it) gcsFile"
  shows "(\<not> validPath a \<longrightarrow> fs_Open fsys a = (Inl (PathError ''open'' a ErrInvalid) :: gerror + ('r, 'it) gcsFile)) \<and>
   (validPath a \<and> a \<noteq> ''.'' \<longrightarrow>
      (\<exists>f :: ('r, 'it) gcsFile. fs_Open fsys a = Inr f \<and> name f = a \<and>
         fullPath f = path_base (fs_prefix fsys) @ a)) \<and>
   (fs_Open fsys a = Inr f \<and> fs_Open fsys b = Inr g \<and> fullPath f = fullPath g \<longrightarrow> a = b)"
proof (intro conjI impI)
  assume "validPath a \<and> a \<noteq> ''.''"
  then show "\<exists>f :: ('r, 'it) gcsFile. fs_Open fsys a = Inr f \<and> name f = a \<and>
      fullPath f = path_base (fs_prefix fsys) @ a" using fs_Open_object by blast
qed (auto simp: fs_Open_def intro: fs_Open_inj [of fsys])

theorem open_contained_and_injective_witness:
  "\<exists>f :: (unit, unit) gcsFile. fs_Open sample_fs ''a.txt'' = Inr f \<and> fullPath f = ''site/a.txt''"
proof -
  have "path_base (fs_prefix sample_fs) = ''site/''"
    by (simp add: sample_fs_def fs_Sub_def newGCSFS_def path_base_def path_Join_def path_Clean_def clean_stack_def)
  with conjunct1 [OF conjunct2 [OF open_contained_and_injective [of "''a.txt''" sample_fs]]] sample_valid(1)
  show ?thesis by auto
qed

text \<open>
  No needless round trips: on a cache hit, positive or negative, and for the root, \<open>Stat\<close>
  does not depend on the storage client at all, so it makes no call to it.
\<close>

lemma stat_hit_no_client_call:
  assumes "name f = [] \<or>
     (\<exists>c a t. st_cache st = Some c \<and> cache_inv c \<and> cache_peek c (fullPath f) = Some (a, t) \<and> e_clk en 0 \<le> t)"
  shows "gcsFile_Stat api fsys en f st = gcsFile_Stat api' fsys en f st"
proof -
  have tr: "stat_fail api fsys en i ErrObjectNotExist f s = stat_fail api' fsys en i ErrObjectNotExist f s" for i s
    by (simp add: stat_fail_def translateError_def)
  from assms show ?thesis
  proof
    assume "name f = []"
    then have "stat_uncached api fsys en f s = stat_uncached api' fsys en f s" for s
      by (simp add: stat_uncached_def)
    with tr show ?thesis by (simp add: gcsFile_Stat_def Let_def split: option.splits)
  next
    assume "\<exists>c a t. st_cache st = Some c \<and> cache_inv c \<and> cache_peek c (fullPath f) = Some (a, t) \<and> e_clk en 0 \<le> t"
    then obtain c a t where c: "st_cache st = Some c" "cache_inv c" "cache_peek c (fullPath f) = Some (a, t)"
      "e_clk en 0 \<le> t" by blast
    obtain r c' where g: "cache_get (e_clk en 0) (e_clk en 1) (fullPath f) c = Some (r, c')"
      using attr_cache.get_total [OF c(2)] by blast
    with attr_cache.get_result [OF c(2) g] c(3,4) have "r = Some a" by simp
    with g c(1) tr show ?thesis by (simp add: gcsFile_Stat_def Let_def)
  qed
qed

lemma stat_hit_no_client_call_witness:
  "\<exists>f :: (unit, query) gcsFile. fs_Open sample_fs ''.'' = Inr f \<and>
     gcsFile_Stat (sample_api (\<lambda>_. Inl IteratorDone)) sample_fs sample_env f \<lparr>st_cache = None, st_world = 0\<rparr> =
     gcsFile_Stat (sample_api (\<lambda>_. Inl (OtherError ''down''))) sample_fs sample_env f \<lparr>st_cache = None, st_world = 0\<rparr>"
proof -
  have "validPath ''.''" by (auto simp: validPath_def fs_ValidPath_def intro!: ValidString_ascii)
  then obtain f :: "(unit, query) gcsFile" where f: "fs_Open sample_fs ''.'' = Inr f"
    by (auto simp: fs_Open_def Let_def)
  then have "name f = []" by (cases rule: fs_Open_cases) auto
  with f stat_hit_no_client_call [of f] show ?thesis by blast
qed

text \<open>
  C38. A passing probe failure is remembered as absence: when the object is missing and the
  directory probe fails for any reason other than an empty listing (a timeout, say), \<open>Stat\<close>
  still leaves a not-found entry in the cache, although the source comments that transient
  errors must not be cached.
\<close>

theorem transient_probe_error_cached:
  assumes open_f: "fs_Open fsys nm = Inr f" and root: "nm \<noteq> ''.''" and ext: "path_Ext nm = []"
    and cache: "st_cache st = Some c" "cache_inv c" "cache_peek c (fullPath f) = None"
    and missing: "\<And>p ctx w. fst (api_Attrs api p ctx w) = Inl ErrObjectNotExist"
    and probe: "\<And>q ctx w. fst (api_Next api (api_Objects api ctx q) w) = Inl DeadlineExceeded"
  shows "\<exists>st' c'. gcsFile_Stat api fsys en f st = Some (Inl (Some (PathError ''stat'' nm ErrNotExist)), st') \<and>
     st_cache st' = Some c' \<and>
     cache_peek c' (fullPath f) = Some (SentinelNotFound, wrap64 (e_clk en 5 + negTTL c))"
proof -
  from open_f root have nm: "name f = nm" "nm \<noteq> []" by (cases rule: fs_Open_cases; simp)+
  obtain r c1 where g: "cache_get (e_clk en 0) (e_clk en 1) (fullPath f) c = Some (r, c1)" "cache_inv c1"
    "cache_life c1 = cache_life c"
    using attr_cache.get_total [OF cache(2)] by blast
  with attr_cache.get_result [OF cache(2) g(1)] cache(3) have r: "r = None" by simp
  let ?st1 = "st\<lparr>st_cache := Some c1, st_world := recordCacheMiss fsys (st_world st)\<rparr>"
  let ?now = "api_Now api (st_world ?st1)"
  obtain w1 where w1: "api_Attrs api (object_path fsys nm) (opCtx fsys ?now) (st_world ?st1)
      = (Inl ErrObjectNotExist, w1)"
    using missing by (metis prod.collapse)
  let ?st2 = "?st1\<lparr>st_world := recordGCSOp api fsys ''attrs'' ?now (Some ErrObjectNotExist) w1\<rparr>"
  let ?now2 = "api_Now api (st_world ?st2)"
  obtain it2 w2 where w2: "api_Next api (api_Objects api (opCtx fsys ?now2) (dir_query fsys nm)) (st_world ?st2)
      = (Inl DeadlineExceeded, it2, w2)"
    using probe by (metis prod.collapse)
  let ?st3 = "?st2\<lparr>st_world := recordGCSOp api fsys ''list'' ?now2 (Some DeadlineExceeded) w2\<rparr>"
  obtain c2 where c2: "cache_put (e_clk en 4) (e_clk en 5) (e_rnd en 2) (fullPath f) SentinelNotFound c1 = Some c2"
    using attr_cache.put_total [OF g(2)] by blast
  have "gcsFile_Stat api fsys en f st = stat_fail api fsys en 2 ErrObjectNotExist f ?st3"
    using cache(1) g(1) r nm ext w1 w2
    by (simp add: gcsFile_Stat_def stat_uncached_def stat_probe_def Let_def)
  moreover have "cacheNotFound en 2 f ?st3 = Some (?st3\<lparr>st_cache := Some c2\<rparr>)"
    using c2 by (simp add: cacheNotFound_def setNotFound_put)
  moreover have "cache_peek c2 (fullPath f) = Some (SentinelNotFound, wrap64 (e_clk en 5 + negTTL c))"
    using attr_cache.put_same [OF g(2) c2] g(3) by (simp add: cache_life_def isNegative_def)
  ultimately show ?thesis
    using nm by (simp add: stat_fail_def translateError_def)
qed

text \<open>A client in which every object is missing and every listing times out.\<close>

definition outage_api :: "(nat, unit, query) gcs_api" where
  "outage_api = (sample_api (\<lambda>_. Inl DeadlineExceeded))\<lparr>api_Attrs := (\<lambda>_ _ w. (Inl ErrObjectNotExist, w))\<rparr>"

theorem transient_probe_error_cached_witness:
  "\<exists>(f :: (unit, query) gcsFile) c st' c'. fs_Open sample_fs ''b'' = Inr f \<and> newAttrCache 0 5 = Some c \<and>
     gcsFile_Stat outage_api sample_fs sample_env f \<lparr>st_cache = Some c, st_world = 0\<rparr>
       = Some (Inl (Some (PathError ''stat'' ''b'' ErrNotExist)), st') \<and>
     st_cache st' = Some c' \<and> cache_peek c' ''site/b'' \<noteq> None"
proof -
  let ?c = "the (newAttrCache 0 5)"
  have c: "newAttrCache 0 5 = Some ?c" by (simp add: newAttrCache_def)
  then have ci: "cache_inv ?c" "entries ?c = []" using newAttrCache_inv by auto
  obtain f :: "(unit, query) gcsFile" where f: "fs_Open sample_fs ''b'' = Inr f"
    using sample_valid(2) by (auto simp: fs_Open_def Let_def)
  have base: "path_base (fs_prefix sample_fs) = ''site/''"
    by (simp add: sample_fs_def fs_Sub_def newGCSFS_def path_base_def path_Join_def path_Clean_def clean_stack_def)
  from f base have fp: "fullPath f = ''site/b''" by (cases rule: fs_Open_cases) auto
  have "\<exists>st' c'. gcsFile_Stat outage_api sample_fs sample_env f \<lparr>st_cache = Some ?c, st_world = 0\<rparr>
       = Some (Inl (Some (PathError ''stat'' ''b'' ErrNotExist)), st') \<and> st_cache st' = Some c' \<and>
     cache_peek c' (fullPath f) = Some (SentinelNotFound, wrap64 (e_clk sample_env 5 + negTTL ?c))"
    by (rule transient_probe_error_cached [OF f])
      (use ci in \<open>auto simp: path_Ext_def cache_peek_def outage_api_def sample_api_def\<close>)
  with f c fp show ?thesis by fastforce
qed

text \<open>
  A negative hit restarts the entry's lifetime: serving a cached not-found answer goes
  through the error translation, which stores the entry again, so it expires \<open>negTTL\<close> after
  its last use rather than after it was learned. A path asked for often enough stays missing
  for as long as it is asked for, even if the object is uploaded meanwhile.
\<close>

lemma negative_hit_restarts_lifetime:
  assumes "st_cache st = Some c" and "cache_inv c"
    and "cache_peek c (fullPath f) = Some (SentinelNotFound, t)" and "e_clk en 0 \<le> t"
  shows "\<exists>st' c'. gcsFile_Stat api fsys en f st = Some (Inl (Some (PathError ''stat'' (name f) ErrNotExist)), st') \<and>
     st_cache st' = Some c' \<and> cache_inv c' \<and>
     cache_peek c' (fullPath f) = Some (SentinelNotFound, wrap64 (e_clk en 3 + negTTL c))"
proof -
  obtain r c1 where g: "cache_get (e_clk en 0) (e_clk en 1) (fullPath f) c = Some (r, c1)" "cache_inv c1"
    "cache_life c1 = cache_life c"
    using attr_cache.get_total [OF assms(2)] by blast
  with attr_cache.get_result [OF assms(2) g(1)] assms(3,4) have r: "r = Some SentinelNotFound" by simp
  obtain c2 where c2: "cache_put (e_clk en 2) (e_clk en 3) (e_rnd en 1) (fullPath f) SentinelNotFound c1 = Some c2"
    "cache_inv c2"
    using attr_cache.put_total [OF g(2)] by blast
  have "cache_peek c2 (fullPath f) = Some (SentinelNotFound, wrap64 (e_clk en 3 + negTTL c))"
    using attr_cache.put_same [OF g(2) c2(1)] g(3) by (simp add: cache_life_def isNegative_def)
  moreover have "setNotFound (e_clk en 2) (e_clk en 3) (e_rnd en 1) (fullPath f) c1 = Some c2"
    using c2(1) by (simp add: setNotFound_put)
  ultimately show ?thesis
    using assms(1) g(1) r c2(2)
    by (simp add: gcsFile_Stat_def stat_fail_def translateError_def cacheNotFound_def isNegative_def
        numeral_2_eq_2 numeral_3_eq_3 Let_def)
qed

lemma negative_hit_restarts_lifetime_witness:
  "\<exists>(f :: (unit, query) gcsFile) c st' c'. fullPath f = ''a'' \<and> cache_peek c ''a'' = Some (SentinelNotFound, 4) \<and>
     gcsFile_Stat (sample_api (\<lambda>_. Inl IteratorDone)) sample_fs sample_env f \<lparr>st_cache = Some c, st_world = 0\<rparr>
       = Some (Inl (Some (PathError ''stat'' (name f) ErrNotExist)), st') \<and>
     st_cache st' = Some c' \<and> cache_peek c' ''a'' = Some (SentinelNotFound, wrap64 (e_clk sample_env 3 + 1000))"
proof -
  let ?c = "stale_cache\<lparr>negTTL := 1000\<rparr>"
  let ?f = "\<lparr>name = ''a'', fullPath = ''a'', reader = None, pos = 0, fsize = 0, sizeKnown = False,
     sniffBuf = None, sniffLen = 0, sniffPos = 0, diter = None\<rparr> :: (unit, query) gcsFile"
  have c: "cache_inv ?c" using stale_cache_inv by (simp add: cache_inv_def)
  have p: "cache_peek ?c (fullPath ?f) = Some (SentinelNotFound, 4)"
    by (simp add: cache_peek_def stale_cache_def)
  have "\<exists>st' c'. gcsFile_Stat (sample_api (\<lambda>_. Inl IteratorDone)) sample_fs sample_env ?f
      \<lparr>st_cache = Some ?c, st_world = 0\<rparr>
      = Some (Inl (Some (PathError ''stat'' (name ?f) ErrNotExist)), st') \<and>
     st_cache st' = Some c' \<and> cache_inv c' \<and>
     cache_peek c' (fullPath ?f) = Some (SentinelNotFound, wrap64 (e_clk sample_env 3 + negTTL ?c))"
    by (rule negative_hit_restarts_lifetime [OF _ c p]) (simp_all add: sample_env_def)
  with p show ?thesis by (intro exI [of _ ?f] exI [of _ ?c]) auto
qed

text \<open>
  C30. Error translation: \<open>nil\<close> and end-of-file pass through untouched; every other error comes
  back as a path error naming the operation and the file; the storage client's not-found
  errors, however wrapped, and no error that is neither wrapped around them nor a path error
  itself, satisfy \<open>fs.ErrNotExist\<close>; translation never panics.
\<close>

theorem translateError_contract:
  assumes "st_inv st"
  shows "translateError api fsys en i op None f st = Some (None, st) \<and>
    (\<exists>st'. translateError api fsys en i op (Some e) f st = Some (Some (translated op (name f) e), st') \<and> st_inv st') \<and>
    (errors_Is e EOF \<longrightarrow> translated op (name f) e = e) \<and>
    (\<not> errors_Is e EOF \<longrightarrow> (\<exists>inner. translated op (name f) e = PathError op (name f) inner)) \<and>
    (\<not> errors_Is e EOF \<and> (errors_Is e ErrBucketNotExist \<or> errors_Is e ErrObjectNotExist) \<longrightarrow>
       errors_Is (translated op (name f) e) ErrNotExist) \<and>
    (errors_Is (translated op (name f) e) ErrNotExist \<and> errors_AsPathError e = None \<longrightarrow>
       errors_Is e ErrNotExist \<or> errors_Is e ErrBucketNotExist \<or> errors_Is e ErrObjectNotExist)"
proof -
  note translateError_total [OF assms, of api fsys en i op e f]
  moreover have "translateError api fsys en i op None f st = Some (None, st)"
    by (simp add: translateError_def)
  moreover have "\<not> errors_Is e EOF \<Longrightarrow> \<exists>inner. translated op (name f) e = PathError op (name f) inner"
    by (auto simp: translated_def split: option.splits)
  ultimately show ?thesis by (auto simp: translated_def)
qed

theorem translateError_contract_witness:
  "st_inv (\<lparr>st_cache = None, st_world = 0\<rparr> :: nat fs_state) \<and>
   errors_Is (translated ''read'' ''a'' (WrapError ''gone'' [ErrObjectNotExist, OtherError ''404''])) ErrNotExist"
proof -
  have i: "st_inv (\<lparr>st_cache = None, st_world = 0\<rparr> :: nat fs_state)" by (simp add: st_inv_def)
  let ?f = "\<lparr>name = ''a'', fullPath = ''a'', reader = None, pos = 0, fsize = 0, sizeKnown = False,
     sniffBuf = None, sniffLen = 0, sniffPos = 0, diter = None\<rparr> :: (unit, query) gcsFile"
  from translateError_contract [OF i, of "sample_api (\<lambda>_. Inl IteratorDone)" sample_fs sample_env 1 "''read''" ?f
      "WrapError ''gone'' [ErrObjectNotExist, OtherError ''404'']"] i
  show ?thesis by simp
qed

text \<open>
  File modes are consistent: an entry is a directory exactly when its mode has the
  directory bit, its type is that bit alone, and no entry is writable.
\<close>

lemma file_mode_consistent:
  "fi_Type fi = (if fi_IsDir fi then ModeDir else 0) \<and>
   (fi_IsDir fi \<longleftrightarrow> Bit_Operations.and (fi_Mode fi) ModeDir \<noteq> 0) \<and>
   Bit_Operations.and (fi_Mode fi) 0x92 = 0 \<and>
   fi_IsDir \<lparr>fi_attrs = dir_attrs (nm @ ''/'')\<rparr>"
  by (simp add: fi_Type_def fi_Mode_def fi_IsDir_def dir_attrs_def)

end
