(* ===== verification/Read_Seeker.thy ===== *)
theory Read_Seeker
  imports Prelude
begin

section \<open>Interface of a seekable byte stream\<close>

text \<open>
  What a consumer such as \<^verbatim>\<open>http.ServeContent\<close> relies on: a stream with fixed contents and a
  position, where reads deliver the bytes at the position and advance it, end-of-file is
  reported only at the end, and a successful seek moves the position. A stream may be in a state
  (\<open>headless\<close>) where a read at position 0 that delivers nothing may also report end-of-file; no
  call leads into such a state. The calls are relations since their outcome also depends on the
  storage client. The provider is \<open>gcsFile\<close> (theory \<open>Gcs_File\<close>).
\<close>

definition segment :: "'b list \<Rightarrow> nat \<Rightarrow> 'b list \<Rightarrow> bool" where
  "segment c off bs \<longleftrightarrow> bs = take (length bs) (drop off c)"

lemma segment_Nil [simp]: "segment c off []"
  by (simp add: segment_def)

lemma segment_iff: "segment c off bs \<longleftrightarrow> (\<exists>r. drop off c = bs @ r)"
proof
  assume "segment c off bs"
  then have "drop off c = bs @ drop (length bs) (drop off c)"
    unfolding segment_def by (metis append_take_drop_id)
  then show "\<exists>r. drop off c = bs @ r" by blast
qed (auto simp: segment_def)

lemma drop_add: "drop (i + j) c = drop j (drop i c)"
  by (simp add: add.commute)

lemma segment_append: "segment c off a \<Longrightarrow> segment c (off + length a) b \<Longrightarrow> segment c off (a @ b)"
  by (auto simp: segment_iff drop_add simp del: drop_drop)

lemma segment_take: "segment c off bs \<Longrightarrow> segment c off (take n bs)"
  by (metis append.assoc append_take_drop_id segment_iff)

lemma segment_drop: "segment c off bs \<Longrightarrow> n \<le> length bs \<Longrightarrow> segment c (off + n) (drop n bs)"
  by (auto simp: segment_iff drop_add simp del: drop_drop)

lemma segment_bound:
  assumes "segment c off bs" shows "bs = [] \<or> off + length bs \<le> length c"
proof -
  from assms obtain r where "drop off c = bs @ r" by (auto simp: segment_iff)
  then have "length c - off = length bs + length r" by (metis length_append length_drop)
  then show ?thesis by (cases bs) auto
qed

lemma segment_all: "segment c off bs \<Longrightarrow> length c \<le> off + length bs \<Longrightarrow> bs = drop off c"
  unfolding segment_def by (metis add.commute le_diff_conv length_drop take_all)

text \<open>\<open>drain\<close>: read, with buffers of any size, until end-of-file.\<close>

inductive drain :: "('s \<Rightarrow> nat \<Rightarrow> 'b list \<Rightarrow> 'e option \<Rightarrow> 's \<Rightarrow> bool) \<Rightarrow> 'e \<Rightarrow> 's \<Rightarrow> 'b list \<Rightarrow> 's \<Rightarrow> bool"
  for rd eof where
  drain_end: "rd s n bs (Some eof) s' \<Longrightarrow> drain rd eof s bs s'"
| drain_more: "rd s n bs None s' \<Longrightarrow> drain rd eof s' bs' s'' \<Longrightarrow> drain rd eof s (bs @ bs') s''"

locale read_seeker =
  fixes inv :: "'s \<Rightarrow> bool"
    and content :: "'s \<Rightarrow> 'b list"
    and offset :: "'s \<Rightarrow> nat"
    and rd :: "'s \<Rightarrow> nat \<Rightarrow> 'b list \<Rightarrow> 'e option \<Rightarrow> 's \<Rightarrow> bool"
    and seek :: "'s \<Rightarrow> nat \<Rightarrow> 's \<Rightarrow> bool"
    and eof :: 'e
    and headless :: "'s \<Rightarrow> bool"
  assumes read_total: "inv s \<Longrightarrow> \<exists>bs e s'. rd s n bs e s'"
    and read_inv: "inv s \<Longrightarrow> rd s n bs e s' \<Longrightarrow> inv s' \<and> content s' = content s"
    and read_data: "inv s \<Longrightarrow> rd s n bs e s' \<Longrightarrow>
      length bs \<le> n \<and> segment (content s) (offset s) bs \<and> offset s' = offset s + length bs"
    and read_eof: "inv s \<Longrightarrow> rd s n bs (Some eof) s' \<Longrightarrow>
      length (content s) \<le> offset s' \<or> headless s \<and> offset s = 0 \<and> bs = []"
    and read_progress: "inv s \<Longrightarrow> 0 < n \<Longrightarrow> rd s n bs None s' \<Longrightarrow> bs \<noteq> []"
    and seek_moves: "inv s \<Longrightarrow> seek s t s' \<Longrightarrow> inv s' \<and> content s' = content s \<and> offset s' = t"
    and read_headless: "inv s \<Longrightarrow> rd s n bs e s' \<Longrightarrow> headless s' \<Longrightarrow> headless s"
    and seek_headless: "inv s \<Longrightarrow> seek s t s' \<Longrightarrow> headless s' \<Longrightarrow> headless s"
begin

lemma drain_rest:
  assumes "drain rd eof s bs s'" and "inv s"
  shows "(bs = drop (offset s) (content s) \<or> headless s \<and> offset s = 0 \<and> bs = []) \<and> inv s' \<and> content s' = content s"
  using assms
proof (induction rule: drain.induct)
  case (drain_end s n bs s')
  note rd = drain_end.prems drain_end.hyps
  from read_data [OF rd] read_eof [OF rd] have "bs = drop (offset s) (content s) \<or> headless s \<and> offset s = 0 \<and> bs = []"
    by (auto intro: segment_all)
  with read_inv [OF rd] show ?case by simp
next
  case (drain_more s n bs s' bs' s'')
  note rd = drain_more.prems drain_more.hyps(1)
  from read_inv [OF rd] have i: "inv s'" "content s' = content s" by auto
  with drain_more.IH have ih: "bs' = drop (offset s') (content s) \<or> headless s' \<and> offset s' = 0 \<and> bs' = []"
    "inv s''" "content s'' = content s" by auto
  from read_data [OF rd] have d: "segment (content s) (offset s) bs" "offset s' = offset s + length bs" by auto
  have "bs @ bs' = drop (offset s) (content s)" if "bs' = drop (offset s') (content s)"
  proof -
    have "bs @ bs' = take (length bs) (drop (offset s) (content s)) @
        drop (length bs) (drop (offset s) (content s))"
      using d that unfolding segment_def by (metis add.commute drop_drop)
    also have "\<dots> = drop (offset s) (content s)" by (rule append_take_drop_id)
    finally show ?thesis .
  qed
  with ih d(2) read_headless [OF rd] show ?case by auto
qed

text \<open>Where no read fails, reading with a non-empty buffer does reach end-of-file.\<close>

lemma drain_exists:
  assumes "inv s" and "0 < n"
    and reliable: "\<And>s bs e s'. inv s \<Longrightarrow> rel s \<Longrightarrow> rd s n bs e s' \<Longrightarrow> (e = None \<or> e = Some eof) \<and> rel s'"
    and "rel s"
  shows "\<exists>bs s'. drain rd eof s bs s'"
  using assms(1,4)
proof (induction "length (content s) - offset s" arbitrary: s rule: less_induct)
  case less
  obtain bs e s1 where r: "rd s n bs e s1" using read_total [OF less.prems(1)] by blast
  from reliable [OF less.prems r] consider "e = Some eof" | "e = None" and "rel s1" by blast
  then show ?case
  proof cases
    case 1
    with r show ?thesis by (auto intro: drain_end)
  next
    case 2
    from read_inv [OF less.prems(1) r] have i: "inv s1" "content s1 = content s" by auto
    from r 2 have ne: "bs \<noteq> []" using read_progress [OF less.prems(1) assms(2)] by blast
    from read_data [OF less.prems(1) r]
    have d: "segment (content s) (offset s) bs" "offset s1 = offset s + length bs" by auto
    from segment_bound [OF d(1)] ne have "offset s + length bs \<le> length (content s)" "0 < length bs" by auto
    then have "length (content s1) - offset s1 < length (content s) - offset s"
      unfolding d(2) i(2) by linarith
    from less.hyps [OF this i(1) 2(2)] obtain bs' s2 where "drain rd eof s1 bs' s2" by blast
    with r 2 show ?thesis by (auto intro: drain_more)
  qed
qed

text \<open>The pattern of \<^verbatim>\<open>http.ServeContent\<close>: sniff the head, rewind, send everything.\<close>

lemma sniff_rewind_drain:
  assumes "inv s" and "rd s n bs e s1" and "seek s1 t s2" and "drain rd eof s2 out s3"
  shows "out = drop t (content s) \<or> headless s1 \<and> t = 0 \<and> out = []"
proof -
  from read_inv [OF assms(1,2)] have s1: "inv s1" "content s1 = content s" by auto
  from seek_moves [OF s1(1) assms(3)] s1(2) have s2: "inv s2" "content s2 = content s" "offset s2 = t" by auto
  from drain_rest [OF assms(4) s2(1)] s2 seek_headless [OF s1(1) assms(3)] show ?thesis by auto
qed

end

end
