(* ===== verification/Gcs_File.thy ===== *)
theory Gcs_File
  imports Gcs_Fs Read_Seeker
begin

section \<open>Files: reading, seeking, listing\<close>

text \<open>
  Model of the file half of \<^verbatim>\<open>pkg/gcs/fs/gcsfs.go\<close>: \<open>Read\<close> with the 512-byte sniff buffer,
  \<open>Seek\<close> with its three strategies (inside the sniff buffer, skipping forward on the open
  reader, closing and reopening), \<open>Close\<close> and \<open>ReadDir\<close>. Loops over the storage client
  (\<^verbatim>\<open>io.ReadFull\<close>, \<^verbatim>\<open>io.CopyN\<close>, the iterator) may not end for a client that never makes
  progress: they are partial, \<^const>\<open>None\<close> is "does not return", and that they do return for a
  client that keeps to the documented contracts is proved.
\<close>

subsection \<open>Package io\<close>

partial_function (option) readAtLeast ::
  "('w, 'r, 'it) gcs_api \<Rightarrow> 'r \<Rightarrow> nat \<Rightarrow> byte list \<Rightarrow> 'w \<Rightarrow> (byte list \<times> gerror option \<times> 'r \<times> 'w) option" where
  "readAtLeast api r len acc w =
     (if length acc < len then
        (case api_Read api r (len - length acc) w of
           ((bs, err, r'), w') \<Rightarrow>
             (case err of
                None \<Rightarrow> readAtLeast api r' len (acc @ bs) w'
              | Some e \<Rightarrow> Some (acc @ bs, Some e, r', w')))
      else Some (acc, None, r, w))"

definition io_ReadFull ::
  "('w, 'r, 'it) gcs_api \<Rightarrow> 'r \<Rightarrow> nat \<Rightarrow> 'w \<Rightarrow> (byte list \<times> gerror option \<times> 'r \<times> 'w) option" where
  "io_ReadFull api r len w =
     (case readAtLeast api r len [] w of
        None \<Rightarrow> None
      | Some (bs, err, r', w') \<Rightarrow>
          Some (bs,
                (if length bs \<ge> len then None
                 else if length bs > 0 \<and> err = Some EOF then Some ErrUnexpectedEOF else err),
                r', w'))"

text \<open>
  \<^verbatim>\<open>io.CopyN(io.Discard, r, n)\<close>: \<^verbatim>\<open>io.Discard\<close> reads chunks of 8 KiB through a limited reader.
\<close>

partial_function (option) discard_loop ::
  "('w, 'r, 'it) gcs_api \<Rightarrow> 'r \<Rightarrow> nat \<Rightarrow> nat \<Rightarrow> 'w \<Rightarrow> (nat \<times> gerror option \<times> 'r \<times> 'w) option" where
  "discard_loop api r remaining written w =
     (if remaining = 0 then Some (written, None, r, w)
      else
        (case api_Read api r (min 8192 remaining) w of
           ((bs, err, r'), w') \<Rightarrow>
             (case err of
                None \<Rightarrow> discard_loop api r' (remaining - length bs) (written + length bs) w'
              | Some e \<Rightarrow> Some (written + length bs, (if e = EOF then None else Some e), r', w'))))"

definition io_CopyN_Discard ::
  "('w, 'r, 'it) gcs_api \<Rightarrow> 'r \<Rightarrow> nat \<Rightarrow> 'w \<Rightarrow> (nat \<times> gerror option \<times> 'r \<times> 'w) option" where
  "io_CopyN_Discard api r n w =
     (case discard_loop api r n 0 w of
        None \<Rightarrow> None
      | Some (written, err, r', w') \<Rightarrow>
          Some (written,
                (if written = n then None else if written < n \<and> err = None then Some EOF else err),
                r', w'))"

subsection \<open>Close and Read\<close>

definition gcsFile_Close ::
  "('w, 'r, 'it) gcs_api \<Rightarrow> 'w gcsFS \<Rightarrow> env \<Rightarrow> ('r, 'it) gcsFile \<Rightarrow> 'w fs_state
     \<Rightarrow> (gerror option \<times> ('r, 'it) gcsFile \<times> 'w fs_state) option" where
  "gcsFile_Close api fsys en f st =
     (case reader f of
        None \<Rightarrow> Some (None, f, st)
      | Some r \<Rightarrow>
          (case api_Close api r (st_world st) of
             (err, w') \<Rightarrow>
               (let f' = f\<lparr>reader := None\<rparr>; st' = st\<lparr>st_world := w'\<rparr> in
                (case err of
                   None \<Rightarrow> Some (None, f', st')
                 | Some e \<Rightarrow> map_option (\<lambda>(err', st''). (err', f', st''))
                              (translateError api fsys en 1 ''close'' (Some e) f' st')))))"

type_synonym ('r, 'it, 'w) read_out = "((byte list \<times> gerror option) \<times> ('r, 'it) gcsFile \<times> 'w fs_state) option"

abbreviation (input) sniffSize :: nat where
  "sniffSize \<equiv> 512"

text \<open>A failed read returns what was read and the translated error.\<close>

definition read_fail ::
  "('w, 'r, 'it) gcs_api \<Rightarrow> 'w gcsFS \<Rightarrow> env \<Rightarrow> byte list \<Rightarrow> gerror \<Rightarrow> ('r, 'it) gcsFile \<Rightarrow> 'w fs_state
     \<Rightarrow> ('r, 'it, 'w) read_out" where
  "read_fail api fsys en bs e f st =
     map_option (\<lambda>(err, st'). ((bs, err), f, st')) (translateError api fsys en 1 ''read'' (Some e) f st)"

text \<open>Serving from the sniff buffer.\<close>

definition read_sniffed ::
  "'w gcsFS \<Rightarrow> nat \<Rightarrow> byte list \<Rightarrow> ('r, 'it) gcsFile \<Rightarrow> 'w fs_state \<Rightarrow> ('r, 'it, 'w) read_out" where
  "read_sniffed fsys blen sb f st =
     (let bs = take blen (drop (sniffPos f) (take (sniffLen f) sb)); n = length bs in
      Some ((bs, None),
            f\<lparr>sniffPos := sniffPos f + n, pos := wrap64 (pos f + int n)\<rparr>,
            st\<lparr>st_world := recordStreamBytes fsys (int n) (st_world st)\<rparr>))"

text \<open>The first read at position 0: fill the sniff buffer, then serve from it.\<close>

definition read_first ::
  "('w, 'r, 'it) gcs_api \<Rightarrow> 'w gcsFS \<Rightarrow> env \<Rightarrow> nat \<Rightarrow> 'r \<Rightarrow> ('r, 'it) gcsFile \<Rightarrow> 'w fs_state
     \<Rightarrow> ('r, 'it, 'w) read_out" where
  "read_first api fsys en blen r f st =
     (case io_ReadFull api r sniffSize (st_world st) of
        None \<Rightarrow> None
      | Some (sb, readErr, r', w') \<Rightarrow>
          (let n = length sb;
               f1 = f\<lparr>reader := Some r', sniffBuf := Some sb, sniffLen := n\<rparr>;
               st1 = st\<lparr>st_world := w'\<rparr>
           in if n > 0 then
                (let bs = take blen sb; copied = length bs in
                 Some ((bs, None),
                       f1\<lparr>sniffPos := copied, pos := wrap64 (pos f1 + int copied)\<rparr>,
                       st1\<lparr>st_world := recordStreamBytes fsys (int copied) (st_world st1)\<rparr>))
              else
                (case readErr of
                   None \<Rightarrow> Some (([], Some EOF), f1, st1)
                 | Some e \<Rightarrow> (if e \<noteq> ErrUnexpectedEOF \<and> e \<noteq> EOF then read_fail api fsys en [] e f1 st1
                              else Some (([], Some EOF), f1, st1)))))"

text \<open>Reading straight from the open reader.\<close>

definition read_through ::
  "('w, 'r, 'it) gcs_api \<Rightarrow> 'w gcsFS \<Rightarrow> env \<Rightarrow> nat \<Rightarrow> 'r \<Rightarrow> ('r, 'it) gcsFile \<Rightarrow> 'w fs_state
     \<Rightarrow> ('r, 'it, 'w) read_out" where
  "read_through api fsys en blen r f st =
     (case api_Read api r blen (st_world st) of
        ((bs, err, r'), w') \<Rightarrow>
          (let f1 = f\<lparr>reader := Some r', pos := wrap64 (pos f + int (length bs))\<rparr>;
               st1 = st\<lparr>st_world := recordStreamBytes fsys (int (length bs)) w'\<rparr>
           in (case err of
                 None \<Rightarrow> Some ((bs, None), f1, st1)
               | Some e \<Rightarrow> (if e \<noteq> EOF then read_fail api fsys en bs e f1 st1
                            else Some ((bs, Some e), f1, st1)))))"

definition gcsFile_Read ::
  "('w, 'r, 'it) gcs_api \<Rightarrow> 'w gcsFS \<Rightarrow> env \<Rightarrow> nat \<Rightarrow> ('r, 'it) gcsFile \<Rightarrow> 'w fs_state
     \<Rightarrow> ('r, 'it, 'w) read_out" where
  "gcsFile_Read api fsys en blen f st =
     (if sniffBuf f \<noteq> None \<and> sniffPos f < sniffLen f \<and> pos f < int (sniffLen f)
      then read_sniffed fsys blen (the (sniffBuf f)) f st
      else
        (case reader f of
           Some r \<Rightarrow> read_through api fsys en blen r f st
         | None \<Rightarrow>
             (let readerStart = api_Now api (st_world st) in
              case api_NewRangeReader api (object_path fsys (name f)) (fs_ctx fsys) (pos f) (-1) (st_world st) of
                (res, w1) \<Rightarrow>
                  (let st1 = st\<lparr>st_world := recordGCSOp api fsys ''read'' readerStart (err_of res) w1\<rparr> in
                   case res of
                     Inl e \<Rightarrow> read_fail api fsys en [] e f st1
                   | Inr r \<Rightarrow>
                       (let f1 = f\<lparr>reader := Some r\<rparr> in
                        if pos f = 0 \<and> sniffBuf f = None then read_first api fsys en blen r f1 st1
                        else read_through api fsys en blen r f1 st1)))))"

subsection \<open>Seek\<close>

abbreviation (input) SeekStart :: int where
  "SeekStart \<equiv> 0"

abbreviation (input) SeekCurrent :: int where
  "SeekCurrent \<equiv> 1"

abbreviation (input) SeekEnd :: int where
  "SeekEnd \<equiv> 2"

abbreviation (input) seekSkipThreshold :: int where
  "seekSkipThreshold \<equiv> 32 * 1024"

text \<open>
  The \<^verbatim>\<open>switch\<close> on \<^verbatim>\<open>whence\<close>: the target position, which may be negative. A \<^verbatim>\<open>Stat\<close> that
  returned neither an error nor information would be dereferenced: that panic is \<^const>\<open>None\<close>.
\<close>

definition seek_target ::
  "('w, 'r, 'it) gcs_api \<Rightarrow> 'w gcsFS \<Rightarrow> env \<Rightarrow> int \<Rightarrow> int \<Rightarrow> ('r, 'it) gcsFile \<Rightarrow> 'w fs_state
     \<Rightarrow> ((gerror + int) \<times> ('r, 'it) gcsFile \<times> 'w fs_state) option" where
  "seek_target api fsys en offset whence f st =
     (if whence = SeekStart then Some (Inr offset, f, st)
      else if whence = SeekCurrent then Some (Inr (wrap64 (pos f + offset)), f, st)
      else if whence = SeekEnd then
        (if sizeKnown f then Some (Inr (wrap64 (fsize f + offset)), f, st)
         else
           (case gcsFile_Stat api fsys en f st of
              None \<Rightarrow> None
            | Some (Inl None, _) \<Rightarrow> None
            | Some (Inl (Some e), st1) \<Rightarrow> Some (Inl e, f, st1)
            | Some (Inr info, st1) \<Rightarrow>
                (let f1 = f\<lparr>fsize := fi_Size info, sizeKnown := True\<rparr>
                 in Some (Inr (wrap64 (fsize f1 + offset)), f1, st1))))
      else Some (Inl ErrInvalidWhence, f, st))"

text \<open>\<^verbatim>\<open>if f.reader != nil { _ = f.reader.Close(); f.reader = nil }\<close>\<close>

definition drop_reader ::
  "('w, 'r, 'it) gcs_api \<Rightarrow> ('r, 'it) gcsFile \<Rightarrow> 'w fs_state \<Rightarrow> ('r, 'it) gcsFile \<times> 'w fs_state" where
  "drop_reader api f st =
     (case reader f of
        None \<Rightarrow> (f, st)
      | Some r \<Rightarrow> (f\<lparr>reader := None\<rparr>, st\<lparr>st_world := snd (api_Close api r (st_world st))\<rparr>))"

definition seek_sniffed ::
  "('w, 'r, 'it) gcs_api \<Rightarrow> int \<Rightarrow> ('r, 'it) gcsFile \<Rightarrow> 'w fs_state \<Rightarrow> ('r, 'it) gcsFile \<times> 'w fs_state" where
  "seek_sniffed api newPos f st =
     (case (if pos f > int (sniffLen f) then drop_reader api f st else (f, st)) of
        (f1, st1) \<Rightarrow> (f1\<lparr>pos := newPos, sniffPos := nat newPos\<rparr>, st1))"

definition seek_reopen ::
  "('w, 'r, 'it) gcs_api \<Rightarrow> int \<Rightarrow> ('r, 'it) gcsFile \<Rightarrow> 'w fs_state \<Rightarrow> ('r, 'it) gcsFile \<times> 'w fs_state" where
  "seek_reopen api newPos f st = drop_reader api (f\<lparr>pos := newPos\<rparr>) st"

text \<open>Moving to a target that is not negative.\<close>

definition seek_to ::
  "('w, 'r, 'it) gcs_api \<Rightarrow> int \<Rightarrow> ('r, 'it) gcsFile \<Rightarrow> 'w fs_state \<Rightarrow> (('r, 'it) gcsFile \<times> 'w fs_state) option" where
  "seek_to api newPos f st =
     (if sniffBuf f \<noteq> None \<and> newPos < int (sniffLen f) then Some (seek_sniffed api newPos f st)
      else
        (let sniffFullyConsumed = (sniffBuf f = None \<or> sniffPos f \<ge> sniffLen f);
             skip = wrap64 (newPos - pos f)
         in if reader f \<noteq> None \<and> sniffFullyConsumed \<and> skip > 0 \<and> skip \<le> seekSkipThreshold then
              (case io_CopyN_Discard api (the (reader f)) (nat skip) (st_world st) of
                 None \<Rightarrow> None
               | Some (discarded, err, r', w') \<Rightarrow>
                   (let f1 = f\<lparr>reader := Some r', pos := wrap64 (pos f + int discarded)\<rparr>;
                        st1 = st\<lparr>st_world := w'\<rparr>
                    in if err = None then Some (f1, st1) else Some (seek_reopen api newPos f1 st1)))
            else Some (seek_reopen api newPos f st)))"

definition gcsFile_Seek ::
  "('w, 'r, 'it) gcs_api \<Rightarrow> 'w gcsFS \<Rightarrow> env \<Rightarrow> int \<Rightarrow> int \<Rightarrow> ('r, 'it) gcsFile \<Rightarrow> 'w fs_state
     \<Rightarrow> ((int \<times> gerror option) \<times> ('r, 'it) gcsFile \<times> 'w fs_state) option" where
  "gcsFile_Seek api fsys en offset whence f st =
     (case seek_target api fsys en offset whence f st of
        None \<Rightarrow> None
      | Some (Inl e, f1, st1) \<Rightarrow> Some ((0, Some e), f1, st1)
      | Some (Inr newPos, f1, st1) \<Rightarrow>
          (if newPos < 0 then
             Some ((0, Some (PathError ''seek'' (name f1) ErrInvalid)), f1\<lparr>pos := 0\<rparr>, st1)
           else
             (case seek_to api newPos f1 st1 of
                None \<Rightarrow> None
              | Some (f2, st2) \<Rightarrow> Some ((pos f2, None), f2, st2))))"

subsection \<open>ReadDir\<close>

definition iteratorFor :: "('w, 'r, 'it) gcs_api \<Rightarrow> 'w gcsFS \<Rightarrow> string \<Rightarrow> 'it" where
  "iteratorFor api fsys nm = api_Objects api (fs_ctx fsys) (dir_query fsys nm)"

text \<open>
  The loop of \<open>ReadDir\<close>: it leaves with the entries, the error of the iterator if one ended
  the loop, and the iterator.
\<close>

partial_function (option) readdir_loop ::
  "('w, 'r, 'it) gcs_api \<Rightarrow> int \<Rightarrow> 'it \<Rightarrow> gcsFileInfo list \<Rightarrow> 'w
     \<Rightarrow> (gcsFileInfo list \<times> gerror option \<times> 'it \<times> 'w) option" where
  "readdir_loop api n it result w =
     (case api_Next api it w of
        (Inl e, it', w') \<Rightarrow> Some (result, Some e, it', w')
      | (Inr oa, it', w') \<Rightarrow>
          (let result' = result @ [\<lparr>fi_attrs = oa\<rparr>]
           in if n > 0 \<and> int (length result') = n then Some (result', None, it', w')
              else readdir_loop api n it' result' w'))"

definition gcsFile_ReadDir ::
  "('w, 'r, 'it) gcs_api \<Rightarrow> 'w gcsFS \<Rightarrow> env \<Rightarrow> int \<Rightarrow> ('r, 'it) gcsFile \<Rightarrow> 'w fs_state
     \<Rightarrow> ((gcsFileInfo list \<times> gerror option) \<times> ('r, 'it) gcsFile \<times> 'w fs_state) option" where
  "gcsFile_ReadDir api fsys en n f st =
     (let it = (case diter f of None \<Rightarrow> iteratorFor api fsys (name f) | Some it \<Rightarrow> it) in
      case readdir_loop api n it [] (st_world st) of
        None \<Rightarrow> None
      | Some (result, err, it', w') \<Rightarrow>
          (let f1 = f\<lparr>diter := Some it'\<rparr>; st1 = st\<lparr>st_world := w'\<rparr> in
           case err of
             None \<Rightarrow> Some ((result, None), f1, st1)
           | Some e \<Rightarrow>
               (if errors_Is e IteratorDone then
                  Some ((result, (if n \<le> 0 then None else Some EOF)), f1, st1)
                else map_option (\<lambda>(err', st2). ((result, err'), f1, st2))
                       (translateError api fsys en 1 ''readdir'' (Some e) f1 st1))))"

subsection \<open>The contract of the storage client's readers\<close>

text \<open>
  \<open>faithful api p at content\<close>: the readers of object \<open>p\<close> deliver \<open>content\<close>. \<open>at r i\<close> says that
  reader \<open>r\<close> stands at byte \<open>i\<close>. A range reader that opens stands somewhere in the object, and at
  the requested offset if that is not negative; a read hands out bytes from where it stands,
  never more than asked for, and moves on by as many; end-of-file is signalled only at the end,
  by a read or when opening; a read that reports no error into a non-empty buffer makes
  progress, as \<^verbatim>\<open>io.Reader\<close> asks. Opening and reading may fail at any point, and a stream may be
  cut off (\<^verbatim>\<open>io.ErrUnexpectedEOF\<close>) at any point: \<open>cuts api\<close> says that the client has such reads.
\<close>

definition faithful :: "('w, 'r, 'it) gcs_api \<Rightarrow> string \<Rightarrow> ('r \<Rightarrow> nat \<Rightarrow> bool) \<Rightarrow> byte list \<Rightarrow> bool" where
  "faithful api p at content \<longleftrightarrow>
     (\<forall>ctx off w r w'. api_NewRangeReader api p ctx off (-1) w = (Inr r, w') \<longrightarrow>
        (\<exists>i. at r i) \<and> (0 \<le> off \<longrightarrow> at r (nat off))) \<and>
     (\<forall>ctx off w w'. 0 \<le> off \<longrightarrow> api_NewRangeReader api p ctx off (-1) w = (Inl EOF, w') \<longrightarrow> length content \<le> nat off) \<and>
     (\<forall>r i n w bs err r' w'. at r i \<longrightarrow> api_Read api r n w = ((bs, err, r'), w') \<longrightarrow>
        length bs \<le> n \<and> segment content i bs \<and> at r' (i + length bs) \<and>
        (err = Some EOF \<longrightarrow> length content \<le> i + length bs) \<and>
        (err = None \<and> 0 < n \<longrightarrow> bs \<noteq> []))"

definition cuts :: "('w, 'r, 'it) gcs_api \<Rightarrow> bool" where
  "cuts api \<longleftrightarrow> (\<exists>r n w bs r' w'. api_Read api r n w = ((bs, Some ErrUnexpectedEOF, r'), w'))"

lemma faithful_open:
  "faithful api p at content \<Longrightarrow> 0 \<le> off \<Longrightarrow> api_NewRangeReader api p ctx off (-1) w = (Inr r, w') \<Longrightarrow> at r (nat off)"
  unfolding faithful_def by blast

lemma faithful_open_somewhere:
  "faithful api p at content \<Longrightarrow> api_NewRangeReader api p ctx off (-1) w = (Inr r, w') \<Longrightarrow> \<exists>i. at r i"
  unfolding faithful_def by blast

lemma faithful_open_EOF:
  "faithful api p at content \<Longrightarrow> 0 \<le> off \<Longrightarrow> api_NewRangeReader api p ctx off (-1) w = (Inl EOF, w') \<Longrightarrow>
   length content \<le> nat off"
  unfolding faithful_def by blast

lemma faithful_read:
  assumes "faithful api p at content" and "at r i" and "api_Read api r n w = ((bs, err, r'), w')"
  shows "length bs \<le> n" and "segment content i bs" and "at r' (i + length bs)"
    and "err = Some EOF \<Longrightarrow> length content \<le> i + length bs"
    and "err = None \<Longrightarrow> 0 < n \<Longrightarrow> bs \<noteq> []"
  using assms unfolding faithful_def by blast+

text \<open>The loops over a reader return, with the bytes they went over.\<close>

lemma readAtLeast_returns:
  assumes "faithful api p at content"
    and Q: "Q None" "\<forall>r n w bs err r' w'. api_Read api r n w = ((bs, err, r'), w') \<longrightarrow> Q err"
  shows "length acc \<le> len \<Longrightarrow> at r i \<Longrightarrow>
    \<exists>bs err r' w'. readAtLeast api r len acc w = Some (acc @ bs, err, r', w') \<and>
      segment content i bs \<and> at r' (i + length bs) \<and> length acc + length bs \<le> len \<and>
      (err = None \<longrightarrow> length acc + length bs = len) \<and> Q err \<and>
      (err = Some EOF \<longrightarrow> length content \<le> i + length bs)"
proof (induction "len - length acc" arbitrary: acc r i w rule: less_induct)
  case less
  show ?case
  proof (cases "length acc < len")
    case False
    with less.prems Q(1) show ?thesis by (subst readAtLeast.simps) auto
  next
    case True
    obtain bs err r1 w1 where rd: "api_Read api r (len - length acc) w = ((bs, err, r1), w1)"
      by (metis prod.exhaust)
    note f = faithful_read [OF assms(1) less.prems(2) rd]
    have step: "readAtLeast api r len acc w =
        (case err of None \<Rightarrow> readAtLeast api r1 len (acc @ bs) w1 | Some e \<Rightarrow> Some (acc @ bs, Some e, r1, w1))"
      using True rd by (subst readAtLeast.simps) simp
    show ?thesis
    proof (cases err)
      case (Some e)
      with step f(1-4) less.prems(1) Q(2) [rule_format, OF rd] show ?thesis by auto
    next
      case None
      with f(5) True have "bs \<noteq> []" by simp
      then have "len - length (acc @ bs) < len - length acc" using True by (cases bs) auto
      moreover from f(1) True have "length (acc @ bs) \<le> len" by simp
      ultimately obtain bs' err' r' w' where ih: "readAtLeast api r1 len (acc @ bs) w1 = Some ((acc @ bs) @ bs', err', r', w')"
        "segment content (i + length bs) bs'" "at r' (i + length bs + length bs')"
        "length (acc @ bs) + length bs' \<le> len" "err' = None \<longrightarrow> length (acc @ bs) + length bs' = len" "Q err'"
        "err' = Some EOF \<longrightarrow> length content \<le> i + length bs + length bs'"
        using less.hyps [of "acc @ bs" r1 "i + length bs" w1] f(3) by blast
      with step None segment_append [OF f(2) ih(2)] show ?thesis
        by (intro exI [of _ "bs @ bs'"] exI [of _ err'] exI [of _ r'] exI [of _ w']) (simp add: add.assoc)
    qed
  qed
qed

lemma io_ReadFull_returns:
  assumes "faithful api p at content" and "at r i" and "0 < len"
    and Q: "Q None" "\<forall>r n w bs err r' w'. api_Read api r n w = ((bs, err, r'), w') \<longrightarrow> Q err"
  shows "\<exists>bs err r' w'. io_ReadFull api r len w = Some (bs, err, r', w') \<and> segment content i bs \<and>
      at r' (i + length bs) \<and> length bs \<le> len \<and> (bs = [] \<longrightarrow> err \<noteq> None \<and> Q err) \<and>
      (bs = [] \<and> err = Some EOF \<longrightarrow> length content \<le> i)"
proof -
  from readAtLeast_returns [where Q = Q and acc = "[]" and len = len and w = w, OF assms(1) Q _ assms(2)] obtain bs err r' w'
    where r: "readAtLeast api r len [] w = Some (bs, err, r', w')" "segment content i bs" "at r' (i + length bs)"
      "length bs \<le> len" "err = None \<longrightarrow> length bs = len" "Q err"
      "err = Some EOF \<longrightarrow> length content \<le> i + length bs"
    by auto
  then show ?thesis using assms(3) by (auto simp: io_ReadFull_def)
qed

lemma discard_loop_returns:
  assumes "faithful api p at content"
  shows "at r i \<Longrightarrow>
    \<exists>k err r' w'. discard_loop api r n written w = Some (written + k, err, r', w') \<and> k \<le> n \<and> at r' (i + k)"
proof (induction n arbitrary: r i written w rule: less_induct)
  case (less n)
  show ?case
  proof (cases "n = 0")
    case True
    with less.prems show ?thesis by (subst discard_loop.simps) auto
  next
    case False
    obtain bs err r1 w1 where rd: "api_Read api r (min 8192 n) w = ((bs, err, r1), w1)"
      by (metis prod.exhaust)
    note f = faithful_read [OF assms less.prems rd]
    have step: "discard_loop api r n written w =
        (case err of None \<Rightarrow> discard_loop api r1 (n - length bs) (written + length bs) w1
         | Some e \<Rightarrow> Some (written + length bs, (if e = EOF then None else Some e), r1, w1))"
      using False rd by (subst discard_loop.simps) simp
    show ?thesis
    proof (cases err)
      case (Some e)
      with step f(1,3) show ?thesis by auto
    next
      case None
      with f(5) False have "n - length bs < n" by simp
      from less.IH [OF this f(3), of "written + length bs" w1] obtain k err' r' w'
        where "discard_loop api r1 (n - length bs) (written + length bs) w1 = Some (written + length bs + k, err', r', w')"
          "k \<le> n - length bs" "at r' (i + length bs + k)" by blast
      moreover from this f(1) have "length bs + k \<le> n" by simp arith
      ultimately show ?thesis using step None
        by (intro exI [of _ "length bs + k"] exI [of _ err'] exI [of _ r'] exI [of _ w']) (simp add: add.assoc)
    qed
  qed
qed

lemma io_CopyN_Discard_returns:
  assumes "faithful api p at content" and "at r i"
  shows "\<exists>k err r' w'. io_CopyN_Discard api r n w = Some (k, err, r', w') \<and> k \<le> n \<and> at r' (i + k) \<and>
    (err = None \<longrightarrow> k = n)"
proof -
  from discard_loop_returns [OF assms, of n 0 w] obtain k err r' w'
    where "discard_loop api r n 0 w = Some (k, err, r', w')" "k \<le> n" "at r' (i + k)" by auto
  then show ?thesis by (auto simp: io_CopyN_Discard_def)
qed

subsection \<open>What the file learns about the object's size\<close>

text \<open>
  \<open>SeekEnd\<close> counts from the size \<open>Stat\<close> reports. \<open>sized api p S\<close>: the sizes the client reports
  for object \<open>p\<close> satisfy \<open>S\<close> (an object reported missing is taken for a directory, of size 0);
  \<open>sized_state k S st\<close>: so do those cached under \<open>k\<close>. With \<open>S\<close> everywhere true, both say no
  more than the invariant of the cache.
\<close>

definition sized :: "('w, 'r, 'it) gcs_api \<Rightarrow> string \<Rightarrow> (int \<Rightarrow> bool) \<Rightarrow> bool" where
  "sized api p S \<longleftrightarrow>
     (\<forall>ctx w. case fst (api_Attrs api p ctx w) of
        Inr oa \<Rightarrow> S (oa_Size oa)
      | Inl e \<Rightarrow> errors_Is e ErrObjectNotExist \<longrightarrow> S 0)"

definition size_entry :: "string \<Rightarrow> (int \<Rightarrow> bool) \<Rightarrow> string \<Rightarrow> attrs_ptr \<Rightarrow> int \<Rightarrow> bool" where
  "size_entry k S k' a t \<longleftrightarrow> (k' = k \<longrightarrow> (\<forall>oa. a = Attrs oa \<longrightarrow> S (oa_Size oa)))"

definition sized_state :: "string \<Rightarrow> (int \<Rightarrow> bool) \<Rightarrow> 'w fs_state \<Rightarrow> bool" where
  "sized_state k S st \<longleftrightarrow> st_inv st \<and> (\<forall>c. st_cache st = Some c \<longrightarrow> all_entries cache_peek (size_entry k S) c)"

lemma sized_state_inv: "sized_state k S st \<Longrightarrow> st_inv st"
  by (simp add: sized_state_def)

lemma sized_state_any [simp]: "sized_state k (\<lambda>_. True) st = st_inv st"
  by (auto simp: sized_state_def all_entries_def size_entry_def)

lemma sized_any [simp]: "sized api p (\<lambda>_. True)"
  by (simp add: sized_def split: sum.split)

lemma sized_state_world [simp]: "sized_state k S (st\<lparr>st_world := w\<rparr>) = sized_state k S st"
  by (simp add: sized_state_def)

lemma sized_state_cong: "st_cache st' = st_cache st \<Longrightarrow> sized_state k S st' = sized_state k S st"
  by (simp add: sized_state_def st_inv_def)

lemma sized_store:
  assumes "sized_state k S st" and "store_ok k v st st'" and "\<forall>oa. v = Attrs oa \<longrightarrow> S (oa_Size oa)"
  shows "sized_state k S st'"
proof (cases "st_cache st")
  case (Some c)
  with assms obtain c' n1 n2 rnd where c': "st_cache st' = Some c'" "cache_put n1 n2 rnd k v c = Some c'"
    and c: "cache_inv c" "all_entries cache_peek (size_entry k S) c"
    by (auto simp: sized_state_def store_ok_def st_inv_def)
  have "\<forall>t. size_entry k S k v t" using assms(3) by (simp add: size_entry_def)
  from attr_cache.put_keeps_entries [OF c this c'(2)] attr_cache.put_inv [OF c(1) c'(2)] c'(1)
  show ?thesis by (simp add: sized_state_def st_inv_def)
qed (use assms in \<open>auto simp: sized_state_def store_ok_def st_inv_def\<close>)

lemma translateError_sized:
  assumes "sized_state (fullPath f) S st"
  shows "\<exists>st'. translateError api fsys en i op (Some e) f st = Some (Some (translated op (name f) e), st') \<and>
    sized_state (fullPath f) S st'"
proof -
  obtain st1 where "cacheNotFound en i f st = Some st1" "store_ok (fullPath f) SentinelNotFound st st1"
    using cacheNotFound_ok [OF sized_state_inv [OF assms]] by blast
  then show ?thesis
    using sized_store [OF assms] assms by (auto simp: translateError_def translated_def split: option.splits)
qed

text \<open>\<open>Stat\<close> returns, reports only such sizes and caches only such sizes, or reports a translated error.\<close>

definition stat_sized :: "(int \<Rightarrow> bool) \<Rightarrow> ('r, 'it) gcsFile \<Rightarrow> ((gerror option + gcsFileInfo) \<times> 'w fs_state) option \<Rightarrow> bool" where
  "stat_sized S f out \<longleftrightarrow>
     (\<exists>r st'. out = Some (r, st') \<and> sized_state (fullPath f) S st' \<and>
        (case r of Inr info \<Rightarrow> S (fi_Size info) | Inl err \<Rightarrow> (\<exists>e. err = Some (translated ''stat'' (name f) e))))"

lemma stat_fail_sized: "sized_state (fullPath f) S st \<Longrightarrow> stat_sized S f (stat_fail api fsys en i e f st)"
  using translateError_sized [of f S st api fsys en i "''stat''" e] by (auto simp: stat_fail_def stat_sized_def)

lemma stat_found_sized:
  assumes "sized_state (fullPath f) S st" and "S (oa_Size oa)"
  shows "stat_sized S f (stat_found en i (fullPath f) oa st)"
proof -
  obtain st1 where "cacheAttrs en i (fullPath f) oa st = Some st1" "store_ok (fullPath f) (Attrs oa) st st1"
    using cacheAttrs_ok [OF sized_state_inv [OF assms(1)]] by blast
  with sized_store [OF assms(1), of "Attrs oa" st1] assms(2) show ?thesis
    by (simp add: stat_found_def stat_sized_def fi_Size_def)
qed

lemma stat_probe_sized:
  assumes "sized_state (fullPath f) S st" and "S 0"
  shows "stat_sized S f (stat_probe api fsys en f st)"
proof -
  let ?it = "api_Objects api (opCtx fsys (api_Now api (st_world st))) (dir_query fsys (name f))"
  obtain res it' w1 where n: "api_Next api ?it (st_world st) = (res, it', w1)" by (metis prod.exhaust)
  show ?thesis
  proof (cases res)
    case (Inr oa)
    with n assms show ?thesis by (simp add: stat_probe_def stat_found_sized dir_attrs_def)
  next
    case (Inl e)
    let ?st1 = "st\<lparr>st_world := recordGCSOp api fsys ''list'' (api_Now api (st_world st)) (Some e) w1\<rparr>"
    have i: "sized_state (fullPath f) S ?st1" using assms by simp
    obtain st2 where st2: "(if errors_Is e IteratorDone then cacheNotFound en 1 f ?st1 else Some ?st1) = Some st2"
      "sized_state (fullPath f) S st2"
      using cacheNotFound_ok [OF sized_state_inv [OF i], of en 1 f] sized_store [OF i, of SentinelNotFound] i
      by (metis attrs_ptr.distinct(1))
    have "stat_probe api fsys en f st = stat_fail api fsys en 2 ErrObjectNotExist f st2"
      using n Inl st2(1) by (auto simp: stat_probe_def Let_def split: if_splits)
    then show ?thesis by (simp only: stat_fail_sized [OF st2(2)])
  qed
qed

lemma stat_uncached_sized:
  assumes "sized_state (fullPath f) S st" and "sized api (object_path fsys (name f)) S" and "name f = [] \<longrightarrow> S 0"
  shows "stat_sized S f (stat_uncached api fsys en f st)"
proof (cases "name f = []")
  case True
  with assms show ?thesis by (simp add: stat_uncached_def stat_found_sized dir_attrs_def)
next
  case False
  let ?ctx = "opCtx fsys (api_Now api (st_world st))"
  obtain res w1 where a: "api_Attrs api (object_path fsys (name f)) ?ctx (st_world st) = (res, w1)"
    by (metis prod.exhaust)
  then have "case res of Inr oa \<Rightarrow> S (oa_Size oa) | Inl e \<Rightarrow> errors_Is e ErrObjectNotExist \<longrightarrow> S 0"
    using assms(2) unfolding sized_def by (metis fst_conv)
  with a False assms(1) show ?thesis
    by (cases res) (simp_all add: stat_uncached_def Let_def stat_fail_sized stat_found_sized stat_probe_sized)
qed

lemma gcsFile_Stat_sized:
  assumes "sized_state (fullPath f) S st" and "sized api (object_path fsys (name f)) S" and "name f = [] \<longrightarrow> S 0"
  shows "stat_sized S f (gcsFile_Stat api fsys en f st)"
proof (cases "st_cache st")
  case None
  with stat_uncached_sized [OF assms] show ?thesis by (simp add: gcsFile_Stat_def)
next
  case (Some c)
  with assms(1) have c: "cache_inv c" "all_entries cache_peek (size_entry (fullPath f) S) c"
    by (auto simp: sized_state_def st_inv_def)
  obtain r c1 where g: "cache_get (e_clk en 0) (e_clk en 1) (fullPath f) c = Some (r, c1)" "cache_inv c1"
    using attr_cache.get_total [OF c(1)] by blast
  have i: "sized_state (fullPath f) S (st\<lparr>st_cache := Some c1, st_world := w\<rparr>)" for w
    using attr_cache.get_keeps_entries [OF c g(1)] g(2) by (simp add: sized_state_def st_inv_def)
  show ?thesis
  proof (cases r)
    case None
    with Some g(1) stat_uncached_sized [OF i assms(2,3)] show ?thesis by (simp add: gcsFile_Stat_def)
  next
    case hit: (Some a)
    with attr_cache.get_hit_entry [OF c] g(1) have "\<forall>oa. a = Attrs oa \<longrightarrow> S (oa_Size oa)"
      by (auto simp: size_entry_def)
    then have "stat_sized S f (Some (Inr \<lparr>fi_attrs = deref a\<rparr>, st\<lparr>st_cache := Some c1, st_world := w\<rparr>))"
      if "\<not> isNegative a" for w
      using i that by (cases a) (auto simp: isNegative_def stat_sized_def fi_Size_def deref_def)
    with hit Some g(1) i show ?thesis by (simp add: gcsFile_Stat_def stat_fail_sized Let_def)
  qed
qed

subsection \<open>The file's invariant\<close>

text \<open>
  \<open>file_inv at content f\<close>: the sniff buffer holds the head of the object and \<open>sniffPos\<close>
  agrees with the position while that is inside it; an open reader stands at the end of the
  sniff buffer then, and at the position otherwise.
\<close>

definition file_inv :: "('r \<Rightarrow> nat \<Rightarrow> bool) \<Rightarrow> byte list \<Rightarrow> ('r, 'it) gcsFile \<Rightarrow> bool" where
  "file_inv at content f \<longleftrightarrow>
     0 \<le> pos f \<and> pos f < 2 ^ 63 \<and> int (length content) < 2 ^ 63 \<and>
     (case sniffBuf f of
        None \<Rightarrow> sniffLen f = 0
      | Some sb \<Rightarrow> sniffLen f = length sb \<and> segment content 0 sb \<and>
          (pos f < int (sniffLen f) \<longrightarrow> sniffPos f = nat (pos f))) \<and>
     (\<forall>r. reader f = Some r \<longrightarrow> at r (if pos f < int (sniffLen f) then sniffLen f else nat (pos f)))"

lemma file_inv_pos: "file_inv at content f \<Longrightarrow> 0 \<le> pos f \<and> pos f < 2 ^ 63 \<and> int (length content) < 2 ^ 63"
  by (simp add: file_inv_def)

lemma file_inv_sniff:
  assumes "file_inv at content f" and "sniffBuf f = Some sb"
  shows "sniffLen f = length sb" and "segment content 0 sb" and "pos f < int (sniffLen f) \<Longrightarrow> sniffPos f = nat (pos f)"
  using assms by (auto simp: file_inv_def)

lemma file_inv_reader:
  "file_inv at content f \<Longrightarrow> reader f = Some r \<Longrightarrow> at r (if pos f < int (sniffLen f) then sniffLen f else nat (pos f))"
  by (simp add: file_inv_def)

lemma file_inv_no_sniff: "file_inv at content f \<Longrightarrow> sniffBuf f = None \<Longrightarrow> sniffLen f = 0"
  by (simp add: file_inv_def)

text \<open>A position past a delivered segment is still a file position.\<close>

lemma segment_pos:
  assumes "segment content (nat p) bs" and "0 \<le> p" and "p < 2 ^ 63" and "int (length content) < 2 ^ 63"
  shows "wrap64 (p + int (length bs)) = p + int (length bs)" and "p + int (length bs) < 2 ^ 63"
proof -
  have "p + int (length bs) < 2 ^ 63" using segment_bound [OF assms(1)] assms(2-4) by auto
  then show "wrap64 (p + int (length bs)) = p + int (length bs)" and "p + int (length bs) < 2 ^ 63"
    using assms(2) by (simp_all add: i64_simps)
qed

text \<open>The file of a successful \<open>Open\<close> satisfies the invariant.\<close>

lemma fs_Open_file_inv:
  "fs_Open fsys nm = Inr f \<Longrightarrow> int (length content) < 2 ^ 63 \<Longrightarrow> file_inv at content f \<and> pos f = 0"
  by (auto simp: fs_Open_def file_inv_def Let_def split: if_splits)

subsection \<open>Reading keeps the invariant and delivers the object\<close>

definition same_object :: "('r, 'it) gcsFile \<Rightarrow> ('r, 'it) gcsFile \<Rightarrow> bool" where
  "same_object f f' \<longleftrightarrow> name f' = name f \<and> fullPath f' = fullPath f \<and> diter f' = diter f \<and>
     (sizeKnown f \<longrightarrow> sizeKnown f' \<and> fsize f' = fsize f) \<and> (sniffBuf f \<noteq> None \<longrightarrow> sniffBuf f' \<noteq> None)"

text \<open>
  \<open>read_ok cutoff S at content blen f out\<close>: the call returned, and what it returned. If the client
  cuts streams off (\<open>cutoff\<close>), the read that fills the sniff buffer may report end-of-file early.
\<close>

definition early_eof :: "bool \<Rightarrow> ('r, 'it) gcsFile \<Rightarrow> byte list \<Rightarrow> bool" where
  "early_eof cutoff f bs \<longleftrightarrow> cutoff \<and> sniffBuf f = None \<and> pos f = 0 \<and> bs = []"

definition read_ok ::
  "bool \<Rightarrow> (int \<Rightarrow> bool) \<Rightarrow> ('r \<Rightarrow> nat \<Rightarrow> bool) \<Rightarrow> byte list \<Rightarrow> nat \<Rightarrow> ('r, 'it) gcsFile \<Rightarrow> ('r, 'it, 'w) read_out \<Rightarrow> bool" where
  "read_ok cutoff S at content blen f out \<longleftrightarrow>
     (\<exists>bs err f' st'. out = Some ((bs, err), f', st') \<and> file_inv at content f' \<and> same_object f f' \<and>
        fsize f' = fsize f \<and> sizeKnown f' = sizeKnown f \<and> sized_state (fullPath f) S st' \<and>
        length bs \<le> blen \<and> segment content (nat (pos f)) bs \<and> pos f' = pos f + int (length bs) \<and>
        (err = Some EOF \<longrightarrow> length content \<le> nat (pos f') \<or> early_eof cutoff f bs) \<and>
        (err = None \<and> 0 < blen \<longrightarrow> bs \<noteq> []))"

lemma translated_EOF: "translated op nm e = EOF \<longleftrightarrow> e = EOF"
  by (cases e) (auto simp: translated_def split: option.splits)

lemma read_fail_ok:
  assumes "file_inv at content f'" and "same_object f f'" and "sized_state (fullPath f) S st" and "length bs \<le> blen"
    and "segment content (nat (pos f)) bs" and "pos f' = pos f + int (length bs)"
    and "e = EOF \<Longrightarrow> length content \<le> nat (pos f')" and "fsize f' = fsize f" and "sizeKnown f' = sizeKnown f"
  shows "read_ok cutoff S at content blen f (read_fail api fsys en bs e f' st)"
proof -
  have "fullPath f' = fullPath f" using assms(2) by (simp add: same_object_def)
  then obtain st' where "translateError api fsys en 1 ''read'' (Some e) f' st = Some (Some (translated ''read'' (name f') e), st')"
    "sized_state (fullPath f) S st'"
    using translateError_sized [of f' S st api fsys en 1 "''read''" e] assms(3) by auto
  then show ?thesis using assms(1,2,4-9) by (auto simp: read_ok_def read_fail_def translated_EOF)
qed

lemma read_sniffed_ok:
  assumes inv: "file_inv at content f" "sized_state (fullPath f) S st" and sb: "sniffBuf f = Some sb"
    and inside: "sniffPos f < sniffLen f" "pos f < int (sniffLen f)"
  shows "read_ok cutoff S at content blen f (read_sniffed fsys blen sb f st)"
proof -
  note s = file_inv_sniff [OF inv(1) sb]
  let ?bs = "take blen (drop (sniffPos f) sb)"
  have sp: "sniffPos f = nat (pos f)" using s(3) inside by simp
  have seg: "segment content (nat (pos f)) ?bs"
    using segment_take [OF segment_drop [OF s(2)], of "sniffPos f" blen] sp inside s(1) by simp
  note p = segment_pos [OF seg]
  from file_inv_pos [OF inv(1)] p have p': "wrap64 (pos f + int (length ?bs)) = pos f + int (length ?bs)"
    "pos f + int (length ?bs) < 2 ^ 63" by auto
  let ?f = "f\<lparr>sniffPos := sniffPos f + length ?bs, pos := pos f + int (length ?bs)\<rparr>"
  have le: "pos f + int (length ?bs) \<le> int (length sb)" using sp inside s(1) by auto
  have "file_inv at content ?f" "fullPath ?f = fullPath f"
    using inv(1) s inside sb p'(2) sp le by (auto simp: file_inv_def nat_add_distrib split: if_splits)
  moreover have "same_object f ?f" by (simp add: same_object_def)
  moreover have "0 < blen \<Longrightarrow> ?bs \<noteq> []" "length ?bs \<le> blen" using inside(1) s(1) by simp_all
  ultimately show ?thesis using inv(2) s(1) seg p'(1)
    unfolding read_ok_def read_sniffed_def Let_def by (simp del: take_eq_Nil length_take)
qed

lemma read_through_ok:
  assumes "faithful api p at content" and inv: "file_inv at content f" "sized_state (fullPath f) S st" and r: "at r (nat (pos f))"
    and past: "\<not> pos f < int (sniffLen f)"
  shows "read_ok cutoff S at content blen f (read_through api fsys en blen r f st)"
proof -
  obtain bs err r' w' where rd: "api_Read api r blen (st_world st) = ((bs, err, r'), w')"
    by (metis prod.exhaust)
  note fr = faithful_read [OF assms(1) r rd]
  from file_inv_pos [OF inv(1)] have p: "0 \<le> pos f" "pos f < 2 ^ 63" "int (length content) < 2 ^ 63" by auto
  note sp = segment_pos [OF fr(2) p]
  let ?f = "f\<lparr>reader := Some r', pos := pos f + int (length bs)\<rparr>"
  let ?st = "st\<lparr>st_world := recordStreamBytes fsys (int (length bs)) w'\<rparr>"
  have f: "file_inv at content ?f" "same_object f ?f"
    using inv(1) fr(3) past p sp(2) by (auto simp: file_inv_def same_object_def nat_add_distrib split: option.splits)
  have eof: "err = Some EOF \<Longrightarrow> length content \<le> nat (pos f + int (length bs))"
    using fr(4) p by (simp add: nat_add_distrib)
  show ?thesis
  proof (cases "\<exists>e. err = Some e \<and> e \<noteq> EOF")
    case True
    then obtain e where e: "err = Some e" "e \<noteq> EOF" by blast
    then have "read_through api fsys en blen r f st = read_fail api fsys en bs e ?f ?st"
      using rd sp(1) by (simp add: read_through_def Let_def)
    moreover have "read_ok cutoff S at content blen f (read_fail api fsys en bs e ?f ?st)"
      using f fr(1,2) inv(2) e(2) by (intro read_fail_ok) simp_all
    ultimately show ?thesis by simp
  next
    case False
    then have "read_through api fsys en blen r f st = Some ((bs, err), ?f, ?st)"
      using rd sp(1) by (cases err) (auto simp: read_through_def Let_def)
    with f fr(1,2,5) inv(2) eof show ?thesis by (simp add: read_ok_def)
  qed
qed

lemma read_first_ok:
  assumes "faithful api p at content" and inv: "file_inv at content f" "sized_state (fullPath f) S st" and r: "at r 0"
    and first: "pos f = 0" "sniffBuf f = None" and cut: "cuts api \<longrightarrow> cutoff"
  shows "read_ok cutoff S at content blen f (read_first api fsys en blen r f st)"
proof -
  obtain sb err r' w' where rf: "io_ReadFull api r sniffSize (st_world st) = Some (sb, err, r', w')"
    "segment content 0 sb" "at r' (length sb)" "sb = [] \<longrightarrow> err \<noteq> None"
    "sb = [] \<and> err = Some EOF \<longrightarrow> length content \<le> 0" "sb = [] \<and> err = Some ErrUnexpectedEOF \<longrightarrow> cutoff"
    using io_ReadFull_returns [OF assms(1) r, of sniffSize "\<lambda>e. e = Some ErrUnexpectedEOF \<longrightarrow> cutoff" "st_world st"] cut
    unfolding cuts_def by simp metis
  from file_inv_pos [OF inv(1)] have len: "int (length content) < 2 ^ 63" by simp
  let ?f = "f\<lparr>reader := Some r', sniffBuf := Some sb, sniffLen := length sb\<rparr>"
  let ?st = "st\<lparr>st_world := w'\<rparr>"
  show ?thesis
  proof (cases "sb = []")
    case False
    let ?bs = "take blen sb"
    let ?f' = "?f\<lparr>sniffPos := length ?bs, pos := int (length ?bs)\<rparr>"
    have seg: "segment content (nat (pos f)) ?bs" using segment_take [OF rf(2)] first(1) by simp
    have sp: "wrap64 (int (length ?bs)) = int (length ?bs)" "int (length ?bs) < 2 ^ 63"
      using segment_pos [OF seg] first(1) len by simp_all
    have "read_first api fsys en blen r f st =
        Some ((?bs, None), ?f', ?st\<lparr>st_world := recordStreamBytes fsys (int (length ?bs)) w'\<rparr>)"
      using rf(1) False first(1) sp(1) by (simp add: read_first_def Let_def)
    moreover have "file_inv at content ?f'"
      using rf(2,3) len sp(2) by (auto simp: file_inv_def split: if_splits)
    moreover have "same_object f ?f'" by (simp add: same_object_def)
    moreover have "0 < blen \<Longrightarrow> ?bs \<noteq> []" "length ?bs \<le> blen" using False by auto
    ultimately show ?thesis using inv(2) seg first(1)
      unfolding read_ok_def by (simp del: take_eq_Nil length_take)
  next
    case True
    have f: "file_inv at content ?f" "same_object f ?f" "pos ?f = 0"
      using rf(2,3) len first(1) True by (auto simp: file_inv_def same_object_def)
    show ?thesis
    proof (cases "err = Some EOF \<or> err = Some ErrUnexpectedEOF")
      case eof: True
      then have "read_first api fsys en blen r f st = Some (([], Some EOF), ?f, ?st)"
        using rf(1) True by (auto simp: read_first_def Let_def)
      with f inv(2) rf(5,6) eof True first show ?thesis by (auto simp: read_ok_def early_eof_def)
    next
      case False
      then obtain e where e: "err = Some e" "e \<noteq> EOF" "e \<noteq> ErrUnexpectedEOF" using rf(4) True by auto
      then have "read_first api fsys en blen r f st = read_fail api fsys en [] e ?f ?st"
        using rf(1) True by (simp add: read_first_def Let_def)
      moreover have "read_ok cutoff S at content blen f (read_fail api fsys en [] e ?f ?st)"
        using f inv(2) e(2) first(1) by (intro read_fail_ok) simp_all
      ultimately show ?thesis by simp
    qed
  qed
qed

lemma file_inv_set_reader:
  assumes "file_inv at content f" and "at r (nat (pos f))" and "\<not> pos f < int (sniffLen f)"
  shows "file_inv at content (f\<lparr>reader := Some r\<rparr>)"
  using assms by (auto simp: file_inv_def split: option.splits)

lemma read_ok_set_reader: "read_ok cutoff S at content blen (f\<lparr>reader := Some r\<rparr>) out = read_ok cutoff S at content blen f out"
  by (simp add: read_ok_def same_object_def early_eof_def)

lemma gcsFile_Read_ok:
  assumes fa: "faithful api (object_path fsys (name f)) at content" and inv: "file_inv at content f" "sized_state (fullPath f) S st"
    and cut: "cuts api \<longrightarrow> cutoff"
  shows "read_ok cutoff S at content blen f (gcsFile_Read api fsys en blen f st)"
proof (cases "sniffBuf f \<noteq> None \<and> sniffPos f < sniffLen f \<and> pos f < int (sniffLen f)")
  case True
  with inv show ?thesis by (auto simp: gcsFile_Read_def intro: read_sniffed_ok)
next
  case False
  have past: "\<not> pos f < int (sniffLen f)"
    using False file_inv_sniff(3) [OF inv(1)] file_inv_no_sniff [OF inv(1)] file_inv_pos [OF inv(1)]
    by (cases "sniffBuf f") auto
  show ?thesis
  proof (cases "reader f")
    case (Some r)
    with file_inv_reader [OF inv(1) Some] past have "at r (nat (pos f))" by simp
    note ok = read_through_ok [OF fa inv this past]
    have "gcsFile_Read api fsys en blen f st = read_through api fsys en blen r f st"
      using False Some unfolding gcsFile_Read_def by (simp only: if_False option.case)
    with ok show ?thesis by simp
  next
    case None
    let ?now = "api_Now api (st_world st)"
    obtain res w1 where o: "api_NewRangeReader api (object_path fsys (name f)) (fs_ctx fsys) (pos f) (-1) (st_world st) = (res, w1)"
      by (metis prod.exhaust)
    let ?st = "st\<lparr>st_world := recordGCSOp api fsys ''read'' ?now (err_of res) w1\<rparr>"
    show ?thesis
    proof (cases res)
      case (Inl e)
      have "gcsFile_Read api fsys en blen f st = read_fail api fsys en [] e f ?st"
        using past None o Inl by (simp add: gcsFile_Read_def Let_def)
      moreover have "length content \<le> nat (pos f)" if "e = EOF"
        using faithful_open_EOF [OF fa _ o [unfolded Inl that]] file_inv_pos [OF inv(1)] by simp
      then have "read_ok cutoff S at content blen f (read_fail api fsys en [] e f ?st)"
        using inv by (intro read_fail_ok) (simp_all add: same_object_def)
      ultimately show ?thesis by simp
    next
      case (Inr r)
      let ?f = "f\<lparr>reader := Some r\<rparr>"
      have r: "at r (nat (pos f))" using faithful_open [OF fa _ o [unfolded Inr]] file_inv_pos [OF inv(1)] by simp
      note fi = file_inv_set_reader [OF inv(1) r past]
      have "gcsFile_Read api fsys en blen f st =
          (if pos f = 0 \<and> sniffBuf f = None then read_first api fsys en blen r ?f ?st
           else read_through api fsys en blen r ?f ?st)"
        using past None o Inr by (simp add: gcsFile_Read_def Let_def)
      moreover have "read_ok cutoff S at content blen ?f (read_through api fsys en blen r ?f ?st)"
        using fi inv(2) r past by (intro read_through_ok [OF fa]) simp_all
      moreover have "read_ok cutoff S at content blen ?f (read_first api fsys en blen r ?f ?st)"
        if "pos f = 0 \<and> sniffBuf f = None"
        using fi inv(2) r that cut by (intro read_first_ok [OF fa]) simp_all
      ultimately show ?thesis by (simp add: read_ok_set_reader split: if_splits)
    qed
  qed
qed

subsection \<open>Seeking keeps the invariant and moves the position\<close>

lemma drop_reader_fields:
  assumes "drop_reader api f st = (f', st')"
  shows "f' = f\<lparr>reader := None\<rparr>" and "st_cache st' = st_cache st"
  using assms by (auto simp: drop_reader_def split: option.splits)

definition moved :: "('r \<Rightarrow> nat \<Rightarrow> bool) \<Rightarrow> byte list \<Rightarrow> int \<Rightarrow> ('r, 'it) gcsFile \<Rightarrow> 'w fs_state
    \<Rightarrow> ('r, 'it) gcsFile \<times> 'w fs_state \<Rightarrow> bool" where
  "moved at content newPos f st = (\<lambda>(f', st'). file_inv at content f' \<and> same_object f f' \<and> pos f' = newPos \<and>
     fsize f' = fsize f \<and> sizeKnown f' = sizeKnown f \<and> st_cache st' = st_cache st)"

lemma seek_reopen_moved:
  assumes "file_inv at content f" and "0 \<le> newPos" and "newPos < 2 ^ 63"
    and "\<not> (sniffBuf f \<noteq> None \<and> newPos < int (sniffLen f))"
  shows "moved at content newPos f st (seek_reopen api newPos f st)"
proof -
  obtain f' st' where d: "drop_reader api (f\<lparr>pos := newPos\<rparr>) st = (f', st')" by fastforce
  have "file_inv at content (f\<lparr>pos := newPos, reader := None\<rparr>)"
    using assms by (auto simp: file_inv_def split: option.splits)
  with drop_reader_fields [OF d] d show ?thesis by (simp add: moved_def seek_reopen_def same_object_def)
qed

lemma seek_sniffed_moved:
  assumes inv: "file_inv at content f" and "0 \<le> newPos" and inside: "sniffBuf f \<noteq> None" "newPos < int (sniffLen f)"
  shows "moved at content newPos f st (seek_sniffed api newPos f st)"
proof -
  obtain sb where sb: "sniffBuf f = Some sb" using inside(1) by blast
  note s = file_inv_sniff [OF inv sb]
  have bound: "newPos < 2 ^ 63" using segment_bound [OF s(2)] s(1) inside(2) file_inv_pos [OF inv] by auto
  have keep: "at r (sniffLen f)" if "reader f = Some r" "\<not> pos f > int (sniffLen f)" for r
    using file_inv_reader [OF inv that(1)] that(2) by (cases "pos f = int (sniffLen f)") auto
  show ?thesis
  proof (cases "pos f > int (sniffLen f)")
    case True
    obtain f' st' where d: "drop_reader api f st = (f', st')" by fastforce
    have "file_inv at content (f\<lparr>reader := None, pos := newPos, sniffPos := nat newPos\<rparr>)"
      using inv sb bound assms(2) by (auto simp: file_inv_def)
    with drop_reader_fields [OF d] d True show ?thesis by (simp add: moved_def seek_sniffed_def same_object_def)
  next
    case False
    have "file_inv at content (f\<lparr>pos := newPos, sniffPos := nat newPos\<rparr>)"
      using inv sb bound assms(2) inside(2) keep False by (auto simp: file_inv_def)
    with False show ?thesis by (simp add: moved_def seek_sniffed_def same_object_def)
  qed
qed

lemma seek_to_moved:
  assumes fa: "faithful api p at content" and inv: "file_inv at content f" and np: "0 \<le> newPos" "newPos < 2 ^ 63"
  shows "\<exists>out. seek_to api newPos f st = Some out \<and> moved at content newPos f st out"
proof (cases "sniffBuf f \<noteq> None \<and> newPos < int (sniffLen f)")
  case True
  with seek_sniffed_moved [OF inv np(1)] show ?thesis by (simp add: seek_to_def)
next
  case out: False
  from file_inv_pos [OF inv] have p: "0 \<le> pos f" "pos f < 2 ^ 63" by auto
  let ?skip = "newPos - pos f"
  have skip: "wrap64 ?skip = ?skip" using np p by (intro wrap64_id) (simp add: in_i64_def)
  let ?fast = "reader f \<noteq> None \<and> (sniffBuf f = None \<or> sniffPos f \<ge> sniffLen f) \<and> ?skip > 0 \<and> ?skip \<le> seekSkipThreshold"
  show ?thesis
  proof (cases ?fast)
    case False
    then have "seek_to api newPos f st = Some (seek_reopen api newPos f st)"
      using out skip unfolding seek_to_def Let_def by (simp only: if_False)
    with seek_reopen_moved [OF inv np out] show ?thesis by simp
  next
    case True
    then obtain r where r: "reader f = Some r" by blast
    have past: "\<not> pos f < int (sniffLen f)"
      using True file_inv_sniff(3) [OF inv] file_inv_no_sniff [OF inv] p(1) by (cases "sniffBuf f") auto
    with file_inv_reader [OF inv r] have at_r: "at r (nat (pos f))" by simp
    obtain k err r' w' where c: "io_CopyN_Discard api r (nat ?skip) (st_world st) = Some (k, err, r', w')"
      "k \<le> nat ?skip" "at r' (nat (pos f) + k)" "err = None \<longrightarrow> k = nat ?skip"
      using io_CopyN_Discard_returns [OF fa at_r] by blast
    have bound: "pos f + int k \<le> newPos" using c(2) True by linarith
    then have w: "wrap64 (pos f + int k) = pos f + int k" using p(1) np(2) by (simp add: i64_simps)
    let ?f = "f\<lparr>reader := Some r', pos := pos f + int k\<rparr>"
    have fi: "file_inv at content ?f"
      using inv c(3) past p bound np(2) by (auto simp: file_inv_def nat_add_distrib split: option.splits)
    have step: "seek_to api newPos f st =
        Some (if err = None then (?f, st\<lparr>st_world := w'\<rparr>) else seek_reopen api newPos ?f (st\<lparr>st_world := w'\<rparr>))"
      using out skip True r c(1) w unfolding seek_to_def Let_def by auto
    show ?thesis
    proof (cases "err = None")
      case True
      with c(4) \<open>?fast\<close> have "pos ?f = newPos" by simp
      with fi step True show ?thesis by (auto simp: moved_def same_object_def)
    next
      case False
      have "moved at content newPos ?f (st\<lparr>st_world := w'\<rparr>) (seek_reopen api newPos ?f (st\<lparr>st_world := w'\<rparr>))"
        using out by (intro seek_reopen_moved [OF fi np]) simp
      with step False show ?thesis by (auto simp: moved_def same_object_def)
    qed
  qed
qed

text \<open>
  The target of a seek as a number: \<open>sz\<close> is the size \<open>SeekEnd\<close> counts from.
\<close>

definition seek_origin :: "int \<Rightarrow> int \<Rightarrow> int \<Rightarrow> int" where
  "seek_origin whence p sz = (if whence = SeekStart then 0 else if whence = SeekCurrent then p else sz)"

text \<open>The size the file remembers is one that was reported.\<close>

definition size_ok :: "(int \<Rightarrow> bool) \<Rightarrow> ('r, 'it) gcsFile \<Rightarrow> bool" where
  "size_ok S f \<longleftrightarrow> (sizeKnown f \<longrightarrow> S (fsize f))"

abbreviation (input) whences :: "int set" where
  "whences \<equiv> {SeekStart, SeekCurrent, SeekEnd}"

text \<open>\<open>seeks_to S whence offset f f' t\<close>: \<open>t\<close> is the target, given the size the file then knows.\<close>

definition seeks_to :: "(int \<Rightarrow> bool) \<Rightarrow> int \<Rightarrow> int \<Rightarrow> ('r, 'it) gcsFile \<Rightarrow> ('r, 'it) gcsFile \<Rightarrow> int \<Rightarrow> bool" where
  "seeks_to S whence offset f f' t \<longleftrightarrow> whence \<in> whences \<and> (whence = SeekEnd \<longrightarrow> S (fsize f')) \<and>
     t = wrap64 (seek_origin whence (pos f) (fsize f') + offset)"

definition seek_error :: "int \<Rightarrow> string \<Rightarrow> gerror \<Rightarrow> bool" where
  "seek_error whence nm e \<longleftrightarrow> whence \<notin> whences \<and> e = ErrInvalidWhence \<or>
     whence = SeekEnd \<and> (\<exists>e'. e = translated ''stat'' nm e')"

lemma seek_target_cases:
  assumes st: "sized_state (fullPath f) S st" and api: "sized api (object_path fsys (name f)) S" "name f = [] \<longrightarrow> S 0"
    and sz: "size_ok S f" and off: "in_i64 offset"
  obtains (bad) e st1 where "seek_target api fsys en offset whence f st = Some (Inl e, f, st1)"
      "sized_state (fullPath f) S st1" "seek_error whence (name f) e"
  | (good) f1 st1 t n k where "seek_target api fsys en offset whence f st = Some (Inr t, f1, st1)"
      "sized_state (fullPath f) S st1" "f1 = f\<lparr>fsize := n, sizeKnown := k\<rparr>" "same_object f f1" "size_ok S f1"
      "seeks_to S whence offset f f1 t" "in_i64 t"
proof -
  have wr: "wrap64 offset = offset" using off by (rule wrap64_id)
  consider (direct) "whence \<noteq> SeekEnd \<or> sizeKnown f" | (stat) "whence = SeekEnd" "\<not> sizeKnown f" by blast
  then show ?thesis
  proof cases
    case direct
    show ?thesis
    proof (cases "whence \<in> whences")
      case True
      show ?thesis
        by (rule good [where t = "wrap64 (seek_origin whence (pos f) (fsize f) + offset)" and ?f1.0 = f and ?st1.0 = st
            and n = "fsize f" and k = "sizeKnown f"])
          (use direct assms True wr wrap64_range in
            \<open>auto simp: seek_target_def seek_origin_def same_object_def seeks_to_def size_ok_def\<close>)
    next
      case False
      then have "seek_target api fsys en offset whence f st = Some (Inl ErrInvalidWhence, f, st)"
        by (simp add: seek_target_def)
      with bad st False show ?thesis by (auto simp: seek_error_def)
    qed
  next
    case stat
    obtain r st1 where s: "gcsFile_Stat api fsys en f st = Some (r, st1)" "sized_state (fullPath f) S st1"
      "case r of Inr info \<Rightarrow> S (fi_Size info) | Inl err \<Rightarrow> (\<exists>e. err = Some (translated ''stat'' (name f) e))"
      using gcsFile_Stat_sized [OF st api, of en] unfolding stat_sized_def by blast
    show ?thesis
    proof (cases r)
      case (Inl err)
      with s(3) obtain e where e: "err = Some (translated ''stat'' (name f) e)" by auto
      show ?thesis
        by (rule bad [where e = "translated ''stat'' (name f) e" and ?st1.0 = st1])
          (use Inl e s stat in \<open>auto simp: seek_target_def seek_error_def\<close>)
    next
      case (Inr info)
      show ?thesis
        by (rule good [where t = "wrap64 (fi_Size info + offset)" and ?f1.0 = "f\<lparr>fsize := fi_Size info, sizeKnown := True\<rparr>"
            and ?st1.0 = st1 and n = "fi_Size info" and k = True])
          (use Inr s stat wrap64_range in
            \<open>auto simp: seek_target_def seek_origin_def same_object_def seeks_to_def size_ok_def Let_def\<close>)
    qed
  qed
qed

text \<open>
  What is left of the invariant once a negative target was refused: the position may disagree with
  the sniff buffer and with the reader.
\<close>

definition file_weak :: "('r \<Rightarrow> nat \<Rightarrow> bool) \<Rightarrow> byte list \<Rightarrow> ('r, 'it) gcsFile \<Rightarrow> bool" where
  "file_weak at content f \<longleftrightarrow>
     (\<forall>sb. sniffBuf f = Some sb \<longrightarrow> sniffLen f = length sb \<and> segment content 0 sb) \<and>
     (\<forall>r. reader f = Some r \<longrightarrow> (\<exists>i. at r i))"

lemma file_inv_weak: "file_inv at content f \<Longrightarrow> file_weak at content f"
  unfolding file_inv_def file_weak_def by auto

text \<open>
  \<open>seek_ok\<close>: the call returned; on success the file stands at the computed target. On failure the
  position is unchanged, or the target was negative and the position was reset to 0: the invariant
  then survives only if the position was 0 before.
\<close>

definition seek_ok ::
  "(int \<Rightarrow> bool) \<Rightarrow> ('r \<Rightarrow> nat \<Rightarrow> bool) \<Rightarrow> byte list \<Rightarrow> int \<Rightarrow> int \<Rightarrow> ('r, 'it) gcsFile
     \<Rightarrow> ((int \<times> gerror option) \<times> ('r, 'it) gcsFile \<times> 'w fs_state) option \<Rightarrow> bool" where
  "seek_ok S at content offset whence f out \<longleftrightarrow>
     (\<exists>p err f' st'. out = Some ((p, err), f', st') \<and> same_object f f' \<and> size_ok S f' \<and> sized_state (fullPath f) S st' \<and>
        (case err of
           None \<Rightarrow> file_inv at content f' \<and> pos f' = p \<and> 0 \<le> p \<and> seeks_to S whence offset f f' p
         | Some e \<Rightarrow> p = 0 \<and>
             (file_inv at content f' \<and> pos f' = pos f \<and> seek_error whence (name f) e \<or>
              e = PathError ''seek'' (name f) ErrInvalid \<and> (\<exists>t < 0. seeks_to S whence offset f f' t) \<and> pos f' = 0 \<and>
              file_weak at content f' \<and> (pos f = 0 \<longrightarrow> file_inv at content f'))))"

lemma gcsFile_Seek_ok:
  assumes fa: "faithful api p at content" and inv: "file_inv at content f"
    and sz: "sized_state (fullPath f) S st" "sized api (object_path fsys (name f)) S" "name f = [] \<longrightarrow> S 0" "size_ok S f"
    and off: "in_i64 offset"
  shows "seek_ok S at content offset whence f (gcsFile_Seek api fsys en offset whence f st)"
  using sz off
proof (cases rule: seek_target_cases [where en = en and whence = whence])
  case (bad e st1)
  with inv sz(4) show ?thesis by (auto simp: seek_ok_def gcsFile_Seek_def same_object_def)
next
  case (good f1 st1 t n k)
  have fi: "file_inv at content f1" using inv good(3) by (cases "sniffBuf f") (auto simp: file_inv_def)
  have same: "name f1 = name f" "pos f1 = pos f" using good(3) by simp_all
  show ?thesis
  proof (cases "t < 0")
    case True
    then have "gcsFile_Seek api fsys en offset whence f st =
        Some ((0, Some (PathError ''seek'' (name f) ErrInvalid)), f1\<lparr>pos := 0\<rparr>, st1)"
      using good(1) same by (simp add: gcsFile_Seek_def)
    moreover have "file_weak at content (f1\<lparr>pos := 0\<rparr>)"
      using file_inv_weak [OF fi] by (simp add: file_weak_def)
    moreover have "file_inv at content (f1\<lparr>pos := 0\<rparr>)" if "pos f = 0"
      using fi same(2) that by (cases f1) simp
    moreover have "seeks_to S whence offset f (f1\<lparr>pos := 0\<rparr>) t" "same_object f (f1\<lparr>pos := 0\<rparr>)" "size_ok S (f1\<lparr>pos := 0\<rparr>)"
      using good(4-6) by (simp_all add: seeks_to_def same_object_def size_ok_def)
    ultimately show ?thesis using good(2) True unfolding seek_ok_def by auto
  next
    case False
    have "t < 2 ^ 63" using good(7) by (simp add: in_i64_def)
    with False obtain f2 st2 where m: "seek_to api t f1 st1 = Some (f2, st2)" "moved at content t f1 st1 (f2, st2)"
      using seek_to_moved [OF fa fi] by (metis not_less prod.exhaust)
    have "gcsFile_Seek api fsys en offset whence f st = Some ((t, None), f2, st2)"
      using good(1) m False by (simp add: gcsFile_Seek_def moved_def)
    moreover have "sized_state (fullPath f) S st2"
      using m(2) good(2) sized_state_cong [of st2 st1] by (simp add: moved_def)
    moreover have "same_object f f2" "size_ok S f2" "seeks_to S whence offset f f2 t"
      using m(2) good(4-6) by (auto simp: moved_def same_object_def size_ok_def seeks_to_def)
    ultimately show ?thesis using m(2) False by (auto simp: seek_ok_def moved_def)
  qed
qed

subsection \<open>Calls after a refused seek\<close>

text \<open>
  Even then every call returns, and a read hands out consecutive bytes of the object, though not
  necessarily those at the position.
\<close>

definition weak_ok :: "(int \<Rightarrow> bool) \<Rightarrow> ('r \<Rightarrow> nat \<Rightarrow> bool) \<Rightarrow> byte list \<Rightarrow> ('a \<Rightarrow> bool) \<Rightarrow> ('r, 'it) gcsFile
    \<Rightarrow> ('a \<times> ('r, 'it) gcsFile \<times> 'w fs_state) option \<Rightarrow> bool" where
  "weak_ok S at content P f out \<longleftrightarrow>
     (\<exists>a f' st'. out = Some (a, f', st') \<and> P a \<and> file_weak at content f' \<and> same_object f f' \<and> size_ok S f' \<and>
        sized_state (fullPath f) S st')"

abbreviation (input) some_bytes :: "byte list \<Rightarrow> nat \<Rightarrow> byte list \<times> gerror option \<Rightarrow> bool" where
  "some_bytes content blen \<equiv> \<lambda>(bs, err). length bs \<le> blen \<and> (\<exists>i. segment content i bs)"

lemma read_fail_weak:
  assumes "file_weak at content f'" and "same_object f f'" and "size_ok S f'" and "sized_state (fullPath f) S st"
    and "length bs \<le> blen" and "segment content i bs"
  shows "weak_ok S at content (some_bytes content blen) f (read_fail api fsys en bs e f' st)"
proof -
  have "fullPath f' = fullPath f" using assms(2) by (simp add: same_object_def)
  then obtain st' where "translateError api fsys en 1 ''read'' (Some e) f' st = Some (Some (translated ''read'' (name f') e), st')"
    "sized_state (fullPath f) S st'"
    using translateError_sized [of f' S st api fsys en 1 "''read''" e] assms(4) by auto
  then show ?thesis using assms by (auto simp: weak_ok_def read_fail_def)
qed

lemma read_through_weak:
  assumes "faithful api p at content" and "at r i" and "file_weak at content f" "sized_state (fullPath f) S st" "size_ok S f"
  shows "weak_ok S at content (some_bytes content blen) f (read_through api fsys en blen r f st)"
proof -
  obtain bs err r' w' where rd: "api_Read api r blen (st_world st) = ((bs, err, r'), w')"
    by (metis prod.exhaust)
  note fr = faithful_read [OF assms(1,2) rd]
  let ?f = "f\<lparr>reader := Some r', pos := wrap64 (pos f + int (length bs))\<rparr>"
  let ?st = "st\<lparr>st_world := recordStreamBytes fsys (int (length bs)) w'\<rparr>"
  have f: "file_weak at content ?f" "same_object f ?f" "size_ok S ?f" "sized_state (fullPath f) S ?st"
    using assms(3-5) fr(3) by (auto simp: file_weak_def same_object_def size_ok_def)
  have fail: "weak_ok S at content (some_bytes content blen) f (read_fail api fsys en bs e ?f ?st)" for e
    by (rule read_fail_weak [OF f fr(1,2)])
  have "weak_ok S at content (some_bytes content blen) f (Some ((bs, err), ?f, ?st))"
    using f fr(1,2) by (auto simp: weak_ok_def)
  with fail rd show ?thesis by (cases err) (auto simp: read_through_def Let_def)
qed

lemma read_first_weak:
  assumes "faithful api p at content" and "at r 0" and "file_weak at content f" "sized_state (fullPath f) S st" "size_ok S f"
  shows "weak_ok S at content (some_bytes content blen) f (read_first api fsys en blen r f st)"
proof -
  obtain sb err r' w' where rf: "io_ReadFull api r sniffSize (st_world st) = Some (sb, err, r', w')"
    "segment content 0 sb" "at r' (length sb)"
    using io_ReadFull_returns [OF assms(1,2), of sniffSize "\<lambda>_. True" "st_world st"] by auto
  let ?f = "f\<lparr>reader := Some r', sniffBuf := Some sb, sniffLen := length sb\<rparr>"
  let ?st = "st\<lparr>st_world := w'\<rparr>"
  have f: "file_weak at content ?f" "same_object f ?f" "size_ok S ?f" "sized_state (fullPath f) S ?st"
    using assms(3-5) rf(2,3) by (auto simp: file_weak_def same_object_def size_ok_def)
  have data: "weak_ok S at content (some_bytes content blen) f
      (Some ((take blen sb, None), ?f\<lparr>sniffPos := j, pos := q\<rparr>, ?st\<lparr>st_world := w\<rparr>))" for j q w
    using f segment_take [OF rf(2)] by (auto simp: weak_ok_def file_weak_def same_object_def size_ok_def)
  have eof: "weak_ok S at content (some_bytes content blen) f (Some (([], Some EOF), ?f, ?st))"
    using f by (auto simp: weak_ok_def)
  have fail: "weak_ok S at content (some_bytes content blen) f (read_fail api fsys en [] e ?f ?st)" for e
    by (rule read_fail_weak [OF f]) simp_all
  show ?thesis
  proof (cases "sb = []")
    case False
    with data rf(1) show ?thesis by (simp add: read_first_def Let_def)
  next
    case True
    with eof fail rf(1) show ?thesis by (cases err) (simp_all add: read_first_def Let_def)
  qed
qed

lemma gcsFile_Read_weak:
  assumes fa: "faithful api (object_path fsys (name f)) at content"
    and inv: "file_weak at content f" "sized_state (fullPath f) S st" "size_ok S f"
  shows "weak_ok S at content (some_bytes content blen) f (gcsFile_Read api fsys en blen f st)"
proof -
  have sniffed: "weak_ok S at content (some_bytes content blen) f (read_sniffed fsys blen sb f st)"
    if "sniffBuf f = Some sb" "sniffPos f < sniffLen f" for sb
  proof -
    from inv(1) that(1) have s: "sniffLen f = length sb" "segment content 0 sb" by (auto simp: file_weak_def)
    have "segment content (sniffPos f) (take blen (drop (sniffPos f) sb))"
      using segment_take [OF segment_drop [OF s(2)], of "sniffPos f" blen] that(2) s(1) by simp
    then show ?thesis using inv s(1)
      by (auto simp: weak_ok_def read_sniffed_def Let_def file_weak_def same_object_def size_ok_def)
  qed
  obtain res w1 where o: "api_NewRangeReader api (object_path fsys (name f)) (fs_ctx fsys) (pos f) (-1) (st_world st) = (res, w1)"
    by (metis prod.exhaust)
  let ?st = "st\<lparr>st_world := recordGCSOp api fsys ''read'' (api_Now api (st_world st)) (err_of res) w1\<rparr>"
  have st: "sized_state (fullPath f) S ?st" using inv(2) by simp
  have fail: "weak_ok S at content (some_bytes content blen) f (read_fail api fsys en [] e f ?st)" for e
    by (rule read_fail_weak [OF inv(1) _ inv(3) st]) (simp_all add: same_object_def)
  have opened: "weak_ok S at content (some_bytes content blen) f
      (if pos f = 0 \<and> sniffBuf f = None then read_first api fsys en blen r (f\<lparr>reader := Some r\<rparr>) ?st
       else read_through api fsys en blen r (f\<lparr>reader := Some r\<rparr>) ?st)" if "res = Inr r" for r
  proof -
    note o' = o [unfolded that]
    obtain i where i: "at r i" using faithful_open_somewhere [OF fa o'] by blast
    let ?f = "f\<lparr>reader := Some r\<rparr>"
    have f: "file_weak at content ?f" "sized_state (fullPath ?f) S ?st" "size_ok S ?f"
      using inv i by (auto simp: file_weak_def size_ok_def)
    have "weak_ok S at content (some_bytes content blen) ?f (read_through api fsys en blen r ?f ?st)"
      by (rule read_through_weak [OF fa i f])
    moreover have "weak_ok S at content (some_bytes content blen) ?f (read_first api fsys en blen r ?f ?st)" if "pos f = 0"
      using faithful_open [OF fa _ o'] that by (intro read_first_weak [OF fa _ f]) simp
    ultimately show ?thesis by (auto simp: weak_ok_def same_object_def)
  qed
  have through: "weak_ok S at content (some_bytes content blen) f (read_through api fsys en blen r f st)"
    if "reader f = Some r" for r
  proof -
    from inv(1) that obtain i where "at r i" by (auto simp: file_weak_def)
    from read_through_weak [OF fa this inv] show ?thesis .
  qed
  show ?thesis
  proof (cases "sniffBuf f \<noteq> None \<and> sniffPos f < sniffLen f \<and> pos f < int (sniffLen f)")
    case True
    with sniffed show ?thesis by (auto simp: gcsFile_Read_def)
  next
    case False
    then have eq: "gcsFile_Read api fsys en blen f st =
      (case reader f of
         Some r \<Rightarrow> read_through api fsys en blen r f st
       | None \<Rightarrow>
           (case res of
              Inl e \<Rightarrow> read_fail api fsys en [] e f ?st
            | Inr r \<Rightarrow>
                (if pos f = 0 \<and> sniffBuf f = None then read_first api fsys en blen r (f\<lparr>reader := Some r\<rparr>) ?st
                 else read_through api fsys en blen r (f\<lparr>reader := Some r\<rparr>) ?st)))"
      using o unfolding gcsFile_Read_def Let_def by (simp only: if_False prod.case)
    show ?thesis unfolding eq using through fail opened by (auto split: option.splits sum.splits)
  qed
qed

definition weak_moved :: "('r \<Rightarrow> nat \<Rightarrow> bool) \<Rightarrow> byte list \<Rightarrow> ('r, 'it) gcsFile \<Rightarrow> 'w fs_state
    \<Rightarrow> ('r, 'it) gcsFile \<times> 'w fs_state \<Rightarrow> bool" where
  "weak_moved at content f st = (\<lambda>(f', st'). file_weak at content f' \<and> same_object f f' \<and>
     fsize f' = fsize f \<and> sizeKnown f' = sizeKnown f \<and> st_cache st' = st_cache st)"

lemma drop_reader_moves: "file_weak at content f \<Longrightarrow> weak_moved at content f st (drop_reader api f st)"
  by (auto simp: weak_moved_def drop_reader_def file_weak_def same_object_def split: option.splits)

lemma weak_moved_pos: "weak_moved at content f st (f', st') \<Longrightarrow> weak_moved at content f st (f'\<lparr>pos := q, sniffPos := j\<rparr>, st')"
  by (simp add: weak_moved_def file_weak_def same_object_def)

lemma seek_to_weak:
  assumes fa: "faithful api p at content" and inv: "file_weak at content f"
  shows "\<exists>out. seek_to api newPos f st = Some out \<and> weak_moved at content f st out"
proof -
  have self: "weak_moved at content f st (f, st)" using inv by (simp add: weak_moved_def same_object_def)
  have sniffed: "weak_moved at content f st (seek_sniffed api newPos f st)"
    using weak_moved_pos [of at content f st] drop_reader_moves [OF inv, of st api] self
    by (auto simp: seek_sniffed_def split: prod.splits)
  have reopen: "weak_moved at content f st (seek_reopen api newPos (f\<lparr>reader := rd, pos := q\<rparr>) (st\<lparr>st_world := w\<rparr>))"
    if "\<forall>r. rd = Some r \<longrightarrow> (\<exists>i. at r i)" for rd q w
    using inv that by (auto simp: seek_reopen_def drop_reader_def weak_moved_def file_weak_def same_object_def split: option.splits)
  have direct: "weak_moved at content f st (seek_reopen api newPos f st)"
    using reopen [of "reader f" "pos f" "st_world st"] inv by (simp add: file_weak_def)
  have skipped: "\<exists>k err r' w'. io_CopyN_Discard api r n (st_world st) = Some (k, err, r', w') \<and> (\<exists>i. at r' i)"
    if "reader f = Some r" for r n
    using inv that io_CopyN_Discard_returns [OF fa] unfolding file_weak_def by metis
  show ?thesis
  proof (cases "reader f")
    case None
    with sniffed direct show ?thesis by (simp add: seek_to_def Let_def del: split_paired_Ex)
  next
    case (Some r)
    let ?skip = "wrap64 (newPos - pos f)"
    obtain k err r' w' where c: "io_CopyN_Discard api r (nat ?skip) (st_world st) = Some (k, err, r', w')" "\<exists>i. at r' i"
      using skipped [OF Some] by blast
    let ?f = "f\<lparr>reader := Some r', pos := wrap64 (pos f + int k)\<rparr>"
    have "weak_moved at content f st (?f, st\<lparr>st_world := w'\<rparr>)"
      using inv c(2) by (auto simp: weak_moved_def file_weak_def same_object_def)
    with Some c sniffed direct reopen [of "Some r'" "wrap64 (pos f + int k)" w'] show ?thesis
      by (simp add: seek_to_def Let_def del: split_paired_Ex)
  qed
qed

lemma gcsFile_Seek_weak:
  assumes fa: "faithful api p at content" and inv: "file_weak at content f"
    and sz: "sized_state (fullPath f) S st" "sized api (object_path fsys (name f)) S" "name f = [] \<longrightarrow> S 0" "size_ok S f"
    and off: "in_i64 offset"
  shows "weak_ok S at content (\<lambda>_. True) f (gcsFile_Seek api fsys en offset whence f st)"
  using sz off
proof (cases rule: seek_target_cases [where en = en and whence = whence])
  case (bad e st1)
  with inv sz(4) show ?thesis by (auto simp: weak_ok_def gcsFile_Seek_def same_object_def)
next
  case (good f1 st1 t n k)
  have fi: "file_weak at content f1" using inv good(3) by (auto simp: file_weak_def)
  then have zero: "file_weak at content (f1\<lparr>pos := 0\<rparr>)" by (simp add: file_weak_def)
  obtain f2 st2 where m: "seek_to api t f1 st1 = Some (f2, st2)" "weak_moved at content f1 st1 (f2, st2)"
    using seek_to_weak [OF fa fi] by (metis prod.exhaust)
  have "sized_state (fullPath f) S st2" using m(2) good(2) sized_state_cong [of st2 st1] by (simp add: weak_moved_def)
  moreover have "same_object f f2" "size_ok S f2" using m(2) good(4,5) by (auto simp: weak_moved_def same_object_def size_ok_def)
  moreover have "same_object f (f1\<lparr>pos := 0\<rparr>)" "size_ok S (f1\<lparr>pos := 0\<rparr>)"
    using good(4,5) by (auto simp: same_object_def size_ok_def)
  ultimately show ?thesis using good(1,2) m zero by (auto simp: weak_ok_def gcsFile_Seek_def weak_moved_def)
qed

subsection \<open>Open files as seekable streams\<close>

text \<open>
  A session: an open file with the client it reads through and the object it was opened on.
  Its calls are those of the file, with any clock loads and random draws.
\<close>

record ('w, 'r, 'it) session =
  se_api :: "('w, 'r, 'it) gcs_api"
  se_fs :: "'w gcsFS"
  se_at :: "'r \<Rightarrow> nat \<Rightarrow> bool"
  se_content :: "byte list"
  se_file :: "('r, 'it) gcsFile"
  se_state :: "'w fs_state"

definition se_inv :: "('w, 'r, 'it) session \<Rightarrow> bool" where
  "se_inv s \<longleftrightarrow> faithful (se_api s) (object_path (se_fs s) (name (se_file s))) (se_at s) (se_content s) \<and>
     file_inv (se_at s) (se_content s) (se_file s) \<and> st_inv (se_state s)"

definition se_offset :: "('w, 'r, 'it) session \<Rightarrow> nat" where
  "se_offset s = nat (pos (se_file s))"

definition se_read :: "('w, 'r, 'it) session \<Rightarrow> nat \<Rightarrow> byte list \<Rightarrow> gerror option \<Rightarrow> ('w, 'r, 'it) session \<Rightarrow> bool" where
  "se_read s n bs err s' \<longleftrightarrow>
     (\<exists>en f' st'. gcsFile_Read (se_api s) (se_fs s) en n (se_file s) (se_state s) = Some ((bs, err), f', st') \<and>
        s' = s\<lparr>se_file := f', se_state := st'\<rparr>)"

definition se_seek :: "('w, 'r, 'it) session \<Rightarrow> nat \<Rightarrow> ('w, 'r, 'it) session \<Rightarrow> bool" where
  "se_seek s t s' \<longleftrightarrow>
     (\<exists>en offset whence f' st'. in_i64 offset \<and>
        gcsFile_Seek (se_api s) (se_fs s) en offset whence (se_file s) (se_state s) = Some ((int t, None), f', st') \<and>
        s' = s\<lparr>se_file := f', se_state := st'\<rparr>)"

text \<open>
  The sniff buffer is not filled yet and the client cuts streams off: a stream cut before its
  first byte will look like an empty one.
\<close>

definition se_headless :: "('w, 'r, 'it) session \<Rightarrow> bool" where
  "se_headless s \<longleftrightarrow> cuts (se_api s) \<and> sniffBuf (se_file s) = None"

lemma se_read_ok:
  assumes "se_inv s"
  shows "read_ok (cuts (se_api s)) (\<lambda>_. True) (se_at s) (se_content s) n (se_file s)
    (gcsFile_Read (se_api s) (se_fs s) en n (se_file s) (se_state s))"
  using assms unfolding se_inv_def by (intro gcsFile_Read_ok) simp_all

text \<open>Two sessions on the same file through the same client.\<close>

definition same_client :: "('w, 'r, 'it) session \<Rightarrow> ('w, 'r, 'it) session \<Rightarrow> bool" where
  "same_client s s' \<longleftrightarrow> se_api s' = se_api s \<and> se_fs s' = se_fs s \<and> se_content s' = se_content s \<and>
     name (se_file s') = name (se_file s)"

lemma se_readD:
  assumes "se_inv s" and "se_read s n bs err s'"
  shows "se_inv s' \<and> same_client s s' \<and> length bs \<le> n \<and> segment (se_content s) (se_offset s) bs \<and>
    se_offset s' = se_offset s + length bs \<and>
    (err = Some EOF \<longrightarrow> length (se_content s) \<le> se_offset s' \<or> se_headless s \<and> se_offset s = 0 \<and> bs = []) \<and>
    (err = None \<and> 0 < n \<longrightarrow> bs \<noteq> []) \<and> (se_headless s' \<longrightarrow> se_headless s)"
proof -
  from assms(2) obtain en f' st' where
    c: "gcsFile_Read (se_api s) (se_fs s) en n (se_file s) (se_state s) = Some ((bs, err), f', st')"
    and s': "s' = s\<lparr>se_file := f', se_state := st'\<rparr>"
    unfolding se_read_def by blast
  have "0 \<le> pos (se_file s)" using assms(1) file_inv_pos by (auto simp: se_inv_def)
  with se_read_ok [OF assms(1), of n en] c s' assms(1) show ?thesis
    by (auto simp: read_ok_def early_eof_def se_inv_def se_offset_def se_headless_def same_object_def same_client_def
        nat_add_distrib)
qed

lemma se_seekD:
  assumes "se_inv s" and "se_seek s t s'"
  shows "se_inv s' \<and> same_client s s' \<and> se_offset s' = t \<and> (se_headless s' \<longrightarrow> se_headless s)"
proof -
  from assms(2) obtain en offset whence f' st' where off: "in_i64 offset"
    and c: "gcsFile_Seek (se_api s) (se_fs s) en offset whence (se_file s) (se_state s) = Some ((int t, None), f', st')"
    and s': "s' = s\<lparr>se_file := f', se_state := st'\<rparr>"
    unfolding se_seek_def by blast
  have "seek_ok (\<lambda>_. True) (se_at s) (se_content s) offset whence (se_file s)
      (gcsFile_Seek (se_api s) (se_fs s) en offset whence (se_file s) (se_state s))"
    using assms(1) off unfolding se_inv_def by (intro gcsFile_Seek_ok) (auto simp: size_ok_def)
  with c s' assms(1) show ?thesis
    by (auto simp: seek_ok_def se_inv_def se_offset_def se_headless_def same_object_def same_client_def)
qed

interpretation gcs_stream: read_seeker se_inv se_content se_offset se_read se_seek EOF se_headless
proof
  fix s :: "('a, 'b, 'c) session" and n bs err s' t
  show "\<exists>bs e s'. se_read s n bs e s'" if "se_inv s"
    using se_read_ok [OF that, of n] unfolding read_ok_def se_read_def by blast
  show "se_inv s' \<and> se_content s' = se_content s \<and> se_offset s' = t" if "se_inv s" "se_seek s t s'"
    using se_seekD [OF that] by (simp add: same_client_def)
  show "se_headless s" if "se_inv s" "se_seek s t s'" "se_headless s'"
    using se_seekD [OF that(1,2)] that(3) by simp
qed (use se_readD [unfolded same_client_def] in blast)+

subsection \<open>Sequences of calls\<close>

text \<open>Calls on an open file and their results.\<close>

datatype file_op = ReadOp nat | SeekOp int int
datatype file_res = ReadRes "byte list" "gerror option" | SeekRes int "gerror option"

fun file_run ::
  "('w, 'r, 'it) gcs_api \<Rightarrow> 'w gcsFS \<Rightarrow> (env \<times> file_op) list \<Rightarrow> ('r, 'it) gcsFile \<Rightarrow> 'w fs_state
     \<Rightarrow> file_res list option" where
  "file_run api fsys [] f st = Some []"
| "file_run api fsys ((en, ReadOp n) # ops) f st =
     (case gcsFile_Read api fsys en n f st of
        None \<Rightarrow> None
      | Some ((bs, err), f', st') \<Rightarrow> map_option ((#) (ReadRes bs err)) (file_run api fsys ops f' st'))"
| "file_run api fsys ((en, SeekOp offset whence) # ops) f st =
     (case gcsFile_Seek api fsys en offset whence f st of
        None \<Rightarrow> None
      | Some ((p, err), f', st') \<Rightarrow> map_option ((#) (SeekRes p err)) (file_run api fsys ops f' st'))"

text \<open>A call returned a result of its kind; a read, consecutive bytes of the object.\<close>

fun returned :: "byte list \<Rightarrow> file_op \<Rightarrow> file_res \<Rightarrow> bool" where
  "returned content (ReadOp n) (ReadRes bs err) \<longleftrightarrow> length bs \<le> n \<and> (\<exists>i. segment content i bs)"
| "returned content (SeekOp _ _) (SeekRes _ _) \<longleftrightarrow> True"
| "returned content _ _ \<longleftrightarrow> False"

text \<open>
  What the results must be for an object with the given bytes, starting at position \<open>p\<close>: the
  specification knows no reader, buffer or cache. \<open>cutoff\<close> says whether the client may cut streams
  off; \<open>nm\<close> is the name in the errors. After a refused seek to a negative target from a position
  other than 0, it asks only that the calls return bytes of the object.
\<close>

fun stream_results :: "bool \<Rightarrow> string \<Rightarrow> byte list \<Rightarrow> int \<Rightarrow> file_op list \<Rightarrow> file_res list \<Rightarrow> bool" where
  "stream_results cutoff nm content p [] rs \<longleftrightarrow> rs = []"
| "stream_results cutoff nm content p (ReadOp n # ops) (ReadRes bs err # rs) \<longleftrightarrow>
     length bs \<le> n \<and> segment content (nat p) bs \<and>
     (err = Some EOF \<longrightarrow> length content \<le> nat p + length bs \<or> cutoff \<and> p = 0 \<and> bs = []) \<and>
     (err = None \<and> 0 < n \<longrightarrow> bs \<noteq> []) \<and>
     stream_results cutoff nm content (p + int (length bs)) ops rs"
| "stream_results cutoff nm content p (SeekOp offset whence # ops) (SeekRes q err # rs) \<longleftrightarrow>
     (let t = wrap64 (seek_origin whence p (int (length content)) + offset) in
      (if whence \<notin> whences then
         q = 0 \<and> err = Some ErrInvalidWhence \<and> stream_results cutoff nm content p ops rs
       else
         (0 \<le> t \<and> q = t \<and> err = None \<and> stream_results cutoff nm content t ops rs) \<or>
         (t < 0 \<and> q = 0 \<and> err = Some (PathError ''seek'' nm ErrInvalid) \<and>
            (if p = 0 then stream_results cutoff nm content 0 ops rs else list_all2 (returned content) ops rs)) \<or>
         (whence = SeekEnd \<and> q = 0 \<and> (\<exists>e. err = Some (translated ''stat'' nm e)) \<and>
            stream_results cutoff nm content p ops rs)))"
| "stream_results cutoff nm content p _ _ \<longleftrightarrow> False"

abbreviation (input) i64_op :: "env \<times> file_op \<Rightarrow> bool" where
  "i64_op \<equiv> \<lambda>(en, op). case op of SeekOp off _ \<Rightarrow> in_i64 off | _ \<Rightarrow> True"

lemma file_run_weak:
  assumes "faithful api (object_path fsys (name f)) at content" and "sized api (object_path fsys (name f)) S"
    and "name f = [] \<longrightarrow> S 0" and "file_weak at content f" and "sized_state (fullPath f) S st" and "size_ok S f"
    and "\<forall>o1 \<in> set ops. i64_op o1"
  shows "\<exists>rs. file_run api fsys ops f st = Some rs \<and> list_all2 (returned content) (map snd ops) rs"
  using assms
proof (induction ops arbitrary: f st)
  case (Cons o1 ops)
  obtain en op where o1: "o1 = (en, op)" by force
  have later: "\<exists>rs. file_run api fsys ops f' st' = Some rs \<and> list_all2 (returned content) (map snd ops) rs"
    if "file_weak at content f'" "same_object f f'" "size_ok S f'" "sized_state (fullPath f) S st'" for f' st'
    using Cons.IH [of f' st'] Cons.prems(1-3,7) that by (simp add: same_object_def)
  show ?case
  proof (cases op)
    case (ReadOp n)
    from gcsFile_Read_weak [OF Cons.prems(1,4-6), of n en] obtain bs err f' st' where
      r: "gcsFile_Read api fsys en n f st = Some ((bs, err), f', st')" "length bs \<le> n" "\<exists>i. segment content i bs"
      "file_weak at content f'" "same_object f f'" "size_ok S f'" "sized_state (fullPath f) S st'"
      unfolding weak_ok_def by blast
    from later [OF r(4-7)] r(1-3) o1 ReadOp show ?thesis by auto
  next
    case (SeekOp offset whence)
    with Cons.prems(7) o1 have off: "in_i64 offset" by auto
    from gcsFile_Seek_weak [OF Cons.prems(1,4,5,2,3,6) off, of en whence] obtain p err f' st' where
      r: "gcsFile_Seek api fsys en offset whence f st = Some ((p, err), f', st')"
      "file_weak at content f'" "same_object f f'" "size_ok S f'" "sized_state (fullPath f) S st'"
      unfolding weak_ok_def by auto
    from later [OF r(2-5)] r(1) o1 SeekOp show ?thesis by auto
  qed
qed simp

text \<open>One seek of the specification, from what the seek of the file guarantees.\<close>

lemma stream_results_seek:
  assumes "same_object f f'" and "pos f = p"
    and res: "case err of
           None \<Rightarrow> file_inv at content f' \<and> pos f' = q \<and> 0 \<le> q \<and> seeks_to ((=) (int (length content))) whence offset f f' q
         | Some e \<Rightarrow> q = 0 \<and>
             (file_inv at content f' \<and> pos f' = pos f \<and> seek_error whence (name f) e \<or>
              e = PathError ''seek'' (name f) ErrInvalid \<and>
              (\<exists>t < 0. seeks_to ((=) (int (length content))) whence offset f f' t) \<and> pos f' = 0 \<and>
              file_weak at content f' \<and> (pos f = 0 \<longrightarrow> file_inv at content f'))"
    and strong: "file_inv at content f' \<Longrightarrow> \<exists>rs. run = Some rs \<and> stream_results cutoff (name f) content (pos f') ops rs"
    and weak: "file_weak at content f' \<Longrightarrow> \<exists>rs. run = Some rs \<and> list_all2 (returned content) ops rs"
  shows "\<exists>rs. run = Some rs \<and>
    stream_results cutoff (name f) content p (SeekOp offset whence # ops) (SeekRes q err # rs)"
proof (cases err)
  case None
  with res strong obtain rs where rs: "run = Some rs" "stream_results cutoff (name f) content q ops rs" by auto
  moreover from None res have "whence \<in> whences" "0 \<le> q"
      "q = wrap64 (seek_origin whence p (int (length content)) + offset)"
    using assms(2) by (auto simp: seeks_to_def seek_origin_def)
  ultimately show ?thesis using None by (auto simp: Let_def)
next
  case (Some e)
  with res consider (error) "q = 0" "file_inv at content f'" "pos f' = pos f" "seek_error whence (name f) e"
    | (refused) t where "q = 0" "e = PathError ''seek'' (name f) ErrInvalid" "t < 0"
      "seeks_to ((=) (int (length content))) whence offset f f' t"
      "pos f' = 0" "file_weak at content f'" "pos f = 0 \<longrightarrow> file_inv at content f'" by auto
  then show ?thesis
  proof cases
    case error
    with strong obtain rs where rs: "run = Some rs" "stream_results cutoff (name f) content p ops rs"
      using assms(2) by auto
    with error Some show ?thesis by (auto simp: Let_def seek_error_def)
  next
    case refused
    then have t: "whence \<in> whences" "t = wrap64 (seek_origin whence p (int (length content)) + offset)"
      using assms(2) by (auto simp: seeks_to_def seek_origin_def)
    obtain rs where "run = Some rs"
      "if p = 0 then stream_results cutoff (name f) content 0 ops rs else list_all2 (returned content) ops rs"
      using strong weak refused assms(2) by (cases "p = 0") auto
    with t refused Some show ?thesis by (auto simp: Let_def)
  qed
qed

lemma file_run_ok:
  assumes "faithful api (object_path fsys (name f)) at content"
    and "sized api (object_path fsys (name f)) ((=) (int (length content)))" and "name f \<noteq> []"
    and "file_inv at content f" and "sized_state (fullPath f) ((=) (int (length content))) st"
    and "size_ok ((=) (int (length content))) f" and "\<forall>o1 \<in> set ops. i64_op o1"
  shows "\<exists>rs. file_run api fsys ops f st = Some rs \<and>
    stream_results (cuts api) (name f) content (pos f) (map snd ops) rs"
  using assms
proof (induction ops arbitrary: f st)
  case (Cons o1 ops)
  let ?S = "(=) (int (length content))"
  obtain en op where o1: "o1 = (en, op)" by force
  have later: "\<exists>rs. file_run api fsys ops f' st' = Some rs \<and> stream_results (cuts api) (name f) content (pos f') (map snd ops) rs"
    if "file_inv at content f'" "same_object f f'" "size_ok ?S f'" "sized_state (fullPath f) ?S st'" for f' st'
    using Cons.IH [of f' st'] Cons.prems(1-3,7) that by (simp add: same_object_def)
  show ?case
  proof (cases op)
    case (ReadOp n)
    from gcsFile_Read_ok [OF Cons.prems(1,4,5), of "cuts api" n en] obtain bs err f' st' where
      r: "gcsFile_Read api fsys en n f st = Some ((bs, err), f', st')" "file_inv at content f'" "same_object f f'"
        "fsize f' = fsize f" "sizeKnown f' = sizeKnown f"
        "sized_state (fullPath f) ?S st'" "length bs \<le> n" "segment content (nat (pos f)) bs" "pos f' = pos f + int (length bs)"
        "err = Some EOF \<longrightarrow> length content \<le> nat (pos f') \<or> early_eof (cuts api) f bs" "err = None \<and> 0 < n \<longrightarrow> bs \<noteq> []"
      unfolding read_ok_def by blast
    have "size_ok ?S f'" using r(4,5) Cons.prems(6) by (simp add: size_ok_def)
    from later [OF r(2,3) this r(6)] obtain rs where ih: "file_run api fsys ops f' st' = Some rs"
      "stream_results (cuts api) (name f) content (pos f') (map snd ops) rs" by blast
    have "0 \<le> pos f" using file_inv_pos [OF Cons.prems(4)] by simp
    then show ?thesis using r ih o1 ReadOp by (auto simp: nat_add_distrib early_eof_def)
  next
    case (SeekOp offset whence)
    with Cons.prems(7) o1 have off: "in_i64 offset" by auto
    have n: "name f = [] \<longrightarrow> ?S 0" using Cons.prems(3) by simp
    from gcsFile_Seek_ok [OF Cons.prems(1,4,5,2) n Cons.prems(6) off, of whence en] obtain q err f' st' where
      r: "gcsFile_Seek api fsys en offset whence f st = Some ((q, err), f', st')" "same_object f f'" "size_ok ?S f'"
        "sized_state (fullPath f) ?S st'"
      and res: "case err of
           None \<Rightarrow> file_inv at content f' \<and> pos f' = q \<and> 0 \<le> q \<and> seeks_to ?S whence offset f f' q
         | Some e \<Rightarrow> q = 0 \<and>
             (file_inv at content f' \<and> pos f' = pos f \<and> seek_error whence (name f) e \<or>
              e = PathError ''seek'' (name f) ErrInvalid \<and> (\<exists>t < 0. seeks_to ?S whence offset f f' t) \<and> pos f' = 0 \<and>
              file_weak at content f' \<and> (pos f = 0 \<longrightarrow> file_inv at content f'))"
      unfolding seek_ok_def by blast
    have weak: "\<exists>rs. file_run api fsys ops f' st' = Some rs \<and> list_all2 (returned content) (map snd ops) rs"
      if "file_weak at content f'"
      using file_run_weak [of api fsys f' at content ?S st' ops] Cons.prems(1-3,7) r(2-4) that n
      by (simp add: same_object_def)
    from stream_results_seek [OF r(2) refl res later [OF _ r(2-4)] weak] obtain rs where
      "file_run api fsys ops f' st' = Some rs"
      "stream_results (cuts api) (name f) content (pos f) (SeekOp offset whence # map snd ops) (SeekRes q err # rs)"
      by blast
    then show ?thesis using r(1) o1 SeekOp by (auto simp del: stream_results.simps)
  qed
qed simp

subsection \<open>A concrete client\<close>

text \<open>A bucket in memory: a reader is the offset it stands at; the world counts the calls.\<close>

definition mem_api :: "byte list \<Rightarrow> (nat, nat, ObjectAttrs list) gcs_api" where
  "mem_api content =
     \<lparr>api_NewRangeReader = (\<lambda>_ _ off _ w. (if off \<le> int (length content) then Inr (nat off) else Inl (OtherError ''range''), w + 1)),
      api_Read = (\<lambda>r n w. let bs = take n (drop r content)
                           in ((bs, (if bs = [] \<and> 0 < n then Some EOF else None), r + length bs), w + 1)),
      api_Close = (\<lambda>_ w. (None, w)),
      api_Attrs = (\<lambda>p _ w. (Inr \<lparr>oa_Name = p, oa_Prefix = [], oa_Size = int (length content), oa_Updated = 7\<rparr>, w + 1)),
      api_Objects = (\<lambda>_ _. []),
      api_Next = (\<lambda>it w. case it of [] \<Rightarrow> (Inl IteratorDone, [], w) | oa # it' \<Rightarrow> (Inr oa, it', w)),
      api_Now = int, api_ErrorText = (\<lambda>_. [])\<rparr>"

lemma segment_self: "segment content i (take n (drop i content))"
  by (rule segment_take) (simp add: segment_iff)

lemma mem_api_faithful: "faithful (mem_api content) p (=) content"
  using segment_self
  by (auto simp: faithful_def mem_api_def Let_def split: if_splits)

lemma mem_api_sized: "sized (mem_api content) p ((=) (int (length content)))"
  by (simp add: sized_def mem_api_def)

lemma mem_api_no_cuts: "cuts (mem_api content) \<longleftrightarrow> False"
  by (auto simp: cuts_def mem_api_def Let_def split: if_splits)

text \<open>The file \<open>Open\<close> returns for a given name, written out.\<close>

definition fresh_file :: "string \<Rightarrow> string \<Rightarrow> ('r, 'it) gcsFile" where
  "fresh_file nm p = \<lparr>name = nm, fullPath = p, reader = None, pos = 0, fsize = 0, sizeKnown = False,
     sniffBuf = None, sniffLen = 0, sniffPos = 0, diter = None\<rparr>"

lemma fs_Open_fresh: "fs_Open fsys nm = Inr f \<Longrightarrow> \<exists>n p. f = fresh_file n p"
  by (auto simp: fs_Open_def fresh_file_def Let_def split: if_splits)

lemma sample_open: "\<exists>f :: (nat, ObjectAttrs list) gcsFile. fs_Open sample_fs ''b'' = Inr f"
  using sample_valid(2) by (auto simp: fs_Open_def Let_def)

definition idle_state :: "nat fs_state" where
  "idle_state = \<lparr>st_cache = None, st_world = 0\<rparr>"

lemma idle_state_inv [simp]: "st_inv idle_state"
  by (simp add: idle_state_def st_inv_def)

lemma idle_state_sized [simp]: "sized_state k S idle_state"
  by (simp add: idle_state_def st_inv_def sized_state_def)

subsection \<open>Clients that do not fail\<close>

definition reliable :: "('w, 'r, 'it) gcs_api \<Rightarrow> string \<Rightarrow> byte list \<Rightarrow> bool" where
  "reliable api p content \<longleftrightarrow>
     (\<forall>ctx off w e w'. 0 \<le> off \<and> off \<le> int (length content) \<longrightarrow> api_NewRangeReader api p ctx off (-1) w \<noteq> (Inl e, w')) \<and>
     (\<forall>r n w bs err r' w'. api_Read api r n w = ((bs, err, r'), w') \<longrightarrow> err = None \<or> err = Some EOF)"

lemma reliable_no_cuts: "reliable api p content \<Longrightarrow> \<not> cuts api"
  unfolding reliable_def cuts_def by blast

lemma mem_api_reliable: "reliable (mem_api content) p content"
  by (auto simp: reliable_def mem_api_def Let_def split: if_splits)

lemma gcsFile_Read_reliable:
  assumes fa: "faithful api (object_path fsys (name f)) at content"
    and rel: "reliable api (object_path fsys (name f)) content" and p: "0 \<le> pos f" "pos f \<le> int (length content)"
    and r: "gcsFile_Read api fsys en n f st = Some ((bs, err), f', st')"
  shows "err \<in> {None, Some EOF}"
proof -
  have rd: "err1 = None \<or> err1 = Some EOF" if "api_Read api r n w = ((bs1, err1, r1), w1)" for r n w bs1 err1 r1 w1
    using rel that unfolding reliable_def by blast
  have through: "err \<in> {None, Some EOF}" if rt: "read_through api fsys en n r f st = Some ((bs, err), f', st')" for r f st
  proof -
    obtain bs1 err1 r1 w1 where a: "api_Read api r n (st_world st) = ((bs1, err1, r1), w1)" by (metis prod.exhaust)
    from rd [OF a] rt a show ?thesis by (auto simp: read_through_def Let_def)
  qed
  have first: "err \<in> {None, Some EOF}"
    if rf: "read_first api fsys en n r f st = Some ((bs, err), f', st')" and at_r: "at r 0" for r f st
  proof -
    obtain sb e r1 w1 where io: "io_ReadFull api r sniffSize (st_world st) = Some (sb, e, r1, w1)"
      "sb = [] \<longrightarrow> e = None \<or> e = Some EOF"
      using io_ReadFull_returns [OF fa at_r, of sniffSize "\<lambda>e. e = None \<or> e = Some EOF" "st_world st"] rd by simp blast
    with rf show ?thesis by (cases "sb = []") (auto simp: read_first_def Let_def)
  qed
  obtain res w1 where o: "api_NewRangeReader api (object_path fsys (name f)) (fs_ctx fsys) (pos f) (-1) (st_world st) = (res, w1)"
    by (metis prod.exhaust)
  with rel p obtain rr where rr: "res = Inr rr" unfolding reliable_def by (metis old.sum.exhaust)
  have "at rr (nat (pos f))" using faithful_open [OF fa p(1) o [unfolded rr]] .
  with o rr r through first show ?thesis
    by (auto simp: gcsFile_Read_def read_sniffed_def Let_def split: if_splits option.splits)
qed

lemma se_drain_exists:
  assumes "same_client s0 s" and "reliable (se_api s0) (object_path (se_fs s0) (name (se_file s0))) (se_content s0)"
    and "se_inv s" and "se_offset s \<le> length (se_content s)"
  shows "\<exists>out s'. drain se_read EOF s out s'"
proof (rule gcs_stream.drain_exists [where n = 1 and rel = "\<lambda>s. same_client s0 s \<and> se_offset s \<le> length (se_content s)"])
  fix s bs err s'
  assume i: "se_inv s" and c: "same_client s0 s \<and> se_offset s \<le> length (se_content s)" and r: "se_read s 1 bs err s'"
  have d: "se_content s' = se_content s" "segment (se_content s) (se_offset s) bs" "se_offset s' = se_offset s + length bs"
    using se_readD [OF i r] by (auto simp: same_client_def)
  have "se_offset s' \<le> length (se_content s')" using segment_bound [OF d(2)] c d(1,3) by auto
  moreover have "same_client s0 s'" using se_readD [OF i r] c by (auto simp: same_client_def)
  moreover have "err \<in> {None, Some EOF}"
  proof -
    have "0 \<le> pos (se_file s)" using i file_inv_pos by (auto simp: se_inv_def)
    then have "pos (se_file s) \<le> int (length (se_content s))" using c by (auto simp: se_offset_def)
    moreover have "reliable (se_api s) (object_path (se_fs s) (name (se_file s))) (se_content s)"
      using assms(2) c by (simp add: same_client_def)
    ultimately show ?thesis
      using r i gcsFile_Read_reliable \<open>0 \<le> pos (se_file s)\<close> unfolding se_read_def se_inv_def by metis
  qed
  ultimately show "(err = None \<or> err = Some EOF) \<and> same_client s0 s' \<and> se_offset s' \<le> length (se_content s')" by auto
qed (use assms in auto)

text \<open>The first read of a file that reports no error leaves a filled sniff buffer.\<close>

lemma first_read_fills_buffer:
  assumes "fs_Open fsys nm = Inr f" and "gcsFile_Read api fsys en n f st = Some ((bs, None), f1, st1)"
  shows "sniffBuf f1 \<noteq> None"
proof -
  obtain n0 p0 where f: "f = fresh_file n0 p0" using fs_Open_fresh [OF assms(1)] by blast
  obtain r w0 where o: "api_NewRangeReader api (object_path fsys n0) (fs_ctx fsys) 0 (-1) (st_world st) = (Inr r, w0)"
    using assms(2) by (auto simp: gcsFile_Read_def f fresh_file_def read_fail_def translateError_def Let_def
        split: sum.splits prod.splits option.splits if_splits)
  with assms(2) show ?thesis
    by (auto simp: gcsFile_Read_def f fresh_file_def read_first_def read_fail_def translateError_def Let_def
        split: option.splits if_splits)
qed

subsection \<open>Properties of files\<close>

text \<open>
  C1. A file opened on an object is that object's bytes. For every sequence of \<open>Read\<close> and
  \<open>Seek\<close> calls, through whichever of the sniff buffer, the open reader, a skip or a reopened
  reader serves them, and whatever opens and reads fail on the way:
  all calls return (no loop over the client spins, no panic); reads deliver exactly the
  object's bytes at the current position and advance it; a read without error makes progress;
  end-of-file is reported only at the end, except that a read of nothing at position 0 may report it
  if the client cuts streams off (\<open>io.ErrUnexpectedEOF\<close>); seeks land where the arithmetic of the
  three origins says, \<open>SeekEnd\<close> counting from the length of the object; a bad \<open>whence\<close> and a
  failed \<open>Stat\<close> are reported and leave the position as it was; a negative target is refused.
  Such a refusal ends the guarantee on positions unless the position was 0, since the code then
  loses track of them: the later calls still return, and reads hand out consecutive bytes of the
  object.
  The client is \<open>faithful\<close> to the object, and the sizes it reports and the cache holds are those
  of the object.
\<close>

theorem file_refines_stream:
  assumes "fs_Open fsys nm = Inr f" and "nm \<noteq> ''.''"
    and "faithful api (object_path fsys nm) at content"
    and "sized api (object_path fsys nm) ((=) (int (length content)))"
    and "int (length content) < 2 ^ 63" and "sized_state (fullPath f) ((=) (int (length content))) st"
    and "\<forall>(en, op) \<in> set ops. case op of SeekOp off _ \<Rightarrow> in_i64 off | _ \<Rightarrow> True"
  shows "\<exists>rs. file_run api fsys ops f st = Some rs \<and> stream_results (cuts api) nm content 0 (map snd ops) rs"
proof -
  have nm: "name f = nm" "nm \<noteq> []" using assms(1,2) by (cases rule: fs_Open_cases; simp)+
  have "file_inv at content f" "pos f = 0" using fs_Open_file_inv [OF assms(1,5)] by auto
  moreover have "size_ok S f" for S using fs_Open_fresh [OF assms(1)] by (auto simp: size_ok_def fresh_file_def)
  ultimately show ?thesis using file_run_ok [of api fsys f at content st ops] assms(3,4,6,7) nm by simp
qed

theorem file_refines_stream_witness:
  "\<exists>(f :: (nat, ObjectAttrs list) gcsFile) rs. fs_Open sample_fs ''b'' = Inr f \<and>
     file_run (mem_api [1, 2, 3]) sample_fs
       [(sample_env, ReadOp 2), (sample_env, SeekOp (-2) 2), (sample_env, ReadOp 9), (sample_env, SeekOp 0 7),
        (sample_env, SeekOp (-9) 1), (sample_env, ReadOp 1)]
       f idle_state = Some rs \<and>
     stream_results False ''b'' [1, 2, 3] 0 [ReadOp 2, SeekOp (-2) 2, ReadOp 9, SeekOp 0 7, SeekOp (-9) 1, ReadOp 1] rs"
proof -
  obtain f :: "(nat, ObjectAttrs list) gcsFile" where f: "fs_Open sample_fs ''b'' = Inr f" using sample_open by blast
  let ?ops = "[(sample_env, ReadOp 2), (sample_env, SeekOp (-2) 2), (sample_env, ReadOp 9), (sample_env, SeekOp 0 7),
     (sample_env, SeekOp (-9) 1), (sample_env, ReadOp 1)]"
  have "\<exists>rs. file_run (mem_api [1, 2, 3]) sample_fs ?ops f idle_state = Some rs \<and>
      stream_results (cuts (mem_api [1, 2, 3])) ''b'' [1, 2, 3] 0 (map snd ?ops) rs"
    by (rule file_refines_stream [OF f _ mem_api_faithful mem_api_sized]) (simp_all add: in_i64_def)
  with f show ?thesis by (auto simp del: stream_results.simps simp: mem_api_no_cuts)
qed

text \<open>
  C6. Serving a file the way \<^verbatim>\<open>http.ServeContent\<close> does, that is, sniffing a head of any size,
  rewinding, then reading with buffers of any sizes until end-of-file, sends exactly the
  object, with one exception: where the sniffing read failed and the client cuts streams off
  (\<open>io.ErrUnexpectedEOF\<close>), it may send nothing at all. And end-of-file is reached: if no
  call on the client fails, reading on with a non-empty buffer does come to an end, after exactly
  the object.
\<close>

theorem serve_content_delivers_object:
  assumes "fs_Open (se_fs s) nm = Inr (se_file s)"
    and "faithful (se_api s) (object_path (se_fs s) (name (se_file s))) (se_at s) (se_content s)"
    and "int (length (se_content s)) < 2 ^ 63" and "st_inv (se_state s)"
    and "se_read s n bs err s1" and "se_seek s1 0 s2"
  shows "(\<forall>out s3. drain se_read EOF s2 out s3 \<longrightarrow>
      out = se_content s \<or> out = [] \<and> err \<noteq> None \<and> cuts (se_api s)) \<and>
    (reliable (se_api s) (object_path (se_fs s) (name (se_file s))) (se_content s) \<longrightarrow>
       (\<exists>s3. drain se_read EOF s2 (se_content s) s3))"
proof -
  have i: "se_inv s" using assms fs_Open_file_inv [OF assms(1)] by (simp add: se_inv_def)
  have hl: "err \<noteq> None \<and> cuts (se_api s)" if "se_headless s1"
  proof -
    obtain en f' st' where
      r: "gcsFile_Read (se_api s) (se_fs s) en n (se_file s) (se_state s) = Some ((bs, err), f', st')"
      and s1: "s1 = s\<lparr>se_file := f', se_state := st'\<rparr>"
      using assms(5) unfolding se_read_def by blast
    have "err = None \<Longrightarrow> sniffBuf f' \<noteq> None" using first_read_fills_buffer [OF assms(1)] r by blast
    with that s1 show ?thesis by (auto simp: se_headless_def)
  qed
  have out: "out = se_content s \<or> out = [] \<and> se_headless s1" if "drain se_read EOF s2 out s3" for out s3
    using gcs_stream.sniff_rewind_drain [OF i assms(5,6) that] by auto
  have i1: "se_inv s1" using se_readD [OF i assms(5)] by blast
  then have "se_inv s2" "se_offset s2 = 0" using se_seekD [OF _ assms(6)] by blast+
  moreover have "same_client s s2" using se_readD [OF i assms(5)] se_seekD [OF i1 assms(6)]
    by (auto simp: same_client_def)
  ultimately have "\<exists>o3 s3. drain se_read EOF s2 o3 s3"
    if "reliable (se_api s) (object_path (se_fs s) (name (se_file s))) (se_content s)"
    using se_drain_exists [OF _ that] by simp
  moreover have "\<not> cuts (se_api s)"
    if "reliable (se_api s) (object_path (se_fs s) (name (se_file s))) (se_content s)"
    using reliable_no_cuts [OF that] .
  ultimately show ?thesis using out hl by blast
qed

theorem serve_content_delivers_object_witness:
  "\<exists>(s :: (nat, nat, ObjectAttrs list) session) s1 s2 s3. se_content s = [1, 2, 3] \<and>
     se_read s 512 [1, 2, 3] None s1 \<and> se_seek s1 0 s2 \<and> drain se_read EOF s2 [1, 2, 3] s3"
proof -
  obtain f :: "(nat, ObjectAttrs list) gcsFile" where f: "fs_Open sample_fs ''b'' = Inr f" using sample_open by blast
  obtain nm p where ff: "f = fresh_file nm p" using fs_Open_fresh [OF f] by blast
  let ?s = "\<lparr>se_api = mem_api [1, 2, 3], se_fs = sample_fs, se_at = (=), se_content = [1, 2, 3], se_file = f,
     se_state = idle_state\<rparr>"
  let ?f1 = "f\<lparr>reader := Some 3, pos := 3, sniffBuf := Some [1, 2, 3], sniffLen := 3, sniffPos := 3\<rparr>"
  have "io_ReadFull (mem_api [1, 2, 3]) 0 sniffSize w = Some ([1, 2, 3], Some ErrUnexpectedEOF, 3, w + 2)" for w
    by (simp add: io_ReadFull_def mem_api_def readAtLeast.simps)
  then have "\<exists>w. gcsFile_Read (mem_api [1, 2, 3]) sample_fs sample_env 512 f idle_state
      = Some (([1, 2, 3], None), ?f1, idle_state\<lparr>st_world := w\<rparr>)"
    by (simp add: gcsFile_Read_def ff fresh_file_def read_first_def mem_api_def idle_state_def wrap64_def)
  then obtain w where r: "se_read ?s 512 [1, 2, 3] None (?s\<lparr>se_file := ?f1, se_state := idle_state\<lparr>st_world := w\<rparr>\<rparr>)"
    unfolding se_read_def by auto
  let ?s1 = "?s\<lparr>se_file := ?f1, se_state := idle_state\<lparr>st_world := w\<rparr>\<rparr>"
  let ?s2 = "?s1\<lparr>se_file := ?f1\<lparr>pos := 0, sniffPos := 0\<rparr>\<rparr>"
  have "gcsFile_Seek (mem_api [1, 2, 3]) sample_fs sample_env 0 0 ?f1 (se_state ?s1)
      = Some ((0, None), ?f1\<lparr>pos := 0, sniffPos := 0\<rparr>, se_state ?s1)"
    by (simp add: gcsFile_Seek_def seek_target_def seek_to_def seek_sniffed_def)
  then have k: "se_seek ?s1 0 ?s2"
    unfolding se_seek_def
    by (intro exI [of _ sample_env] exI [of _ 0] exI [of _ "?f1\<lparr>pos := 0, sniffPos := 0\<rparr>"] exI [of _ "se_state ?s1"])
      (simp add: in_i64_def)
  have "\<exists>s3. drain se_read EOF ?s2 [1, 2, 3] s3"
    using serve_content_delivers_object [of ?s "''b''" 512 "[1, 2, 3]" None ?s1 ?s2] f r k
    by (simp add: mem_api_faithful mem_api_reliable)
  with r k have "se_content ?s = [1, 2, 3] \<and> se_read ?s 512 [1, 2, 3] None ?s1 \<and> se_seek ?s1 0 ?s2 \<and>
      (\<exists>s3. drain se_read EOF ?s2 [1, 2, 3] s3)" by simp
  then show ?thesis by blast
qed

text \<open>
  C40. Sniffing costs one request: after the first read of a file has returned data, rewinding
  to any position inside the bytes captured and reading again is served from the buffer. The
  client is not called (the results hold for any other client \<open>api'\<close>, and the world changes
  only by the byte counter) and the open reader is kept for what follows.
\<close>

theorem rewind_served_from_buffer:
  assumes "fs_Open fsys nm = Inr f" and "faithful api (object_path fsys (name f)) at content"
    and "int (length content) < 2 ^ 63" and "st_inv st"
    and "gcsFile_Read api fsys en blen f st = Some ((bs, None), f1, st1)" and "0 < blen"
  shows "\<exists>sb. sniffBuf f1 = Some sb \<and> sb \<noteq> [] \<and> length sb \<le> sniffSize \<and> segment content 0 sb \<and>
    (\<forall>k api' en' n. k < length sb \<longrightarrow>
       (let f2 = f1\<lparr>pos := int k, sniffPos := k\<rparr>; out = take n (drop k sb) in
        gcsFile_Seek api' fsys en' (int k) SeekStart f1 st1 = Some ((int k, None), f2, st1) \<and>
        gcsFile_Read api' fsys en' n f2 st1 =
          Some ((out, None), f2\<lparr>sniffPos := k + length out, pos := int (k + length out)\<rparr>,
                st1\<lparr>st_world := recordStreamBytes fsys (int (length out)) (st_world st1)\<rparr>)))"
proof -
  obtain n0 p0 where f: "f = fresh_file n0 p0" using fs_Open_fresh [OF assms(1)] by blast
  obtain r w0 where o: "api_NewRangeReader api (object_path fsys n0) (fs_ctx fsys) 0 (-1) (st_world st) = (Inr r, w0)"
    using assms(5) by (auto simp: gcsFile_Read_def f fresh_file_def read_fail_def translateError_def Let_def
        split: sum.splits prod.splits option.splits if_splits)
  have at0: "at r 0" using faithful_open [OF assms(2), of 0] o f by (fastforce simp: fresh_file_def)
  let ?st = "st\<lparr>st_world := recordGCSOp api fsys ''read'' (api_Now api (st_world st)) None w0\<rparr>"
  obtain sb e r' w' where io: "io_ReadFull api r sniffSize (st_world ?st) = Some (sb, e, r', w')"
    "segment content 0 sb" "length sb \<le> sniffSize"
    using io_ReadFull_returns [OF assms(2) at0, of sniffSize "\<lambda>_. True" "st_world ?st"] by auto
  have rf: "read_first api fsys en blen r (f\<lparr>reader := Some r\<rparr>) ?st = Some ((bs, None), f1, st1)"
    using assms(5) o by (simp add: gcsFile_Read_def f fresh_file_def Let_def)
  have ne: "sb \<noteq> []"
    using rf io(1) by (auto simp: read_first_def read_fail_def translateError_def Let_def split: option.splits if_splits)
  then have f1: "sniffBuf f1 = Some sb" "sniffLen f1 = length sb" "pos f1 = wrap64 (int (length (take blen sb)))"
    using rf io(1) by (auto simp: read_first_def Let_def f fresh_file_def)
  have len: "length sb \<le> length content" using segment_bound [OF io(2)] ne by simp
  then have w: "wrap64 (int j) = int j" if "j \<le> length sb" for j
    using assms(3) that by (simp add: i64_simps)
  from f1(3) have p1: "pos f1 \<le> int (length sb)" using w [of "length (take blen sb)"] by simp
  have "gcsFile_Seek api' fsys en' (int k) SeekStart f1 st1 = Some ((int k, None), f1\<lparr>pos := int k, sniffPos := k\<rparr>, st1)"
    if "k < length sb" for k api' en'
    using that f1(1,2) p1 by (simp add: gcsFile_Seek_def seek_target_def seek_to_def seek_sniffed_def)
  moreover have "gcsFile_Read api' fsys en' n (f1\<lparr>pos := int k, sniffPos := k\<rparr>) st1 =
      Some ((take n (drop k sb), None),
        f1\<lparr>pos := int (k + length (take n (drop k sb))), sniffPos := k + length (take n (drop k sb))\<rparr>,
        st1\<lparr>st_world := recordStreamBytes fsys (int (length (take n (drop k sb)))) (st_world st1)\<rparr>)"
    if "k < length sb" for k api' en' n
    using that f1(1,2) w [of "k + length (take n (drop k sb))"] by (simp add: gcsFile_Read_def read_sniffed_def Let_def)
  ultimately show ?thesis using f1(1) ne io(2,3) by (simp add: Let_def)
qed

theorem rewind_served_from_buffer_witness:
  "\<exists>(f :: (nat, ObjectAttrs list) gcsFile) f1 st1 sb. fs_Open sample_fs ''b'' = Inr f \<and>
     gcsFile_Read (mem_api [1, 2, 3]) sample_fs sample_env 2 f idle_state = Some (([1, 2], None), f1, st1) \<and>
     sniffBuf f1 = Some sb \<and> sb \<noteq> []"
proof -
  obtain f :: "(nat, ObjectAttrs list) gcsFile" where f: "fs_Open sample_fs ''b'' = Inr f" using sample_open by blast
  obtain nm p where ff: "f = fresh_file nm p" using fs_Open_fresh [OF f] by blast
  have "io_ReadFull (mem_api [1, 2, 3]) 0 sniffSize w = Some ([1, 2, 3], Some ErrUnexpectedEOF, 3, w + 2)" for w
    by (simp add: io_ReadFull_def mem_api_def readAtLeast.simps)
  then have "\<exists>f1 st1. gcsFile_Read (mem_api [1, 2, 3]) sample_fs sample_env 2 f idle_state = Some (([1, 2], None), f1, st1)"
    by (simp add: gcsFile_Read_def ff fresh_file_def read_first_def mem_api_def idle_state_def)
  then obtain f1 st1 where r: "gcsFile_Read (mem_api [1, 2, 3]) sample_fs sample_env 2 f idle_state = Some (([1, 2], None), f1, st1)"
    by blast
  have "\<exists>sb. sniffBuf f1 = Some sb \<and> sb \<noteq> []"
    using rewind_served_from_buffer [OF f mem_api_faithful _ idle_state_inv r] by fastforce
  with f r show ?thesis by blast
qed

text \<open>
  \<open>SeekEnd\<close> counts from the object's size: on a freshly opened object of a bucket that does
  not change, with a truthful cache in front of it, seeking to an offset from the end lands
  at size plus offset if that is not negative, and is refused otherwise.
\<close>

lemma seek_end_uses_object_size:
  assumes "fs_Open fsys nm = Inr f" and "nm \<noteq> ''.''" and "stable_backend api A L" and "cache_agrees A L fsys st"
    and "A (object_path fsys nm) = Inr oa" and "0 \<le> oa_Size oa" "oa_Size oa < 2 ^ 63"
    and "- (2 ^ 63) \<le> offset" "offset \<le> 0"
  shows "\<exists>f' st'. gcsFile_Seek api fsys en offset SeekEnd f st =
    Some ((if oa_Size oa + offset < 0 then (0, Some (PathError ''seek'' nm ErrInvalid)) else (oa_Size oa + offset, None)), f', st') \<and>
    pos f' = max 0 (oa_Size oa + offset)"
proof -
  have nm: "name f = nm" "nm \<noteq> []" using assms(1,2) by (cases rule: fs_Open_cases; simp)+
  obtain n0 p0 where f: "f = fresh_file n0 p0" using fs_Open_fresh [OF assms(1)] by blast
  have "stat_spec A L fsys (name f) = Inr oa" using nm assms(5) by (simp add: stat_spec_def)
  with gcsFile_Stat_answers [OF assms(4,1,3), of en]
  obtain st1 where st: "gcsFile_Stat api fsys en f st = Some (Inr \<lparr>fi_attrs = oa\<rparr>, st1)"
    by (auto simp: answers_def)
  have w: "wrap64 (oa_Size oa + offset) = oa_Size oa + offset"
    using assms(6-9) by (intro wrap64_id) (simp add: in_i64_def)
  let ?f = "f\<lparr>fsize := oa_Size oa, sizeKnown := True\<rparr>"
  have t: "seek_target api fsys en offset SeekEnd f st = Some (Inr (oa_Size oa + offset), ?f, st1)"
    using st w by (simp add: seek_target_def f fresh_file_def fi_Size_def)
  have "seek_to api (oa_Size oa + offset) ?f st1 = Some (?f\<lparr>pos := oa_Size oa + offset\<rparr>, st1)"
    by (simp add: seek_to_def seek_reopen_def drop_reader_def f fresh_file_def)
  with t nm show ?thesis by (auto simp: gcsFile_Seek_def)
qed

lemma seek_end_uses_object_size_witness:
  "\<exists>(f :: (unit, query) gcsFile) f' st'. fs_Open sample_fs ''a.txt'' = Inr f \<and>
     gcsFile_Seek (sample_api (\<lambda>_. Inl IteratorDone)) sample_fs sample_env (-1) 2 f \<lparr>st_cache = None, st_world = 0\<rparr>
       = Some ((1, None), f', st')"
proof -
  obtain f :: "(unit, query) gcsFile" where f: "fs_Open sample_fs ''a.txt'' = Inr f"
    using sample_valid(1) by (auto simp: fs_Open_def Let_def)
  have "object_path sample_fs ''a.txt'' = ''site/a.txt''"
    by (simp add: object_path_def sample_fs_def fs_Sub_def newGCSFS_def path_Join_def path_Clean_def clean_stack_def)
  then have o: "sample_objects (object_path sample_fs ''a.txt'') = Inr sample_attrs" by (simp add: sample_objects_def)
  have a: "cache_agrees sample_objects L sample_fs (\<lparr>st_cache = None, st_world = 0\<rparr> :: nat fs_state)" for L
    by (simp add: cache_fresh_def st_inv_def)
  from seek_end_uses_object_size [OF f _ sample_api_stable [of "\<lambda>_. Inl IteratorDone"] a o, where offset = "-1" and en = sample_env]
  obtain f' st' where "gcsFile_Seek (sample_api (\<lambda>_. Inl IteratorDone)) sample_fs sample_env (-1) 2 f
      \<lparr>st_cache = None, st_world = 0\<rparr> = Some ((1, None), f', st')"
    by (auto simp: sample_attrs_def)
  with f show ?thesis by blast
qed

text \<open>
  C39. A refused seek to a negative position breaks the file: it resets the position to 0 but
  neither the place in the sniff buffer nor the open reader, so the next read returns the
  bytes that follow the old position while the file accounts them from 0 on.
\<close>

theorem negative_seek_desynchronizes:
  assumes "file_inv at content f" and "sniffBuf f = Some sb" and "0 < pos f" and "pos f < int (sniffLen f)"
    and "offset < 0"
  shows "let old = nat (pos f); out = take n (drop old sb); f1 = f\<lparr>pos := 0\<rparr> in
    gcsFile_Seek api fsys en offset SeekStart f st = Some ((0, Some (PathError ''seek'' (name f) ErrInvalid)), f1, st) \<and>
    \<not> file_inv at content f1 \<and>
    (\<exists>f2 st2. gcsFile_Read api fsys en n f1 st = Some ((out, None), f2, st2) \<and> pos f2 = int (length out) \<and>
       segment content old out)"
proof -
  note s = file_inv_sniff [OF assms(1,2)]
  have sp: "sniffPos f = nat (pos f)" "sniffPos f < sniffLen f" using s(3) assms(3,4) by auto
  have len: "int (length (take n (drop (nat (pos f)) sb))) < 2 ^ 63"
    using segment_bound [OF s(2)] file_inv_pos [OF assms(1)] s(1) assms(4) by auto
  then have w: "wrap64 (int (length (take n (drop (nat (pos f)) sb)))) = int (length (take n (drop (nat (pos f)) sb)))"
    by (simp add: i64_simps)
  have "gcsFile_Seek api fsys en offset SeekStart f st =
      Some ((0, Some (PathError ''seek'' (name f) ErrInvalid)), f\<lparr>pos := 0\<rparr>, st)"
    using assms(5) by (simp add: gcsFile_Seek_def seek_target_def)
  moreover have "\<not> file_inv at content (f\<lparr>pos := 0\<rparr>)"
    using assms(2-4) sp s(1) by (auto simp: file_inv_def)
  moreover have "gcsFile_Read api fsys en n (f\<lparr>pos := 0\<rparr>) st = read_sniffed fsys n sb (f\<lparr>pos := 0\<rparr>) st"
    using assms(2-4) sp by (simp add: gcsFile_Read_def)
  moreover have "segment content (nat (pos f)) (take n (drop (nat (pos f)) sb))"
    using segment_take [OF segment_drop [OF s(2)], of "nat (pos f)" n] assms(3,4) s(1) by simp
  ultimately show ?thesis
    using sp s(1) w by (simp add: read_sniffed_def Let_def)
qed

theorem negative_seek_desynchronizes_witness:
  "\<exists>f2 st2. gcsFile_Read (mem_api [1, 2]) sample_fs sample_env 1
     ((fresh_file ''b'' ''site/b'')\<lparr>pos := 0, sniffBuf := Some [1, 2], sniffLen := 2, sniffPos := 1, reader := Some 2\<rparr>)
     idle_state = Some (([2], None), f2, st2) \<and> pos f2 = 1"
proof -
  let ?f = "(fresh_file ''b'' ''site/b'')\<lparr>pos := 1, sniffBuf := Some [1, 2], sniffLen := 2, sniffPos := 1, reader := Some 2\<rparr>"
  have fi: "file_inv (=) [1, 2] ?f" by (simp add: file_inv_def fresh_file_def segment_def)
  from negative_seek_desynchronizes [OF fi, where offset = "-5" and n = 1 and api = "mem_api [1, 2]" and fsys = sample_fs
      and en = sample_env and st = idle_state and sb = "[1, 2]"]
  show ?thesis by (auto simp: fresh_file_def Let_def)
qed

text \<open>
  A stream cut off before its first byte looks like an empty file: if the first read of
  the reader ends in \<open>io.ErrUnexpectedEOF\<close> without data, \<open>Read\<close> reports a clean end-of-file
  instead of an error.
\<close>

lemma truncated_first_read_is_eof:
  assumes "fs_Open fsys nm = Inr f"
    and "api_NewRangeReader api (object_path fsys (name f)) (fs_ctx fsys) 0 (-1) (st_world st) = (Inr r, wo)"
    and "\<And>w. api_Read api r sniffSize w = (([], Some ErrUnexpectedEOF, r'), w)"
  shows "\<exists>f' st'. gcsFile_Read api fsys en blen f st = Some (([], Some EOF), f', st')"
proof -
  obtain n0 p0 where f: "f = fresh_file n0 p0" using fs_Open_fresh [OF assms(1)] by blast
  have "io_ReadFull api r sniffSize w = Some ([], Some ErrUnexpectedEOF, r', w)" for w
    using assms(3) by (simp add: io_ReadFull_def readAtLeast.simps)
  with assms(2) show ?thesis
    by (simp add: gcsFile_Read_def f fresh_file_def read_first_def Let_def)
qed

lemma truncated_first_read_is_eof_witness:
  "\<exists>(f :: (nat, ObjectAttrs list) gcsFile) f' st'. fs_Open sample_fs ''b'' = Inr f \<and>
     gcsFile_Read ((mem_api [1])\<lparr>api_Read := \<lambda>r n w. (([], Some ErrUnexpectedEOF, r), w)\<rparr>) sample_fs sample_env 9 f idle_state
       = Some (([], Some EOF), f', st')"
proof -
  obtain f :: "(nat, ObjectAttrs list) gcsFile" where f: "fs_Open sample_fs ''b'' = Inr f" using sample_open by blast
  let ?api = "(mem_api [1])\<lparr>api_Read := \<lambda>r n w. (([], Some ErrUnexpectedEOF, r), w)\<rparr>"
  have "\<exists>f' st'. gcsFile_Read ?api sample_fs sample_env 9 f idle_state = Some (([], Some EOF), f', st')"
    by (rule truncated_first_read_is_eof [OF f, where r = 0 and r' = 0 and wo = 1])
      (simp_all add: mem_api_def idle_state_def)
  with f show ?thesis by blast
qed

subsection \<open>Directories\<close>

text \<open>
  \<open>lists api rest\<close>: \<open>rest it\<close> are the entries an iterator has left; \<open>Next\<close> hands out the first
  and, when none is left, keeps answering \<open>iterator.Done\<close>.
\<close>

definition lists :: "('w, 'r, 'it) gcs_api \<Rightarrow> ('it \<Rightarrow> ObjectAttrs list) \<Rightarrow> bool" where
  "lists api rest \<longleftrightarrow>
     (\<forall>it w. \<exists>it' w'. case rest it of
        [] \<Rightarrow> api_Next api it w = (Inl IteratorDone, it', w') \<and> rest it' = []
      | oa # oas \<Rightarrow> api_Next api it w = (Inr oa, it', w') \<and> rest it' = oas)"

lemma lists_cases:
  assumes "lists api rest"
  obtains (exhausted) it' w' where "rest it = []" "api_Next api it w = (Inl IteratorDone, it', w')" "rest it' = []"
  | (more) oa it' w' where "rest it = oa # rest it'" "api_Next api it w = (Inr oa, it', w')"
proof -
  from assms obtain it' w' where "case rest it of
        [] \<Rightarrow> api_Next api it w = (Inl IteratorDone, it', w') \<and> rest it' = []
      | oa # oas \<Rightarrow> api_Next api it w = (Inr oa, it', w') \<and> rest it' = oas"
    unfolding lists_def by blast
  with exhausted more show ?thesis by (cases "rest it") auto
qed

abbreviation entry_of :: "ObjectAttrs \<Rightarrow> gcsFileInfo" where
  "entry_of oa \<equiv> \<lparr>fi_attrs = oa\<rparr>"

lemma readdir_loop_all:
  assumes "lists api rest" and "n \<le> 0"
  shows "\<exists>it' w'. readdir_loop api n it acc w = Some (acc @ map entry_of (rest it), Some IteratorDone, it', w') \<and> rest it' = []"
proof (induction "rest it" arbitrary: it acc w)
  case Nil
  from assms(1) show ?case
    by (cases rule: lists_cases [where it = it and w = w]) (use Nil in \<open>auto simp: readdir_loop.simps\<close>)
next
  case (Cons oa oas)
  from assms(1) obtain it1 w1 where s: "api_Next api it w = (Inr oa, it1, w1)" "rest it1 = oas"
    by (cases rule: lists_cases [where it = it and w = w]) (use Cons.hyps(2) in auto)
  from Cons.hyps(1) [OF s(2) [symmetric], of "acc @ [entry_of oa]" w1] s assms(2) Cons.hyps(2) [symmetric]
  show ?case by (subst readdir_loop.simps) (simp add: Let_def)
qed

lemma readdir_loop_page:
  assumes "lists api rest"
  shows "int (length acc) < n \<Longrightarrow>
    \<exists>it' w'. let k = nat n - length acc in
      readdir_loop api n it acc w =
        Some (acc @ map entry_of (take k (rest it)), (if length (rest it) < k then Some IteratorDone else None), it', w') \<and>
      rest it' = drop k (rest it)"
proof (induction "rest it" arbitrary: it acc w)
  case Nil
  from assms show ?case
    by (cases rule: lists_cases [where it = it and w = w]) (use Nil in \<open>auto simp: readdir_loop.simps Let_def\<close>)
next
  case (Cons oa oas)
  from assms obtain it1 w1 where s: "api_Next api it w = (Inr oa, it1, w1)" "rest it1 = oas"
    by (cases rule: lists_cases [where it = it and w = w]) (use Cons.hyps(2) in auto)
  have k: "nat n - length acc = Suc (nat n - length (acc @ [entry_of oa]))" using Cons.prems by simp
  show ?case
  proof (cases "int (length (acc @ [entry_of oa])) = n")
    case True
    then have "nat n - length acc = 1" by simp
    with s True Cons.hyps(2) [symmetric] show ?thesis by (subst readdir_loop.simps) (simp add: Let_def)
  next
    case False
    with Cons.prems have lt: "int (length (acc @ [entry_of oa])) < n" by simp
    from Cons.hyps(1) [OF s(2) [symmetric] lt, of w1] s k False Cons.hyps(2) [symmetric]
    show ?thesis by (subst readdir_loop.simps) (simp add: Let_def)
  qed
qed

text \<open>Successive \<open>ReadDir\<close> calls on one open directory, and what they must return.\<close>

fun readdir_run ::
  "('w, 'r, 'it) gcs_api \<Rightarrow> 'w gcsFS \<Rightarrow> (env \<times> int) list \<Rightarrow> ('r, 'it) gcsFile \<Rightarrow> 'w fs_state
     \<Rightarrow> (gcsFileInfo list \<times> gerror option) list option" where
  "readdir_run api fsys [] f st = Some []"
| "readdir_run api fsys ((en, n) # calls) f st =
     (case gcsFile_ReadDir api fsys en n f st of
        None \<Rightarrow> None
      | Some (res, f', st') \<Rightarrow> map_option ((#) res) (readdir_run api fsys calls f' st'))"

fun pages_of :: "ObjectAttrs list \<Rightarrow> int list \<Rightarrow> (gcsFileInfo list \<times> gerror option) list" where
  "pages_of oas [] = []"
| "pages_of oas (n # ns) =
     (if n \<le> 0 then (map entry_of oas, None) # pages_of [] ns
      else (map entry_of (take (nat n) oas), (if length oas < nat n then Some EOF else None)) #
           pages_of (drop (nat n) oas) ns)"

abbreviation dir_iter :: "('w, 'r, 'it) gcs_api \<Rightarrow> 'w gcsFS \<Rightarrow> ('r, 'it) gcsFile \<Rightarrow> 'it" where
  "dir_iter api fsys f \<equiv> (case diter f of None \<Rightarrow> iteratorFor api fsys (name f) | Some it \<Rightarrow> it)"

lemma gcsFile_ReadDir_page:
  assumes "lists api rest"
  shows "\<exists>f' st'. gcsFile_ReadDir api fsys en n f st = Some (hd (pages_of (rest (dir_iter api fsys f)) [n]), f', st') \<and>
    (\<exists>it'. diter f' = Some it' \<and> rest it' = (if n \<le> 0 then [] else drop (nat n) (rest (dir_iter api fsys f))))"
proof (cases "n \<le> 0")
  case True
  from readdir_loop_all [OF assms True, of "dir_iter api fsys f" "[]" "st_world st"] True
  show ?thesis by (auto simp: gcsFile_ReadDir_def Let_def)
next
  case False
  with readdir_loop_page [OF assms, of "[]" n "dir_iter api fsys f" "st_world st"] obtain it' w' where
    "readdir_loop api n (dir_iter api fsys f) [] (st_world st) =
      Some (map entry_of (take (nat n) (rest (dir_iter api fsys f))),
        (if length (rest (dir_iter api fsys f)) < nat n then Some IteratorDone else None), it', w')"
    "rest it' = drop (nat n) (rest (dir_iter api fsys f))"
    by (auto simp: Let_def)
  with False show ?thesis by (simp add: gcsFile_ReadDir_def Let_def)
qed

lemma readdir_run_pages:
  assumes "lists api rest"
  shows "readdir_run api fsys calls f st = Some (pages_of (rest (dir_iter api fsys f)) (map snd calls))"
proof (induction calls arbitrary: f st)
  case (Cons call calls)
  obtain en n where call: "call = (en, n)" by force
  obtain f' st' it' where r: "gcsFile_ReadDir api fsys en n f st = Some (hd (pages_of (rest (dir_iter api fsys f)) [n]), f', st')"
    "diter f' = Some it'" "rest it' = (if n \<le> 0 then [] else drop (nat n) (rest (dir_iter api fsys f)))"
    using gcsFile_ReadDir_page [OF assms] by blast
  with Cons.IH [of f' st'] call show ?case by simp
qed simp

text \<open>
  C29. Directory listings are complete and paged correctly: successive \<open>ReadDir\<close> calls on an
  opened directory return the listing's entries in order, none twice and none missing. A
  positive count returns that many entries, or all that are left together with \<open>io.EOF\<close>; a
  count of zero or less returns everything that is left and no error. Every call returns.
\<close>

theorem readdir_pagination:
  assumes "fs_Open fsys nm = Inr f" and "lists api rest"
  shows "readdir_run api fsys calls f st = Some (pages_of (rest (iteratorFor api fsys (name f))) (map snd calls))"
proof -
  from fs_Open_fresh [OF assms(1)] have "diter f = None" by (auto simp: fresh_file_def)
  with readdir_run_pages [OF assms(2), of fsys calls f st] show ?thesis by simp
qed

lemma mem_api_lists: "lists ((mem_api content)\<lparr>api_Objects := obj\<rparr>) (\<lambda>it. it)"
  unfolding lists_def
proof (intro allI)
  fix it w
  show "\<exists>it' w'. case it of
        [] \<Rightarrow> api_Next ((mem_api content)\<lparr>api_Objects := obj\<rparr>) it w = (Inl IteratorDone, it', w') \<and> it' = []
      | oa # oas \<Rightarrow> api_Next ((mem_api content)\<lparr>api_Objects := obj\<rparr>) it w = (Inr oa, it', w') \<and> it' = oas"
    by (cases it) (simp_all add: mem_api_def)
qed

theorem readdir_pagination_witness:
  "\<exists>f :: (nat, ObjectAttrs list) gcsFile. fs_Open sample_fs ''b'' = Inr f \<and>
     readdir_run ((mem_api [])\<lparr>api_Objects := \<lambda>_ _. [dir_attrs ''x/'', sample_attrs, dir_attrs ''y/'']\<rparr>) sample_fs
       [(sample_env, 2), (sample_env, 2)] f idle_state =
     Some [([entry_of (dir_attrs ''x/''), entry_of sample_attrs], None), ([entry_of (dir_attrs ''y/'')], Some EOF)]"
proof -
  obtain f :: "(nat, ObjectAttrs list) gcsFile" where f: "fs_Open sample_fs ''b'' = Inr f" using sample_open by blast
  from readdir_pagination [OF f mem_api_lists [where content = "[]" and obj = "\<lambda>_ _. [dir_attrs ''x/'', sample_attrs, dir_attrs ''y/'']"], of
      "[(sample_env, 2), (sample_env, 2)]" idle_state]
  have "readdir_run ((mem_api [])\<lparr>api_Objects := \<lambda>_ _. [dir_attrs ''x/'', sample_attrs, dir_attrs ''y/'']\<rparr>) sample_fs
       [(sample_env, 2), (sample_env, 2)] f idle_state =
     Some [([entry_of (dir_attrs ''x/''), entry_of sample_attrs], None), ([entry_of (dir_attrs ''y/'')], Some EOF)]"
    by (simp add: iteratorFor_def mem_api_def)
  with f show ?thesis by blast
qed

end
