(* ===== verification/Go_Utf8.thy ===== *)
theory Go_Utf8
  imports Go_Path
begin

section \<open>Runes: package unicode/utf8 and strings.Map\<close>

text \<open>
  What the log sanitiser uses of Go's strings: the runes a \<^verbatim>\<open>range\<close> loop yields, their encoding,
  and \<^verbatim>\<open>strings.Map\<close>, which drops a rune that is mapped to a negative value (here \<^const>\<open>None\<close>) and
  writes the encoding of the others; an ill-formed byte is seen and written as \<^const>\<open>RuneError\<close>.
  Shown: decoding inverts encoding, encoding inverts decoding on well-formed text, and the
  runes of a mapped string are the mapped runes.
\<close>

definition scalar :: "nat \<Rightarrow> bool" where
  "scalar r \<longleftrightarrow> r < 0xD800 \<or> 0xDFFF < r \<and> r \<le> 0x10FFFF"

definition encode_rune :: "nat \<Rightarrow> nat list" where
  "encode_rune r =
     (if r < 0x80 then [r]
      else if r < 0x800 then [192 + r div 64, 128 + r mod 64]
      else if r < 0x10000 then [224 + r div 4096, 128 + r div 64 mod 64, 128 + r mod 64]
      else [240 + r div 262144, 128 + r div 4096 mod 64, 128 + r div 64 mod 64, 128 + r mod 64])"

function runes :: "nat list \<Rightarrow> nat list" where
  "runes bs = (if bs = [] then [] else fst (decode_rune bs) # runes (drop (snd (decode_rune bs)) bs))"
  by pat_completeness auto
termination
  by (relation "measure length") (use decode_rune_width in \<open>force+\<close>)

declare runes.simps [simp del]

definition strings_Map :: "(nat \<Rightarrow> nat option) \<Rightarrow> nat list \<Rightarrow> nat list" where
  "strings_Map f bs = concat (map (\<lambda>r. case f r of None \<Rightarrow> [] | Some r' \<Rightarrow> encode_rune r') (runes bs))"

subsection \<open>Round trips\<close>

lemma sextets:
  fixes r :: nat
  shows "r = r div 64 * 64 + r mod 64"
    and "r = r div 4096 * 4096 + r div 64 mod 64 * 64 + r mod 64"
    and "r = r div 262144 * 262144 + r div 4096 mod 64 * 4096 + r div 64 mod 64 * 64 + r mod 64"
    and "r mod 64 < 64"
proof -
  have a: "r div 4096 = r div 64 div 64" and b: "r div 262144 = r div 4096 div 64"
    by (simp_all flip: div_mult2_eq)
  have c: "x = x div 64 * 64 + x mod 64" for x :: nat by simp
  show "r = r div 64 * 64 + r mod 64" by (rule c)
  with c [of "r div 64"] a show "r = r div 4096 * 4096 + r div 64 mod 64 * 64 + r mod 64" by linarith
  with c [of "r div 4096"] b
  show "r = r div 262144 * 262144 + r div 4096 mod 64 * 4096 + r div 64 mod 64 * 64 + r mod 64" by linarith
  show "r mod 64 < 64" by simp
qed

lemma decode_encode:
  assumes "scalar r"
  shows "decode_rune (encode_rune r @ bs) = (r, length (encode_rune r))"
proof -
  consider "r < 0x80" | "0x80 \<le> r" "r < 0x800" | "0x800 \<le> r" "r < 0x10000" | "0x10000 \<le> r" "r \<le> 0x10FFFF"
    using assms unfolding scalar_def by linarith
  then show ?thesis
  proof cases
    case 1
    then show ?thesis by (simp add: encode_rune_def)
  next
    case 2
    obtain a c where r: "r = a * 64 + c" "c < 64" "r div 64 = a" "r mod 64 = c" using sextets [of r] by blast
    with 2 have "2 \<le> a" "a \<le> 31" by linarith+
    with 2 r show ?thesis by (simp add: encode_rune_def cont_byte_def)
  next
    case 3
    obtain a b c where r: "r = a * 4096 + b * 64 + c" "b < 64" "c < 64"
        "r div 4096 = a" "r div 64 mod 64 = b" "r mod 64 = c"
      using sextets [of r] sextets(4) [of "r div 64"] by blast
    with 3 assms have "a \<le> 15" "a = 0 \<Longrightarrow> 32 \<le> b" "a = 13 \<Longrightarrow> b \<le> 31" unfolding scalar_def by linarith+
    with 3 r show ?thesis by (auto simp: encode_rune_def cont_byte_def)
  next
    case 4
    obtain a b c d where r: "r = a * 262144 + b * 4096 + c * 64 + d" "b < 64" "c < 64" "d < 64"
        "r div 262144 = a" "r div 4096 mod 64 = b" "r div 64 mod 64 = c" "r mod 64 = d"
      using sextets [of r] sextets(4) [of "r div 64"] sextets(4) [of "r div 4096"] by blast
    with 4 have "a \<le> 4" "a = 0 \<Longrightarrow> 16 \<le> b" "a = 4 \<Longrightarrow> b \<le> 15" by linarith+
    with 4 r show ?thesis by (auto simp: encode_rune_def cont_byte_def)
  qed
qed

lemma sextet_digits:
  fixes a b c d :: nat
  assumes "b < 64" "c < 64" "d < 64"
  shows "(a * 64 + d) div 64 = a" "(a * 64 + d) mod 64 = d"
    "(a * 4096 + b * 64 + d) div 4096 = a" "(a * 4096 + b * 64 + d) div 64 mod 64 = b" "(a * 4096 + b * 64 + d) mod 64 = d"
    "(a * 262144 + b * 4096 + c * 64 + d) div 262144 = a" "(a * 262144 + b * 4096 + c * 64 + d) div 4096 mod 64 = b"
    "(a * 262144 + b * 4096 + c * 64 + d) div 64 mod 64 = c" "(a * 262144 + b * 4096 + c * 64 + d) mod 64 = d"
proof -
  have dm: "(x * 64 + y) div 64 = x" "(x * 64 + y) mod 64 = y" if "y < 64" for x y :: nat using that by simp_all
  show "(a * 64 + d) div 64 = a" "(a * 64 + d) mod 64 = d" using dm assms by blast+
  have e3: "a * 4096 + b * 64 + d = (a * 64 + b) * 64 + d" by simp
  have e4: "a * 262144 + b * 4096 + c * 64 + d = ((a * 64 + b) * 64 + c) * 64 + d" by simp
  have d2: "x div 4096 = x div 64 div 64" "x div 262144 = x div 64 div 64 div 64" for x :: nat
    by (simp_all flip: div_mult2_eq)
  show "(a * 4096 + b * 64 + d) div 4096 = a" "(a * 4096 + b * 64 + d) div 64 mod 64 = b" "(a * 4096 + b * 64 + d) mod 64 = d"
    unfolding e3 d2 by (simp_all only: dm assms)
  show "(a * 262144 + b * 4096 + c * 64 + d) div 262144 = a" "(a * 262144 + b * 4096 + c * 64 + d) div 4096 mod 64 = b"
    "(a * 262144 + b * 4096 + c * 64 + d) div 64 mod 64 = c" "(a * 262144 + b * 4096 + c * 64 + d) mod 64 = d"
    unfolding e4 d2 by (simp_all only: dm assms)
qed

lemma cont_byte_iff: "cont_byte b \<longleftrightarrow> (\<exists>b' < 64. b = 128 + b')"
  by (auto simp: cont_byte_def intro!: exI [of _ "b - 128"])

lemma decode_two:
  assumes "194 \<le> a" "a \<le> 223" "cont_byte b"
  obtains r where "decode_rune (a # b # t) = (r, 2)" "scalar r" "encode_rune r = [a, b]"
proof -
  obtain b' where b: "b = 128 + b'" "b' < 64" using assms(3) by (auto simp: cont_byte_iff)
  define a' where "a' = a - 192"
  then have a: "a = 192 + a'" "2 \<le> a'" "a' \<le> 31" using assms by simp_all
  have "0x80 \<le> a' * 64 + b'" "a' * 64 + b' < 0x800" using a b by linarith+
  then show thesis using that [of "a' * 64 + b'"] a b assms(3)
    by (simp add: scalar_def encode_rune_def sextet_digits)
qed

lemma decode_three:
  assumes "224 \<le> a" "a \<le> 239" "(if a = 224 then 160 else 128) \<le> b" "b \<le> (if a = 237 then 159 else 191)" "cont_byte c"
  obtains r where "decode_rune (a # b # c # t) = (r, 3)" "scalar r" "encode_rune r = [a, b, c]"
proof -
  obtain c' where c: "c = 128 + c'" "c' < 64" using assms(5) by (auto simp: cont_byte_iff)
  define a' where "a' = a - 224"
  define b' where "b' = b - 128"
  have a: "a = 224 + a'" "a' \<le> 15" using assms by (simp_all add: a'_def)
  have b: "b = 128 + b'" "b' < 64" "a' = 0 \<Longrightarrow> 32 \<le> b'" "a' = 13 \<Longrightarrow> b' \<le> 31"
    using assms(3,4) a by (auto simp: b'_def split: if_splits)
  let ?r = "a' * 4096 + b' * 64 + c'"
  have lo: "0x800 \<le> ?r"
  proof (cases "a' = 0")
    case True
    with b(3) show ?thesis by simp
  next
    case False
    then have "1 \<le> a'" by simp
    then show ?thesis by linarith
  qed
  have hi: "?r < 0x10000" using a b c by linarith
  consider "a' \<le> 12" | "a' = 13" | "14 \<le> a'" by linarith
  then have "scalar ?r"
  proof cases
    case 1
    then have "?r < 0xD800" using b(2) c(2) by linarith
    then show ?thesis by (simp add: scalar_def)
  next
    case 2
    then have "?r < 0xD800" using b(4) c(2) by linarith
    then show ?thesis by (simp add: scalar_def)
  next
    case 3
    then have "0xDFFF < ?r" by linarith
    with hi show ?thesis by (simp add: scalar_def)
  qed
  moreover have "encode_rune ?r = [a, b, c]"
    using lo hi a b c by (simp add: encode_rune_def sextet_digits)
  moreover have "decode_rune (a # b # c # t) = (?r, 3)"
    using assms(3-5) a b c by simp
  ultimately show thesis by (rule that [rotated])
qed

lemma decode_four:
  assumes "240 \<le> a" "a \<le> 244" "(if a = 240 then 144 else 128) \<le> b" "b \<le> (if a = 244 then 143 else 191)"
    "cont_byte c" "cont_byte d"
  obtains r where "decode_rune (a # b # c # d # t) = (r, 4)" "scalar r" "encode_rune r = [a, b, c, d]"
proof -
  obtain c' d' where c: "c = 128 + c'" "c' < 64" "d = 128 + d'" "d' < 64"
    using assms(5,6) by (auto simp: cont_byte_iff)
  define a' where "a' = a - 240"
  define b' where "b' = b - 128"
  have a: "a = 240 + a'" "a' \<le> 4" using assms by (simp_all add: a'_def)
  have b: "b = 128 + b'" "b' < 64" "a' = 0 \<Longrightarrow> 16 \<le> b'" "a' = 4 \<Longrightarrow> b' \<le> 15"
    using assms(3,4) a by (auto simp: b'_def split: if_splits)
  let ?r = "a' * 262144 + b' * 4096 + c' * 64 + d'"
  have lo: "0x10000 \<le> ?r"
  proof (cases "a' = 0")
    case True
    with b(3) show ?thesis by simp
  next
    case False
    then have "1 \<le> a'" by simp
    then show ?thesis by linarith
  qed
  have hi: "?r \<le> 0x10FFFF"
  proof (cases "a' = 4")
    case True
    with b(4) c show ?thesis by linarith
  next
    case False
    with a have "a' \<le> 3" by simp
    with b c show ?thesis by linarith
  qed
  have "scalar ?r" using lo hi by (simp add: scalar_def)
  moreover have "encode_rune ?r = [a, b, c, d]"
    using lo a b c by (simp add: encode_rune_def sextet_digits)
  moreover have "decode_rune (a # b # c # d # t) = (?r, 4)"
    using assms(3-6) a b c by simp
  ultimately show thesis by (rule that [rotated])
qed

lemma decode_rune_cases:
  assumes "bs \<noteq> []"
  shows "decode_rune bs = (RuneError, 1) \<or>
    scalar (fst (decode_rune bs)) \<and>
    take (snd (decode_rune bs)) bs = encode_rune (fst (decode_rune bs))"
proof (cases "decode_rune bs = (RuneError, 1)")
  case ok: False
  obtain a r where bs: "bs = a # r" using assms by (cases bs) auto
  consider "a < 128" | "194 \<le> a" "a \<le> 223" | "224 \<le> a" "a \<le> 239" | "240 \<le> a" "a \<le> 244"
    using ok unfolding bs by (auto split: if_splits)
  then show ?thesis
  proof cases
    case 1
    with bs show ?thesis by (simp add: scalar_def encode_rune_def)
  next
    case 2
    with ok bs obtain b t where r: "r = b # t" "cont_byte b" by (auto split: list.splits if_splits)
    show ?thesis by (rule decode_two [OF 2 r(2), of t]) (simp add: bs r(1))
  next
    case 3
    with ok bs obtain b c t where r: "r = b # c # t"
      and in_range: "(if a = 224 then 160 else 128) \<le> b" "b \<le> (if a = 237 then 159 else 191)" "cont_byte c"
      by (auto split: list.splits if_splits)
    show ?thesis by (rule decode_three [OF 3 in_range, of t]) (simp add: bs r(1))
  next
    case 4
    with ok bs obtain b c d t where r: "r = b # c # d # t"
      and in_range: "(if a = 240 then 144 else 128) \<le> b" "b \<le> (if a = 244 then 143 else 191)" "cont_byte c" "cont_byte d"
      by (auto split: list.splits if_splits)
    show ?thesis by (rule decode_four [OF 4 in_range, of t]) (simp add: bs r(1))
  qed
qed simp

subsection \<open>Runes of a text\<close>

abbreviation encode :: "nat list \<Rightarrow> nat list" where
  "encode rs \<equiv> concat (map encode_rune rs)"

lemma scalar_RuneError [simp]: "scalar RuneError"
  by (simp add: scalar_def)

lemma encode_rune_not_Nil [simp]: "encode_rune r \<noteq> []"
  by (simp add: encode_rune_def)

lemma decode_rune_scalar: "bs \<noteq> [] \<Longrightarrow> scalar (fst (decode_rune bs))"
  using decode_rune_cases [of bs] by auto

lemma runes_scalar: "r \<in> set (runes bs) \<Longrightarrow> scalar r"
proof (induction bs rule: runes.induct)
  case (1 bs)
  then show ?case
    using decode_rune_scalar [of bs] by (cases "bs = []") (auto simp: runes.simps [of bs] runes.simps [of "[]"])
qed

lemma runes_encode: "list_all scalar rs \<Longrightarrow> runes (encode rs) = rs"
  by (induction rs) (simp_all add: runes.simps [of "encode_rune _ @ _"] runes.simps [of "[]"] decode_encode)

lemma utf8_valid_encode: "list_all scalar rs \<Longrightarrow> utf8_valid (encode rs)"
proof (induction rs)
  case (Cons r rs)
  then show ?case
    by (simp add: utf8_valid.simps [of "encode_rune _ @ _"] decode_encode) (simp add: encode_rune_def)
qed (simp add: utf8_valid.simps)

lemma encode_runes: "utf8_valid bs \<Longrightarrow> encode (runes bs) = bs"
proof (induction bs rule: runes.induct)
  case (1 bs)
  show ?case
  proof (cases "bs = []")
    case False
    with "1.prems" have ok: "decode_rune bs \<noteq> (RuneError, 1)" "utf8_valid (drop (snd (decode_rune bs)) bs)"
      by (simp_all add: utf8_valid.simps [of bs] split: if_splits)
    from decode_rune_cases [OF False] ok(1) have "encode_rune (fst (decode_rune bs)) = take (snd (decode_rune bs)) bs"
      by simp
    with "1.IH" [OF False ok(2)] False show ?thesis by (simp add: runes.simps [of bs])
  qed (simp add: runes.simps)
qed

lemma length_encode_runes: "length (encode (runes bs)) \<le> 3 * length bs"
proof (induction bs rule: runes.induct)
  case (1 bs)
  show ?case
  proof (cases "bs = []")
    case False
    let ?r = "fst (decode_rune bs)" and ?w = "snd (decode_rune bs)"
    have w: "1 \<le> ?w" "?w \<le> length bs" using decode_rune_width [OF False] by simp_all
    have "length (encode_rune ?r) \<le> 3 * ?w"
    proof (cases "decode_rune bs = (RuneError, 1)")
      case True
      then show ?thesis by (simp add: encode_rune_def)
    next
      case not_error: False
      with decode_rune_cases [OF False] have "length (encode_rune ?r) = length (take ?w bs)" by simp
      with w show ?thesis by simp
    qed
    with "1.IH" [OF False] w False show ?thesis by (simp add: runes.simps [of bs])
  qed (simp add: runes.simps)
qed

lemma strings_Map_filter:
  "strings_Map (\<lambda>r. if keep r then Some r else None) bs = encode (filter keep (runes bs))"
proof -
  have "concat (map (\<lambda>r. case if keep r then Some r else None of None \<Rightarrow> [] | Some r' \<Rightarrow> encode_rune r') rs) =
      encode (filter keep rs)" for rs
    by (induction rs) auto
  then show ?thesis by (simp add: strings_Map_def)
qed

lemma length_encode_filter: "length (encode (filter keep rs)) \<le> length (encode rs)"
  by (induction rs) auto

end
