(* ===== verification/Go_Http.thy ===== *)
theory Go_Http
  imports Prelude Go_Context Go_Errors
begin

section \<open>HTTP: requests, headers and responses\<close>

text \<open>
  What the handlers use of \<^verbatim>\<open>net/http\<close>: the fields of a request they read, the header map of
  a response with Go's canonical keys, the status line (the first \<^verbatim>\<open>WriteHeader\<close> wins) and a
  body, kept as the values handed to the encoder. A handler further down the chain is a
  function of the response and the world.
\<close>

record http_Request =
  rq_Method :: string
  rq_Path :: string
  rq_RemoteAddr :: string
  rq_ctx :: gctx

text \<open>\<^verbatim>\<open>textproto.CanonicalMIMEHeaderKey\<close>\<close>

definition is_upper :: "char \<Rightarrow> bool" where
  "is_upper c \<longleftrightarrow> 65 \<le> (of_char c :: nat) \<and> (of_char c :: nat) \<le> 90"

definition is_lower :: "char \<Rightarrow> bool" where
  "is_lower c \<longleftrightarrow> 97 \<le> (of_char c :: nat) \<and> (of_char c :: nat) \<le> 122"

definition to_upper :: "char \<Rightarrow> char" where
  "to_upper c = (if is_lower c then char_of ((of_char c :: nat) - 32) else c)"

definition to_lower :: "char \<Rightarrow> char" where
  "to_lower c = (if is_upper c then char_of ((of_char c :: nat) + 32) else c)"

definition validHeaderFieldByte :: "char \<Rightarrow> bool" where
  "validHeaderFieldByte c \<longleftrightarrow>
     is_upper c \<or> is_lower c \<or> (48 \<le> (of_char c :: nat) \<and> (of_char c :: nat) \<le> 57) \<or>
     c \<in> set ''!#$%&*+-.^_|~'' \<or> c = CHR 0x27 \<or> c = CHR 0x60"

fun canon :: "bool \<Rightarrow> string \<Rightarrow> string" where
  "canon upper [] = []"
| "canon upper (c # cs) =
     (let c' = (if upper then to_upper c else to_lower c) in c' # canon (c' = CHR ''-'') cs)"

definition CanonicalHeaderKey :: "string \<Rightarrow> string" where
  "CanonicalHeaderKey s = (if list_all validHeaderFieldByte s then canon True s else s)"

datatype 'b http_Response = Response
  (rs_header: "(string, string) gomap")
  (rs_code: "int option")
  (rs_body: "'b list")

definition no_response :: "'b http_Response" where
  "no_response = Response [] None []"

definition header_Set :: "string \<Rightarrow> string \<Rightarrow> 'b http_Response \<Rightarrow> 'b http_Response" where
  "header_Set k v r = Response (gomap_set (CanonicalHeaderKey k) v (rs_header r)) (rs_code r) (rs_body r)"

definition header_Get :: "string \<Rightarrow> 'b http_Response \<Rightarrow> string option" where
  "header_Get k r = gomap_get (rs_header r) (CanonicalHeaderKey k)"

definition WriteHeader :: "int \<Rightarrow> 'b http_Response \<Rightarrow> 'b http_Response" where
  "WriteHeader code r = (case rs_code r of None \<Rightarrow> Response (rs_header r) (Some code) (rs_body r) | Some _ \<Rightarrow> r)"

text \<open>Writing a body sends the status line first, 200 if none was chosen.\<close>

definition write_body :: "'b \<Rightarrow> 'b http_Response \<Rightarrow> 'b http_Response" where
  "write_body b r = (let r' = WriteHeader 200 r in Response (rs_header r') (rs_code r') (rs_body r' @ [b]))"

lemma response_simps [simp]:
  "rs_code (header_Set k v r) = rs_code r" "rs_body (header_Set k v r) = rs_body r"
  "rs_header (WriteHeader c r) = rs_header r" "rs_body (WriteHeader c r) = rs_body r"
  "rs_header (write_body b r) = rs_header r" "rs_body (write_body b r) = rs_body r @ [b]"
  "rs_code (WriteHeader c r) = Some (case rs_code r of None \<Rightarrow> c | Some c' \<Rightarrow> c')"
  "rs_code (write_body b r) = Some (case rs_code r of None \<Rightarrow> 200 | Some c' \<Rightarrow> c')"
  by (simp_all add: header_Set_def WriteHeader_def write_body_def Let_def split: option.splits)

lemma header_Get_Set: "header_Get k (header_Set k' v r) =
    (if CanonicalHeaderKey k = CanonicalHeaderKey k' then Some v else header_Get k r)"
  by (simp add: header_Get_def header_Set_def update_conv')

lemma header_Get_write [simp]:
  "header_Get k (WriteHeader c r) = header_Get k r" "header_Get k (write_body b r) = header_Get k r"
  by (simp_all add: header_Get_def)

definition header_Del :: "string \<Rightarrow> 'b http_Response \<Rightarrow> 'b http_Response" where
  "header_Del k r = Response (gomap_delete (CanonicalHeaderKey k) (rs_header r)) (rs_code r) (rs_body r)"

lemma header_Del_simps [simp]:
  "rs_code (header_Del k r) = rs_code r" "rs_body (header_Del k r) = rs_body r"
  by (simp_all add: header_Del_def)

text \<open>\<^verbatim>\<open>http.Error\<close>; \<open>text\<close> makes a body of the line it prints.\<close>

definition http_Error :: "(string \<Rightarrow> 'b) \<Rightarrow> string \<Rightarrow> int \<Rightarrow> 'b http_Response \<Rightarrow> 'b http_Response" where
  "http_Error text msg code r =
     write_body (text (msg @ [CHR 0x0A]))
       (WriteHeader code
         (header_Set ''X-Content-Type-Options'' ''nosniff''
           (header_Set ''Content-Type'' ''text/plain; charset=utf-8'' (header_Del ''Content-Length'' r))))"

lemma http_Error_simps [simp]:
  "rs_code r = None \<Longrightarrow> rs_code (http_Error text msg code r) = Some code"
  "rs_body (http_Error text msg code r) = rs_body r @ [text (msg @ [CHR 0x0A])]"
  by (simp_all add: http_Error_def)

text \<open>A handler: the error it returns (or none), the response and the world.\<close>

type_synonym ('b, 'w) handler = "'b http_Response \<Rightarrow> 'w \<Rightarrow> (gerror option \<times> 'b http_Response) \<times> 'w"

end
