(* ===== verification/Logger.thy ===== *)
theory Logger
  imports Go_Utf8 Go_Http
begin

section \<open>Logging\<close>

text \<open>
  Model of \<^verbatim>\<open>pkg/observability/logger\<close>: the sanitising of user input (\<^verbatim>\<open>sanitize.go\<close>) and the global
  logger with its level and the trace identifiers it adds (\<^verbatim>\<open>logger.go\<close>). A line that reaches the
  handler of \<^verbatim>\<open>log/slog\<close> is a record of its level, message and arguments; the span of a context,
  an OpenTelemetry value, is a parameter. Shown: what is written to the log has no control
  characters and a bounded length, truncation keeps well-formed text up to one rune, and trace
  identifiers are added once.
\<close>

subsection \<open>Sanitising\<close>

definition is_control :: "nat \<Rightarrow> bool" where
  "is_control r \<longleftrightarrow> r < 0x20 \<or> 0x7F \<le> r \<and> r < 0xA0"

definition sanitize_rune :: "nat \<Rightarrow> nat option" where
  "sanitize_rune r =
     (if r = 32 \<or> r = 9 then Some r
      else if is_control r then None
      else Some r)"

definition SanitizeString :: "string \<Rightarrow> string" where
  "SanitizeString s = map char_of (strings_Map sanitize_rune (bytes_of s))"

abbreviation (input) maxLen :: nat where
  "maxLen \<equiv> 200"

function truncate_valid :: "string \<Rightarrow> string" where
  "truncate_valid s =
     (if \<not> ValidString s \<and> length s > 0 then truncate_valid (take (length s - 1) s) else s)"
  by pat_completeness auto
termination
  by (relation "measure length") auto

declare truncate_valid.simps [simp del]

definition SanitizeQuery :: "string \<Rightarrow> string" where
  "SanitizeQuery query =
     (if length query \<le> maxLen then SanitizeString query
      else SanitizeString (truncate_valid (take maxLen query)) @ ''...'')"

subsection \<open>The global logger\<close>

text \<open>The levels of \<^verbatim>\<open>log/slog\<close> are numbers.\<close>

abbreviation (input) LevelDebug :: int where "LevelDebug \<equiv> - 4"
abbreviation (input) LevelInfo :: int where "LevelInfo \<equiv> 0"
abbreviation (input) LevelWarn :: int where "LevelWarn \<equiv> 4"
abbreviation (input) LevelError :: int where "LevelError \<equiv> 8"

datatype larg = LStr string | LVal string

record slog_Logger =
  sl_json :: bool
  sl_discard :: bool
  sl_attrs :: "larg list"

record log_record =
  lr_level :: int
  lr_msg :: string
  lr_args :: "larg list"

record log_state =
  lg_levelVar :: int
  lg_Logger :: slog_Logger
  lg_out :: "log_record list"

definition newDefaultLogger :: slog_Logger where
  "newDefaultLogger = \<lparr>sl_json = False, sl_discard = False, sl_attrs = []\<rparr>"

definition newLevelVarWithDefault :: int where
  "newLevelVarWithDefault = LevelInfo"

definition log_start :: log_state where
  "log_start = \<lparr>lg_levelVar = newLevelVarWithDefault, lg_Logger = newDefaultLogger, lg_out = []\<rparr>"

definition toSlogLevel :: "string \<Rightarrow> int" where
  "toSlogLevel level =
     (let l = map to_lower level in
      if l = ''debug'' then LevelDebug
      else if l = ''warn'' then LevelWarn
      else if l = ''error'' then LevelError
      else LevelInfo)"

definition Init :: "string \<Rightarrow> bool \<Rightarrow> log_state \<Rightarrow> log_state" where
  "Init level jsonFormat st =
     st\<lparr>lg_levelVar := toSlogLevel level,
        lg_Logger := \<lparr>sl_json = jsonFormat, sl_discard = False, sl_attrs = []\<rparr>\<rparr>"

definition SetLevel :: "string \<Rightarrow> log_state \<Rightarrow> log_state" where
  "SetLevel level st = st\<lparr>lg_levelVar := toSlogLevel level\<rparr>"

definition DebugEnabled :: "log_state \<Rightarrow> bool" where
  "DebugEnabled st \<longleftrightarrow> lg_levelVar st \<le> LevelDebug"

definition InfoEnabled :: "log_state \<Rightarrow> bool" where
  "InfoEnabled st \<longleftrightarrow> lg_levelVar st \<le> LevelInfo"

text \<open>A call of the logger's method for a level: the handler drops what is below its level.\<close>

definition slog_log :: "int \<Rightarrow> string \<Rightarrow> larg list \<Rightarrow> slog_Logger \<Rightarrow> log_state \<Rightarrow> log_state" where
  "slog_log level msg args l st =
     (if sl_discard l \<or> level < lg_levelVar st then st
      else st\<lparr>lg_out := lg_out st @ [\<lparr>lr_level = level, lr_msg = msg, lr_args = sl_attrs l @ args\<rparr>]\<rparr>)"

definition logWith :: "(slog_Logger \<Rightarrow> log_state \<Rightarrow> log_state) \<Rightarrow> log_state \<Rightarrow> log_state" where
  "logWith fn st = fn (lg_Logger st) st"

definition log_Debug :: "string \<Rightarrow> larg list \<Rightarrow> log_state \<Rightarrow> log_state" where
  "log_Debug msg args = logWith (slog_log LevelDebug msg args)"

definition log_Info :: "string \<Rightarrow> larg list \<Rightarrow> log_state \<Rightarrow> log_state" where
  "log_Info msg args = logWith (slog_log LevelInfo msg args)"

definition log_Warn :: "string \<Rightarrow> larg list \<Rightarrow> log_state \<Rightarrow> log_state" where
  "log_Warn msg args = logWith (slog_log LevelWarn msg args)"

definition log_Error :: "string \<Rightarrow> larg list \<Rightarrow> log_state \<Rightarrow> log_state" where
  "log_Error msg args = logWith (slog_log LevelError msg args)"

fun key_present :: "string \<Rightarrow> larg list \<Rightarrow> bool" where
  "key_present key [] = False"
| "key_present key [a] = (a = LStr key)"
| "key_present key (a # b # args) = (a = LStr key \<or> key_present key args)"

definition appendKeyIfAbsent :: "larg list \<Rightarrow> string \<Rightarrow> string \<Rightarrow> larg list" where
  "appendKeyIfAbsent args key value =
     (if value = [] then args
      else if key_present key args then args
      else args @ [LStr key, LStr value])"

text \<open>\<open>span\<close> gives the identifiers of the valid span context in a context, if there is one.\<close>

definition WithTraceContext :: "('c \<Rightarrow> (string \<times> string) option) \<Rightarrow> 'c option \<Rightarrow> larg list \<Rightarrow> larg list" where
  "WithTraceContext span ctx args =
     (case ctx of
        None \<Rightarrow> args
      | Some c \<Rightarrow>
          (case span c of
             None \<Rightarrow> args
           | Some (traceID, spanID) \<Rightarrow>
               appendKeyIfAbsent (appendKeyIfAbsent args ''trace_id'' traceID) ''span_id'' spanID))"

definition log_DebugContext :: "('c \<Rightarrow> (string \<times> string) option) \<Rightarrow> 'c option \<Rightarrow> string \<Rightarrow> larg list \<Rightarrow> log_state \<Rightarrow> log_state" where
  "log_DebugContext span ctx msg args = logWith (slog_log LevelDebug msg (WithTraceContext span ctx args))"

definition log_InfoContext :: "('c \<Rightarrow> (string \<times> string) option) \<Rightarrow> 'c option \<Rightarrow> string \<Rightarrow> larg list \<Rightarrow> log_state \<Rightarrow> log_state" where
  "log_InfoContext span ctx msg args = logWith (slog_log LevelInfo msg (WithTraceContext span ctx args))"

definition log_WarnContext :: "('c \<Rightarrow> (string \<times> string) option) \<Rightarrow> 'c option \<Rightarrow> string \<Rightarrow> larg list \<Rightarrow> log_state \<Rightarrow> log_state" where
  "log_WarnContext span ctx msg args = logWith (slog_log LevelWarn msg (WithTraceContext span ctx args))"

definition log_ErrorContext :: "('c \<Rightarrow> (string \<times> string) option) \<Rightarrow> 'c option \<Rightarrow> string \<Rightarrow> larg list \<Rightarrow> log_state \<Rightarrow> log_state" where
  "log_ErrorContext span ctx msg args = logWith (slog_log LevelError msg (WithTraceContext span ctx args))"

definition log_With :: "larg list \<Rightarrow> log_state \<Rightarrow> slog_Logger" where
  "log_With args st = (lg_Logger st)\<lparr>sl_attrs := sl_attrs (lg_Logger st) @ args\<rparr>"

definition FromContext :: "('c \<Rightarrow> (string \<times> string) option) \<Rightarrow> 'c option \<Rightarrow> log_state \<Rightarrow> slog_Logger" where
  "FromContext span ctx st =
     (case ctx of
        None \<Rightarrow> lg_Logger st
      | Some c \<Rightarrow>
          (case span c of
             None \<Rightarrow> lg_Logger st
           | Some (traceID, spanID) \<Rightarrow>
               log_With [LStr ''trace_id'', LStr traceID, LStr ''span_id'', LStr spanID] st))"

definition Nop :: slog_Logger where
  "Nop = \<lparr>sl_json = False, sl_discard = True, sl_attrs = []\<rparr>"

subsection \<open>Sanitised text\<close>

definition loggable :: "nat \<Rightarrow> bool" where
  "loggable r \<longleftrightarrow> r = 9 \<or> \<not> is_control r"

abbreviation text_runes :: "string \<Rightarrow> nat list" where
  "text_runes s \<equiv> runes (bytes_of s)"

lemma sanitize_rune_eq: "sanitize_rune = (\<lambda>r. if loggable r then Some r else None)"
  by (auto simp: sanitize_rune_def loggable_def is_control_def fun_eq_iff)

lemma encode_bytes:
  assumes "scalar r" and "b \<in> set (encode_rune r)"
  shows "b < 256"
proof -
  have "r div 4096 \<le> 15" if "r < 0x10000" using that by linarith
  moreover have "r div 262144 \<le> 4" using assms(1) unfolding scalar_def by linarith
  moreover have "r div 64 \<le> 31" if "r < 0x800" using that by linarith
  moreover have "x mod 64 < 64" for x :: nat by simp
  ultimately show ?thesis using assms(2) by (fastforce simp: encode_rune_def split: if_splits)
qed

lemma bytes_of_encode: "list_all scalar rs \<Longrightarrow> bytes_of (map char_of (encode rs)) = encode rs"
  by (induction rs) (auto simp: bytes_of_def encode_bytes map_idI)

lemma runes_list_all_scalar: "list_all scalar (filter keep (text_runes s))"
  using runes_scalar by (auto simp: list_all_iff)

lemma bytes_SanitizeString: "bytes_of (SanitizeString s) = encode (filter loggable (text_runes s))"
  unfolding SanitizeString_def sanitize_rune_eq strings_Map_filter
  by (rule bytes_of_encode) (rule runes_list_all_scalar)

lemma text_runes_SanitizeString: "text_runes (SanitizeString s) = filter loggable (text_runes s)"
  unfolding bytes_SanitizeString by (rule runes_encode) (rule runes_list_all_scalar)

lemma ValidString_SanitizeString: "ValidString (SanitizeString s)"
  unfolding ValidString_def bytes_SanitizeString by (rule utf8_valid_encode) (rule runes_list_all_scalar)

lemma SanitizeString_idem: "SanitizeString (SanitizeString s) = SanitizeString s"
proof -
  have "bytes_of (SanitizeString (SanitizeString s)) = bytes_of (SanitizeString s)"
    by (simp add: bytes_SanitizeString [of "SanitizeString s"] text_runes_SanitizeString)
       (simp add: bytes_SanitizeString)
  then show ?thesis by (simp add: bytes_of_def inj_map_eq_map inj_on_def)
qed

lemma length_bytes_of [simp]: "length (bytes_of s) = length s"
  by (simp add: bytes_of_def)

lemma length_SanitizeString:
  "length (SanitizeString s) \<le> 3 * length s"
  "ValidString s \<Longrightarrow> length (SanitizeString s) \<le> length s"
proof -
  have le: "length (SanitizeString s) \<le> length (encode (text_runes s))"
    using length_encode_filter [of loggable "text_runes s"] by (metis bytes_SanitizeString length_bytes_of)
  with length_encode_runes [of "bytes_of s"] show "length (SanitizeString s) \<le> 3 * length s" by simp
  show "length (SanitizeString s) \<le> length s" if "ValidString s"
    using le encode_runes [of "bytes_of s"] that by (simp add: ValidString_def)
qed

lemma SanitizeString_id:
  assumes "ValidString s" and "list_all loggable (text_runes s)"
  shows "SanitizeString s = s"
proof -
  have "filter loggable (text_runes s) = text_runes s" using assms(2) by (auto simp: list_all_iff filter_id_conv)
  then have "bytes_of (SanitizeString s) = bytes_of s"
    using encode_runes [of "bytes_of s"] assms(1) by (simp add: bytes_SanitizeString ValidString_def)
  then show ?thesis by (simp add: bytes_of_def inj_map_eq_map inj_on_def)
qed

subsection \<open>Truncation\<close>

lemma truncate_valid_spec:
  "ValidString (truncate_valid s) \<and> (\<exists>n \<le> length s. truncate_valid s = take n s) \<and>
   (\<forall>m \<le> length s. ValidString (take m s) \<longrightarrow> m \<le> length (truncate_valid s))"
proof (induction s rule: truncate_valid.induct)
  case (1 s)
  show ?case
  proof (cases "\<not> ValidString s \<and> length s > 0")
    case True
    let ?t = "take (length s - 1) s"
    have step: "truncate_valid s = truncate_valid ?t" using True by (simp add: truncate_valid.simps [of s])
    have "m \<le> length (truncate_valid ?t)" if m: "m \<le> length s" "ValidString (take m s)" for m
    proof (cases "m = length s")
      case False
      with m have "m \<le> length s - 1" by simp
      then have "m \<le> length ?t" "ValidString (take m ?t)" using m(2) by (simp_all add: min_absorb1)
      with 1 [OF True] show ?thesis by blast
    qed (use True m in simp)
    moreover obtain n where "n \<le> length ?t" "truncate_valid ?t = take n ?t" using 1 [OF True] by blast
    then have "n \<le> length s \<and> truncate_valid ?t = take n s" by (simp add: min_absorb1)
    ultimately show ?thesis using 1 [OF True] step by auto
  next
    case False
    then have "truncate_valid s = s" by (auto simp: truncate_valid.simps [of s])
    moreover have "ValidString s" using False ValidString_ascii [of "[]"] by auto
    ultimately show ?thesis by auto
  qed
qed

lemma utf8_cut:
  "utf8_valid bs \<Longrightarrow> k \<le> length bs \<Longrightarrow> \<exists>n \<le> k. k \<le> n + 3 \<and> utf8_valid (take n bs)"
proof (induction bs arbitrary: k rule: runes.induct)
  case (1 bs)
  show ?case
  proof (cases "bs = []")
    case False
    let ?r = "fst (decode_rune bs)" and ?w = "snd (decode_rune bs)"
    from False "1.prems"(1) have ok: "decode_rune bs \<noteq> (RuneError, 1)" "utf8_valid (drop ?w bs)"
      by (simp_all add: utf8_valid.simps [of bs] split: if_splits)
    with decode_rune_cases [OF False] have enc: "scalar ?r" "take ?w bs = encode_rune ?r" by simp_all
    have "length (encode_rune ?r) \<le> 4" by (simp add: encode_rune_def)
    with enc(2) have w: "?w \<le> 4" using decode_rune_width [OF False] by (metis length_take min.absorb2)
    show ?thesis
    proof (cases "?w \<le> k")
      case True
      have "k - ?w \<le> length (drop ?w bs)" using "1.prems"(2) by simp
      from "1.IH" [OF False ok(2) this] obtain n
        where n: "n \<le> k - ?w" "k - ?w \<le> n + 3" "utf8_valid (take n (drop ?w bs))" by blast
      have "take (?w + n) bs = encode_rune ?r @ take n (drop ?w bs)" by (simp add: take_add enc(2))
      moreover have "utf8_valid (encode_rune ?r @ take n (drop ?w bs))"
        using encode_runes [OF n(3)] utf8_valid_encode [of "?r # runes (take n (drop ?w bs))"] enc(1) runes_scalar
        by (auto simp: list_all_iff)
      ultimately show ?thesis using n True by (intro exI [of _ "?w + n"]) auto
    next
      case False
      with w show ?thesis by (intro exI [of _ 0]) (simp add: utf8_valid.simps [of "[]"])
    qed
  qed (use "1.prems" in \<open>simp add: utf8_valid.simps [of "[]"]\<close>)
qed

lemma ValidString_cut:
  assumes "ValidString s" and "k \<le> length s"
  shows "\<exists>n \<le> k. k \<le> n + 3 \<and> ValidString (take n s)"
  using utf8_cut [of "bytes_of s" k] assms by (simp add: ValidString_def) (simp add: bytes_of_def take_map)

lemma text_runes_append:
  assumes "ValidString s"
  shows "text_runes (s @ t) = text_runes s @ text_runes t"
proof -
  have "runes (encode rs @ bs) = rs @ runes bs" if "list_all scalar rs" for rs bs
    using that by (induction rs) (simp_all add: runes.simps [of "encode_rune _ @ _"] decode_encode)
  moreover have "bytes_of s = encode (text_runes s)" using assms encode_runes by (simp add: ValidString_def)
  moreover have "list_all scalar (text_runes s)" using runes_scalar by (auto simp: list_all_iff)
  ultimately have "runes (bytes_of s @ bytes_of t) = text_runes s @ text_runes t" by metis
  then show ?thesis by (simp add: bytes_of_def)
qed

lemma text_runes_dots: "text_runes ''...'' = [46, 46, 46]"
  by (simp add: bytes_of_def runes.simps)

lemma ValidString_append_dots: "ValidString s \<Longrightarrow> ValidString (s @ ''...'')"
proof -
  assume "ValidString s"
  then have "bytes_of (s @ ''...'') = encode (text_runes s @ [46, 46, 46])"
    using encode_runes [of "bytes_of s"] by (simp add: ValidString_def) (simp add: bytes_of_def encode_rune_def)
  moreover have "list_all scalar (text_runes s @ [46, 46, 46])"
    using runes_scalar by (auto simp: list_all_iff scalar_def)
  ultimately show ?thesis unfolding ValidString_def by (metis utf8_valid_encode)
qed

lemma SanitizeQuery_runes:
  "text_runes (SanitizeQuery q) =
     (if length q \<le> 200 then filter loggable (text_runes q)
      else filter loggable (text_runes (truncate_valid (take 200 q))) @ [46, 46, 46])"
  by (simp add: SanitizeQuery_def text_runes_SanitizeString text_runes_append ValidString_SanitizeString text_runes_dots)

text \<open>
  C18. Nothing a client puts into a query can forge a log line: the sanitised query is well-formed
  UTF-8 without control characters other than the tab, whatever the bytes of the query are, and
  it is short, at most 600 bytes (a query of up to 200 ill-formed bytes becomes 200 replacement
  characters) and at most 203 if the query was longer than 200. \<open>SanitizeString\<close> finds nothing
  left to remove in it. (\<open>SanitizeQuery\<close> itself may shorten a result of 201 to 203 bytes again.)
\<close>

theorem sanitized_query_is_safe:
  "list_all loggable (text_runes (SanitizeQuery q)) \<and> ValidString (SanitizeQuery q) \<and>
   length (SanitizeQuery q) \<le> (if length q \<le> 200 then 3 * length q else 203) \<and>
   SanitizeString (SanitizeQuery q) = SanitizeQuery q"
proof -
  have safe: "list_all loggable (text_runes (SanitizeQuery q))"
    by (auto simp: SanitizeQuery_runes list_all_iff loggable_def is_control_def)
  have valid: "ValidString (SanitizeQuery q)"
    by (simp add: SanitizeQuery_def ValidString_SanitizeString ValidString_append_dots)
  obtain n where n: "n \<le> 200" "truncate_valid (take 200 q) = take n (take 200 q)"
    using truncate_valid_spec [of "take 200 q"] by auto
  have "length (SanitizeString (truncate_valid (take 200 q))) \<le> length (truncate_valid (take 200 q))"
    using length_SanitizeString(2) truncate_valid_spec by blast
  also have "\<dots> \<le> 200" using n by simp
  finally have "length (SanitizeQuery q) \<le> (if length q \<le> 200 then 3 * length q else 203)"
    using length_SanitizeString(1) [of q] by (simp add: SanitizeQuery_def)
  with safe valid SanitizeString_id [OF valid safe] show ?thesis by simp
qed

text \<open>Well-formed text before an ill-formed byte.\<close>

lemma decode_rune_prefix:
  assumes "bs \<noteq> []" and "decode_rune bs \<noteq> (RuneError, 1)"
  shows "decode_rune (bs @ t) = decode_rune bs"
proof -
  let ?r = "fst (decode_rune bs)" and ?rest = "drop (snd (decode_rune bs)) bs"
  from decode_rune_cases [OF assms(1)] assms(2) have r: "scalar ?r" "take (snd (decode_rune bs)) bs = encode_rune ?r"
    by simp_all
  then have bs: "encode_rune ?r @ ?rest = bs" by (metis append_take_drop_id)
  have "decode_rune (encode_rune ?r @ u) = (?r, length (encode_rune ?r))" for u using decode_encode [OF r(1)] by simp
  from this [of ?rest] this [of "?rest @ t"] bs show ?thesis by (metis append.assoc)
qed

lemma utf8_valid_append:
  assumes "utf8_valid a"
  shows "utf8_valid (a @ b) = utf8_valid b"
proof -
  have "utf8_valid (encode rs @ b) = utf8_valid b" if "list_all scalar rs" for rs
    using that
  proof (induction rs)
    case (Cons r rs)
    then show ?case
      by (simp add: utf8_valid.simps [of "encode_rune _ @ _"] decode_encode) (simp add: encode_rune_def)
  qed simp
  moreover have "list_all scalar (runes a)" using runes_scalar by (auto simp: list_all_iff)
  ultimately show ?thesis using encode_runes [OF assms] by metis
qed

text \<open>\<open>first_ill_formed s i\<close>: the bytes before \<open>i\<close> are well-formed UTF-8, and no rune starts at \<open>i\<close>.\<close>

definition first_ill_formed :: "string \<Rightarrow> nat \<Rightarrow> bool" where
  "first_ill_formed s i \<longleftrightarrow> i < length s \<and> ValidString (take i s) \<and> decode_rune (bytes_of (drop i s)) = (RuneError, 1)"

lemma ill_formed_bounds_prefix:
  assumes "first_ill_formed s i" and "ValidString (take n s)"
  shows "n \<le> i"
proof (rule ccontr)
  assume "\<not> n \<le> i"
  then have le: "i < n" by simp
  let ?b = "bytes_of (take (n - i) (drop i s))"
  have "take n s = take i s @ take (n - i) (drop i s)" using take_add [of i "n - i" s] le by simp
  then have "utf8_valid (bytes_of (take i s) @ ?b)" using assms(2) by (simp add: ValidString_def bytes_of_def)
  moreover have "utf8_valid (bytes_of (take i s))" using assms(1) by (simp add: first_ill_formed_def ValidString_def)
  ultimately have "utf8_valid ?b" by (simp add: utf8_valid_append)
  moreover have ne: "?b \<noteq> []" using le assms(1) by (auto simp: bytes_of_def first_ill_formed_def)
  ultimately have ok: "decode_rune ?b \<noteq> (RuneError, 1)" by (simp add: utf8_valid.simps [of ?b] split: if_splits)
  have "bytes_of (drop i s) = ?b @ bytes_of (drop (n - i) (drop i s))"
    by (simp add: bytes_of_def flip: map_append del: drop_drop)
  with decode_rune_prefix [OF ne ok] ok assms(1) show False by (simp add: first_ill_formed_def)
qed

text \<open>
  C19. Truncation of a long query, for any bytes: what is logged is the longest well-formed prefix
  of at most 200 bytes, sanitised, and three dots. Where at least 200 bytes are well-formed at
  least 197 are kept, so only a rune that the limit cuts is lost. Where a byte among the
  first 200 is ill-formed, everything from the first such byte on is lost, although the comment
  speaks of a rune boundary at the limit.
\<close>

theorem long_query_truncation:
  assumes "200 < length q"
  shows "\<exists>n \<le> 200. SanitizeQuery q = SanitizeString (take n q) @ ''...'' \<and> ValidString (take n q) \<and>
    (\<forall>m \<le> 200. ValidString (take m q) \<longrightarrow> m \<le> n) \<and>
    (\<forall>i \<ge> 200. ValidString (take i q) \<longrightarrow> 197 \<le> n) \<and>
    (\<forall>i < 200. first_ill_formed q i \<longrightarrow> n = i)"
proof -
  obtain n where n: "n \<le> length (take 200 q)" "truncate_valid (take 200 q) = take n (take 200 q)"
    and valid: "ValidString (truncate_valid (take 200 q))"
    and longest: "\<And>m. m \<le> length (take 200 q) \<Longrightarrow> ValidString (take m (take 200 q)) \<Longrightarrow> m \<le> length (truncate_valid (take 200 q))"
    using truncate_valid_spec [of "take 200 q"] by blast
  have n': "n \<le> 200" "truncate_valid (take 200 q) = take n q" "length (take n q) = n"
    using n assms by (simp_all add: min_def)
  have cut: "SanitizeQuery q = SanitizeString (take n q) @ ''...''"
    using assms n'(2) by (simp add: SanitizeQuery_def)
  have most: "m \<le> n" if "m \<le> 200" "ValidString (take m q)" for m
    using longest [of m] that assms n'(2,3) by (simp add: min_def)
  have "197 \<le> n" if i: "200 \<le> i" "ValidString (take i q)" for i
  proof -
    obtain m where m: "m \<le> 200" "200 \<le> m + 3" "ValidString (take m (take i q))"
      using ValidString_cut [OF i(2), of 200] assms i(1) by auto
    then have "ValidString (take m q)" using i(1) by (simp add: min_def)
    with most [OF m(1)] m(2) show ?thesis by simp
  qed
  moreover have "n = i" if "i < 200" "first_ill_formed q i" for i
  proof (rule le_antisym)
    show "n \<le> i" using ill_formed_bounds_prefix [OF that(2)] valid n'(2) by simp
    show "i \<le> n" using most [of i] that by (simp add: first_ill_formed_def)
  qed
  ultimately show ?thesis using n'(1,2) cut valid most by auto
qed

theorem long_query_truncation_witness:
  "SanitizeQuery (''ab'' @ CHR 0xFF # replicate 300 CHR ''c'') = ''ab...'' \<and>
   (\<exists>n. 197 \<le> n \<and> n \<le> 200 \<and>
      SanitizeQuery (replicate 300 CHR ''a'') = SanitizeString (take n (replicate 300 CHR ''a'')) @ ''...'')"
proof
  let ?q = "''ab'' @ CHR 0xFF # replicate 300 CHR ''c''"
  have "first_ill_formed ?q 2"
    using ValidString_ascii [of "''ab''"] by (simp add: first_ill_formed_def bytes_of_def)
  moreover obtain n where n: "SanitizeQuery ?q = SanitizeString (take n ?q) @ ''...''"
    and "\<forall>i < 200. first_ill_formed ?q i \<longrightarrow> n = i"
    using long_query_truncation [of ?q] by auto
  moreover have "(2 :: nat) < 200" by simp
  ultimately have "n = 2" by blast
  with n have "SanitizeQuery ?q = SanitizeString (take 2 ?q) @ ''...''" by (simp only:)
  also have "SanitizeString (take 2 ?q) = ''ab''"
    using SanitizeString_id [of "''ab''"] ValidString_ascii [of "''ab''"]
    by (simp add: bytes_of_def runes.simps loggable_def is_control_def)
  finally show "SanitizeQuery ?q = ''ab...''" by simp
  let ?p = "replicate 300 CHR ''a''"
  have "ValidString (take 300 ?p)" using ValidString_ascii [of ?p] by simp
  moreover obtain n where "n \<le> 200" "SanitizeQuery ?p = SanitizeString (take n ?p) @ ''...''"
    "\<forall>i \<ge> 200. ValidString (take i ?p) \<longrightarrow> 197 \<le> n"
    using long_query_truncation [of ?p] by auto
  moreover have "(200 :: nat) \<le> 300" by simp
  ultimately show "\<exists>n. 197 \<le> n \<and> n \<le> 200 \<and> SanitizeQuery ?p = SanitizeString (take n ?p) @ ''...''" by blast
qed

subsection \<open>Levels and trace identifiers\<close>

text \<open>The handlers agree with the level queries, and raising the level only drops lines.\<close>

lemma log_level_gate:
  assumes "\<not> sl_discard (lg_Logger st)"
  shows "lg_out (log_Debug msg args st) \<noteq> lg_out st \<longleftrightarrow> DebugEnabled st"
    and "lg_out (log_Info msg args st) \<noteq> lg_out st \<longleftrightarrow> InfoEnabled st"
    and "lg_out (log_Error msg args (SetLevel l st)) \<noteq> lg_out st"
  using assms
  by (auto simp: log_Debug_def log_Info_def log_Error_def logWith_def slog_log_def DebugEnabled_def InfoEnabled_def
      SetLevel_def toSlogLevel_def Let_def)

text \<open>How often a key occurs where \<^verbatim>\<open>slog\<close> expects keys, at the even positions.\<close>

fun key_count :: "string \<Rightarrow> larg list \<Rightarrow> nat" where
  "key_count key [] = 0"
| "key_count key [a] = (if a = LStr key then 1 else 0)"
| "key_count key (a # b # args) = (if a = LStr key then 1 else 0) + key_count key args"

lemma key_present_count: "key_present key args \<longleftrightarrow> 0 < key_count key args"
  by (induction key args rule: key_count.induct) auto

lemma key_count_append:
  "even (length args) \<Longrightarrow> key_count key (args @ [LStr k, v]) = key_count key args + (if k = key then 1 else 0)"
  by (induction key args rule: key_count.induct) auto

lemma appendKeyIfAbsent_even: "even (length (appendKeyIfAbsent args k v)) = even (length args)"
  by (simp add: appendKeyIfAbsent_def)

lemma appendKeyIfAbsent_count:
  assumes "even (length args)"
  shows "key_count key (appendKeyIfAbsent args k v) =
    (if key = k \<and> v \<noteq> [] then max 1 (key_count key args) else key_count key args)"
  using assms by (auto simp: appendKeyIfAbsent_def key_count_append key_present_count)

lemma appendKeyIfAbsent_present: "0 < key_count k args \<or> v = [] \<Longrightarrow> appendKeyIfAbsent args k v = args"
  by (auto simp: appendKeyIfAbsent_def key_present_count)

text \<open>
  Trace correlation: on a well-formed argument list (keys and values in pairs) the arguments of
  the caller are kept in front, each identifier of the span is there exactly once unless the
  caller has already repeated its key, no other key is added, and enriching the arguments a
  second time changes nothing, so nested helpers do not duplicate identifiers.
\<close>

lemma trace_context_once:
  assumes "even (length args)" and "span c = Some (t, s)"
  shows "take (length args) (WithTraceContext span (Some c) args) = args \<and>
    key_count key (WithTraceContext span (Some c) args) =
      (if key = ''trace_id'' \<and> t \<noteq> [] \<or> key = ''span_id'' \<and> s \<noteq> [] then max 1 (key_count key args)
       else key_count key args) \<and>
    WithTraceContext span (Some c) (WithTraceContext span (Some c) args) = WithTraceContext span (Some c) args"
proof -
  let ?a = "appendKeyIfAbsent args ''trace_id'' t"
  let ?b = "appendKeyIfAbsent ?a ''span_id'' s"
  have once: "WithTraceContext span (Some c) args = ?b" using assms(2) by (simp add: WithTraceContext_def)
  have count: "key_count k ?b = (if k = ''trace_id'' \<and> t \<noteq> [] \<or> k = ''span_id'' \<and> s \<noteq> [] then max 1 (key_count k args)
       else key_count k args)" for k
    using assms(1) by (simp add: appendKeyIfAbsent_count appendKeyIfAbsent_even)
  have "take (length args) ?b = args" by (auto simp: appendKeyIfAbsent_def)
  moreover have "WithTraceContext span (Some c) ?b = ?b"
    using count [of "''trace_id''"] count [of "''span_id''"] assms(2)
    by (simp add: WithTraceContext_def) (metis appendKeyIfAbsent_present less_max_iff_disj zero_less_one)
  ultimately show ?thesis using once count by simp
qed

lemma trace_context_once_witness:
  "WithTraceContext (\<lambda>c :: unit. Some (''7'', ''9'')) (Some ()) [LStr ''a'', LVal ''1''] =
     [LStr ''a'', LVal ''1'', LStr ''trace_id'', LStr ''7'', LStr ''span_id'', LStr ''9''] \<and>
   key_count ''trace_id'' (WithTraceContext (\<lambda>c :: unit. Some (''7'', ''9'')) (Some ()) [LStr ''a'', LVal ''1'']) = 1"
  using trace_context_once [of "[LStr ''a'', LVal ''1'']" "\<lambda>c :: unit. Some (''7'', ''9'')" "()" "''7''" "''9''" "''trace_id''"]
  by (simp add: WithTraceContext_def appendKeyIfAbsent_def)

end
