(* ===== verification/Build_Info.thy ===== *)
theory Build_Info
  imports Prelude
begin

section \<open>Build metadata\<close>

text \<open>
  Model of \<^verbatim>\<open>pkg/version.go\<close>: the package variables and \<open>initBuildInfo\<close>, which fills in
  whatever the linker flags left at its default from the metadata Go embeds. The reader of
  that metadata is an argument, as in the source.
\<close>

record build_vars =
  bv_Version :: string
  bv_BuildTime :: string
  bv_Commit :: string

abbreviation defaultVersion :: string where
  "defaultVersion \<equiv> ''1.0.0''"

abbreviation defaultBuildTime :: string where
  "defaultBuildTime \<equiv> ''unknown''"

abbreviation defaultCommit :: string where
  "defaultCommit \<equiv> ''unknown''"

abbreviation ServiceName :: string where
  "ServiceName \<equiv> ''caddy-fs-gcs''"

record debug_BuildInfo =
  bi_Settings :: "(string \<times> string) list"
  bi_MainVersion :: string

definition apply_setting :: "string \<times> string \<Rightarrow> build_vars \<Rightarrow> build_vars" where
  "apply_setting = (\<lambda>(key, val) b.
     if key = ''vcs.revision'' then
       (if bv_Commit b = defaultCommit then b\<lparr>bv_Commit := val\<rparr> else b)
     else if key = ''vcs.time'' then
       (if bv_BuildTime b = defaultBuildTime then b\<lparr>bv_BuildTime := val\<rparr> else b)
     else b)"

definition initBuildInfo :: "debug_BuildInfo option \<Rightarrow> build_vars \<Rightarrow> build_vars" where
  "initBuildInfo reader b =
     (case reader of
        None \<Rightarrow> b
      | Some info \<Rightarrow>
          (let b1 = fold apply_setting (bi_Settings info) b in
           if bv_Version b1 = defaultVersion \<and> bi_MainVersion info \<noteq> [] \<and> bi_MainVersion info \<noteq> ''(devel)''
           then b1\<lparr>bv_Version := bi_MainVersion info\<rparr> else b1))"

lemma apply_settings_version [simp]: "bv_Version (fold apply_setting kvs b) = bv_Version b"
  by (induction kvs arbitrary: b) (auto simp: apply_setting_def split: prod.splits)

lemma apply_settings_commit_kept: "bv_Commit b \<noteq> defaultCommit \<Longrightarrow> bv_Commit (fold apply_setting kvs b) = bv_Commit b"
  by (induction kvs arbitrary: b) (auto simp: apply_setting_def split: prod.splits)

lemma apply_settings_time_kept:
  "bv_BuildTime b \<noteq> defaultBuildTime \<Longrightarrow> bv_BuildTime (fold apply_setting kvs b) = bv_BuildTime b"
  by (induction kvs arbitrary: b) (auto simp: apply_setting_def split: prod.splits)

lemma apply_settings_commit_default:
  "distinct (map fst kvs) \<Longrightarrow> bv_Commit b = defaultCommit \<Longrightarrow>
   bv_Commit (fold apply_setting kvs b) = (case map_of kvs ''vcs.revision'' of None \<Rightarrow> defaultCommit | Some v \<Rightarrow> v)"
proof (induction kvs arbitrary: b)
  case (Cons kv kvs)
  obtain k v where kv: "kv = (k, v)" by force
  show ?case
  proof (cases "k = ''vcs.revision'' \<and> v \<noteq> defaultCommit")
    case True
    then have "bv_Commit (apply_setting kv b) = v" using Cons.prems kv by (simp add: apply_setting_def)
    with True kv apply_settings_commit_kept [of "apply_setting kv b" kvs] show ?thesis by simp
  next
    case False
    then have d: "bv_Commit (apply_setting kv b) = defaultCommit"
      using Cons.prems kv by (auto simp: apply_setting_def)
    from Cons.prems kv have "k \<notin> fst ` set kvs" by simp
    with False have "k = ''vcs.revision'' \<Longrightarrow> map_of kvs ''vcs.revision'' = None" by (simp add: map_of_eq_None_iff)
    with Cons.IH [OF _ d] Cons.prems False kv show ?thesis by (auto split: option.splits)
  qed
qed simp

text \<open>
  Build metadata: a value set through linker flags is never overwritten; a commit left at
  its default takes the embedded revision if there is one; the version takes the module
  version unless that is empty or a development build.
\<close>

lemma build_info_precedence:
  "(bv_Version b \<noteq> defaultVersion \<longrightarrow> bv_Version (initBuildInfo r b) = bv_Version b) \<and>
   (bv_Commit b \<noteq> defaultCommit \<longrightarrow> bv_Commit (initBuildInfo r b) = bv_Commit b) \<and>
   (bv_BuildTime b \<noteq> defaultBuildTime \<longrightarrow> bv_BuildTime (initBuildInfo r b) = bv_BuildTime b) \<and>
   (r = Some info \<and> distinct (map fst (bi_Settings info)) \<and> bv_Commit b = defaultCommit \<longrightarrow>
      bv_Commit (initBuildInfo r b) =
        (case map_of (bi_Settings info) ''vcs.revision'' of None \<Rightarrow> defaultCommit | Some v \<Rightarrow> v)) \<and>
   (r = Some info \<and> bv_Version b = defaultVersion \<longrightarrow>
      bv_Version (initBuildInfo r b) =
        (if bi_MainVersion info \<in> {[], ''(devel)''} then defaultVersion else bi_MainVersion info))"
  using apply_settings_commit_kept [of b] apply_settings_time_kept [of b] apply_settings_commit_default [of _ b]
  by (auto simp: initBuildInfo_def Let_def split: option.splits)

lemma build_info_precedence_witness:
  "let b = \<lparr>bv_Version = ''1.0.0'', bv_BuildTime = ''t'', bv_Commit = ''unknown''\<rparr>;
       info = \<lparr>bi_Settings = [(''vcs.time'', ''u''), (''vcs.revision'', ''abc'')], bi_MainVersion = ''v2''\<rparr>;
       b' = initBuildInfo (Some info) b
   in bv_Version b' = ''v2'' \<and> bv_BuildTime b' = ''t'' \<and> bv_Commit b' = ''abc''"
  using build_info_precedence [of "\<lparr>bv_Version = ''1.0.0'', bv_BuildTime = ''t'', bv_Commit = ''unknown''\<rparr>"
      "Some \<lparr>bi_Settings = [(''vcs.time'', ''u''), (''vcs.revision'', ''abc'')], bi_MainVersion = ''v2''\<rparr>"
      "\<lparr>bi_Settings = [(''vcs.time'', ''u''), (''vcs.revision'', ''abc'')], bi_MainVersion = ''v2''\<rparr>"]
  by (simp add: Let_def)

end
