(* ===== verification/Tracing.thy ===== *)
theory Tracing
  imports Complex_Main Go_Errors Build_Info
begin

section \<open>Tracing\<close>

text \<open>
  Model of \<^verbatim>\<open>pkg/observability/tracing/tracing.go\<close>: the life cycle of the global tracer, the
  attributes of the resource, the choice of exporter and sampler and the reading of the OTLP
  endpoint. The OpenTelemetry SDK, URL parsing and the process environment are the parameter
  \<open>env\<close>. The helpers that pass a span through to the SDK (\<^verbatim>\<open>StartSpan\<close> and its like) are not
  modelled. Shown: a failed \<open>Init\<close> changes nothing, a running tracer is not replaced, \<open>Shutdown\<close>
  allows a new \<open>Init\<close> exactly if an exporter was running.
\<close>

datatype sample_rate = NaN | Rate rat

datatype sampler = AlwaysSample | NeverSample | TraceIDRatioBased sample_rate

datatype otlp_client = Grpc string bool | Http string bool \<comment> \<open>host and port, without TLS\<close>

datatype span_exporter = OtlpExporter otlp_client | StdoutExporter

record TracerProvider =
  tpv_exporter :: span_exporter
  tpv_resource :: "(string \<times> string) list"
  tpv_sampler :: sampler

record trace_env =
  te_Parse :: "string \<Rightarrow> gerror + (string \<times> string)" \<comment> \<open>scheme and host\<close>
  te_Getenv :: "string \<Rightarrow> string"
  te_Hostname :: "gerror + string"
  te_resource_New :: "(string \<times> string) list \<Rightarrow> gerror + (string \<times> string) list"
  te_otlptrace_New :: "otlp_client \<Rightarrow> gerror option"
  te_stdouttrace_New :: "gerror option"
  te_Shutdown :: "TracerProvider \<Rightarrow> gerror option"

text \<open>The package variables, and the provider registered with the SDK.\<close>

record tracing_state =
  tr_tracer :: "string option"
  tr_tp :: "TracerProvider option"
  tr_shutdownFunc :: "TracerProvider option" \<comment> \<open>the provider whose \<^verbatim>\<open>Shutdown\<close> it is\<close>
  tr_initialized :: bool
  tr_global :: "TracerProvider option"

definition tracing_start :: tracing_state where
  "tracing_start = \<lparr>tr_tracer = None, tr_tp = None, tr_shutdownFunc = None, tr_initialized = False, tr_global = None\<rparr>"

definition GetTracer :: "tracing_state \<Rightarrow> string option" where
  "GetTracer s = tr_tracer s"

definition serviceInstanceID :: "trace_env \<Rightarrow> string" where
  "serviceInstanceID env =
     (let pod = te_Getenv env ''POD_NAME'' in
      if pod \<noteq> [] then pod
      else case te_Hostname env of Inr host \<Rightarrow> host | Inl _ \<Rightarrow> [])"

definition parseOTLPEndpoint :: "trace_env \<Rightarrow> string \<Rightarrow> string \<times> bool" where
  "parseOTLPEndpoint env endpoint =
     (case te_Parse env endpoint of
        Inl _ \<Rightarrow> (endpoint, True)
      | Inr (scheme, host) \<Rightarrow> if host = [] then (endpoint, True) else (host, scheme = ''http''))"

definition createOTLPExporter :: "trace_env \<Rightarrow> string \<Rightarrow> string \<Rightarrow> gerror + span_exporter" where
  "createOTLPExporter env endpoint protocol =
     (if endpoint = [] then Inl (OtherError ''OTLP endpoint is required'')
      else
        case parseOTLPEndpoint env endpoint of
          (otlpHost, insecure) \<Rightarrow>
            (let finish = (\<lambda>client. case te_otlptrace_New env client of
                             Some e \<Rightarrow> Inl e
                           | None \<Rightarrow> Inr (OtlpExporter client))
             in if protocol = ''grpc'' then finish (Grpc otlpHost insecure)
                else if protocol = ''http'' then finish (Http otlpHost insecure)
                else Inl (OtherError (''unsupported OTLP protocol: '' @ protocol @ '' (supported: grpc, http)''))))"

definition resource_attrs :: "trace_env \<Rightarrow> build_vars \<Rightarrow> string \<Rightarrow> (string \<times> string) list" where
  "resource_attrs env b serviceEnv =
     [(''service.name'', ServiceName), (''service.version'', bv_Version b)] @
     (if bv_Commit b \<noteq> ''unknown'' then [(''vcs.revision'', bv_Commit b)] else []) @
     (if serviceEnv \<noteq> [] then [(''deployment.environment.name'', serviceEnv)] else []) @
     (if serviceInstanceID env \<noteq> [] then [(''service.instance.id'', serviceInstanceID env)] else [])"

definition choose_sampler :: "sample_rate \<Rightarrow> sampler" where
  "choose_sampler rate =
     (case rate of
        NaN \<Rightarrow> TraceIDRatioBased NaN
      | Rate q \<Rightarrow> if q \<ge> 1 then AlwaysSample else if q \<le> 0 then NeverSample else TraceIDRatioBased (Rate q))"

definition choose_exporter :: "trace_env \<Rightarrow> string \<Rightarrow> string \<Rightarrow> string \<Rightarrow> gerror + span_exporter option" where
  "choose_exporter env exporter otlpEndpoint otlpProtocol =
     (if exporter = ''otlp'' then
        (case createOTLPExporter env otlpEndpoint otlpProtocol of
           Inl e \<Rightarrow> Inl (WrapError ''failed to create OTLP exporter'' [e])
         | Inr x \<Rightarrow> Inr (Some x))
      else if exporter = ''stdout'' then
        (case te_stdouttrace_New env of
           Some e \<Rightarrow> Inl (WrapError ''failed to create stdout exporter'' [e])
         | None \<Rightarrow> Inr (Some StdoutExporter))
      else if exporter = ''none'' \<or> exporter = [] then Inr None
      else Inl (OtherError (''unknown exporter type: '' @ exporter @ '' (supported: otlp, stdout, none)'')))"

definition Init ::
  "trace_env \<Rightarrow> build_vars \<Rightarrow> string \<Rightarrow> string \<Rightarrow> string \<Rightarrow> string \<Rightarrow> sample_rate \<Rightarrow> tracing_state
     \<Rightarrow> gerror option \<times> tracing_state" where
  "Init env b exporter serviceEnv otlpEndpoint otlpProtocol sampleRate s =
     (if tr_initialized s then (None, s)
      else
        case te_resource_New env (resource_attrs env b serviceEnv) of
          Inl e \<Rightarrow> (Some (WrapError ''failed to create resource'' [e]), s)
        | Inr res \<Rightarrow>
            (case choose_exporter env exporter otlpEndpoint otlpProtocol of
               Inl e \<Rightarrow> (Some e, s)
             | Inr None \<Rightarrow> (None, s\<lparr>tr_tracer := Some ServiceName, tr_initialized := True\<rparr>)
             | Inr (Some spans) \<Rightarrow>
                 (let p = \<lparr>tpv_exporter = spans, tpv_resource = res, tpv_sampler = choose_sampler sampleRate\<rparr>
                  in (None, s\<lparr>tr_tp := Some p, tr_global := Some p, tr_tracer := Some ServiceName,
                              tr_shutdownFunc := Some p, tr_initialized := True\<rparr>))))"

definition Shutdown :: "trace_env \<Rightarrow> tracing_state \<Rightarrow> gerror option \<times> tracing_state" where
  "Shutdown env s =
     (case (tr_initialized s, tr_shutdownFunc s) of
        (True, Some p) \<Rightarrow>
          (te_Shutdown env p, s\<lparr>tr_initialized := False, tr_shutdownFunc := None, tr_tp := None, tr_tracer := Some ServiceName\<rparr>)
      | _ \<Rightarrow> (None, s))"

subsection \<open>Life cycle\<close>

datatype tracing_op =
    TInit string string string string sample_rate
  | TShutdown

fun tracing_exec :: "trace_env \<Rightarrow> build_vars \<Rightarrow> tracing_op \<Rightarrow> tracing_state \<Rightarrow> gerror option \<times> tracing_state" where
  "tracing_exec env b (TInit x e ep pr sr) s = Init env b x e ep pr sr s"
| "tracing_exec env b TShutdown s = Shutdown env s"

inductive tracing_reach :: "trace_env \<Rightarrow> build_vars \<Rightarrow> tracing_state \<Rightarrow> bool" for env b where
  start: "tracing_reach env b tracing_start"
| step: "tracing_reach env b s \<Longrightarrow> tracing_reach env b (snd (tracing_exec env b x s))"

definition tracing_inv :: "tracing_state \<Rightarrow> bool" where
  "tracing_inv s \<longleftrightarrow> tr_shutdownFunc s = tr_tp s \<and> (tr_tp s \<noteq> None \<longrightarrow> tr_initialized s \<and> tr_global s = tr_tp s) \<and>
     (tr_initialized s \<longrightarrow> tr_tracer s \<noteq> None)"

lemma Init_failed: "fst (Init env b x e ep pr sr s) \<noteq> None \<Longrightarrow> snd (Init env b x e ep pr sr s) = s"
  by (auto simp: Init_def Let_def split: if_splits sum.splits option.splits)

lemma Init_succeeded:
  "fst (Init env b x e ep pr sr s) = None \<Longrightarrow> tr_initialized (snd (Init env b x e ep pr sr s)) \<and>
     (tr_initialized s \<longrightarrow> snd (Init env b x e ep pr sr s) = s)"
  by (auto simp: Init_def Let_def split: if_splits sum.splits option.splits)

lemma tracing_inv_Init: "tracing_inv s \<Longrightarrow> tracing_inv (snd (Init env b x e ep pr sr s))"
  by (auto simp: Init_def tracing_inv_def Let_def split: if_splits sum.splits option.splits)

lemma tracing_inv_Shutdown: "tracing_inv s \<Longrightarrow> tracing_inv (snd (Shutdown env s))"
  by (auto simp: Shutdown_def tracing_inv_def split: option.splits bool.splits)

lemma tracing_inv_reach: "tracing_reach env b s \<Longrightarrow> tracing_inv s"
proof (induction rule: tracing_reach.induct)
  case start
  then show ?case by (simp add: tracing_inv_def tracing_start_def)
next
  case (step s x)
  then show ?case by (cases x) (simp_all add: tracing_inv_Init tracing_inv_Shutdown)
qed

text \<open>
  C20. The life cycle of tracing, in every state the package can reach: the provider to shut down is
  the running one and it is the one registered with the SDK. An \<open>Init\<close> that fails changes nothing
  and can be repeated; one that succeeds leaves a tracer, and while one is running a further
  \<open>Init\<close> has no effect. \<open>Shutdown\<close> makes a new \<open>Init\<close> possible exactly if an exporter is running;
  after \<open>Init\<close> without an exporter it does nothing, so every later \<open>Init\<close> is ignored.
\<close>

theorem tracing_life_cycle:
  assumes "tracing_reach env b s"
  shows "tracing_inv s \<and>
    (fst (Init env b x e ep pr sr s) \<noteq> None \<longrightarrow> snd (Init env b x e ep pr sr s) = s) \<and>
    (tr_initialized s \<longrightarrow> Init env b x e ep pr sr s = (None, s) \<and> GetTracer s \<noteq> None) \<and>
    (tr_tp s \<noteq> None \<longrightarrow> \<not> tr_initialized (snd (Shutdown env s))) \<and>
    (tr_tp s = None \<longrightarrow> Shutdown env s = (None, s))"
proof -
  have inv: "tracing_inv s" using tracing_inv_reach [OF assms] .
  moreover have "tr_initialized s \<longrightarrow> Init env b x e ep pr sr s = (None, s)" by (simp add: Init_def)
  moreover have "tr_tp s \<noteq> None \<longrightarrow> \<not> tr_initialized (snd (Shutdown env s))"
    using inv by (auto simp: Shutdown_def tracing_inv_def)
  moreover have "tr_tp s = None \<longrightarrow> Shutdown env s = (None, s)"
    using inv by (auto simp: Shutdown_def tracing_inv_def split: bool.splits)
  ultimately show ?thesis using Init_failed [of env b x e ep pr sr s] by (simp add: tracing_inv_def GetTracer_def)
qed

definition quiet_env :: trace_env where
  "quiet_env = \<lparr>te_Parse = (\<lambda>s. Inr ([], [])), te_Getenv = (\<lambda>v. []), te_Hostname = Inr ''host'',
     te_resource_New = Inr, te_otlptrace_New = (\<lambda>c. None), te_stdouttrace_New = None, te_Shutdown = (\<lambda>p. None)\<rparr>"

definition some_build :: build_vars where
  "some_build = \<lparr>bv_Version = ''1.0.0'', bv_BuildTime = ''unknown'', bv_Commit = ''unknown''\<rparr>"

text \<open>After \<^verbatim>\<open>Init(none)\<close> and \<open>Shutdown\<close>, asking for the OTLP exporter reports success and does nothing.\<close>

theorem tracing_life_cycle_witness:
  "let s = snd (Init quiet_env some_build ''none'' [] [] [] NaN tracing_start) in
   Shutdown quiet_env s = (None, s) \<and>
   Init quiet_env some_build ''otlp'' [] ''collector:4317'' ''grpc'' NaN s = (None, s) \<and> tr_tp s = None"
proof -
  let ?s = "snd (Init quiet_env some_build ''none'' [] [] [] NaN tracing_start)"
  have "tracing_reach quiet_env some_build ?s"
    using tracing_reach.step [OF tracing_reach.start, of quiet_env some_build "TInit ''none'' [] [] [] NaN"] by simp
  from tracing_life_cycle [OF this, of "''otlp''" "[]" "''collector:4317''" "''grpc''" NaN]
  show ?thesis by (simp add: Let_def Init_def quiet_env_def tracing_start_def choose_exporter_def)
qed

end
