(* ===== verification/Caddyfile.thy ===== *)
theory Caddyfile
  imports Prelude
begin

section \<open>Reading directives from a Caddyfile\<close>

text \<open>
  The token stream of a Caddyfile directive (Caddy's \<^verbatim>\<open>caddyfile.Dispenser\<close>) is a parameter: a record
  of the methods the program calls. What the program relies on is stated as two predicates:
  \<open>advances\<close> (tokens are consumed, never put back past a point) carries termination, and
  \<open>presents\<close> (the stream of a directive with arguments and a block of lines) carries results. The
  two loops every parser of the program is built from are defined here, with the locale that
  turns what one pass of a loop body keeps into what the whole loop does.
\<close>

subsection \<open>The token stream\<close>

text \<open>
  \<open>d_AllArgs\<close> is \<^verbatim>\<open>AllArgs\<close> with one target, whose old value it takes and whose new value it
  returns: the target can be assigned even if the result is false.
\<close>

record 'd dispenser =
  d_Next :: "'d \<Rightarrow> bool \<times> 'd"
  d_NextArg :: "'d \<Rightarrow> bool \<times> 'd"
  d_NextBlock :: "int \<Rightarrow> 'd \<Rightarrow> bool \<times> 'd"
  d_Nesting :: "'d \<Rightarrow> int"
  d_Val :: "'d \<Rightarrow> string"
  d_RemainingArgs :: "'d \<Rightarrow> string list \<times> 'd"
  d_AllArgs :: "string \<Rightarrow> 'd \<Rightarrow> bool \<times> string \<times> 'd"

text \<open>\<^verbatim>\<open>d.ArgErr()\<close>, and \<^verbatim>\<open>d.Errf\<close> or \<^verbatim>\<open>d.Err\<close> with its format and arguments.\<close>

datatype cf_error = ArgErr | Errf string "string list"

type_synonym ('h, 'd) parsed = "cf_error option \<times> 'h \<times> 'd"

subsection \<open>The loops\<close>

text \<open>\<^verbatim>\<open>for d.NextBlock(n) { body }\<close>, left early with an error; \<^const>\<open>None\<close> means it never ends.\<close>

partial_function (option) block_loop ::
  "'d dispenser \<Rightarrow> int \<Rightarrow> ('d \<Rightarrow> 'h \<Rightarrow> ('h, 'd) parsed) \<Rightarrow> 'd \<Rightarrow> 'h \<Rightarrow> ('h, 'd) parsed option" where
  "block_loop D n body d h =
     (case d_NextBlock D n d of
        (again, d1) \<Rightarrow>
          if again then
            (case body d1 h of
               (e, h1, d2) \<Rightarrow> if e = None then block_loop D n body d2 h1 else Some (e, h1, d2))
          else Some (None, h, d1))"

text \<open>\<^verbatim>\<open>for d.Next() { body }\<close>.\<close>

partial_function (option) next_loop ::
  "'d dispenser \<Rightarrow> ('d \<Rightarrow> 'h \<Rightarrow> ('h, 'd) parsed option) \<Rightarrow> 'd \<Rightarrow> 'h \<Rightarrow> ('h, 'd) parsed option" where
  "next_loop D body d h =
     (case d_Next D d of
        (again, d1) \<Rightarrow>
          if again then
            Option.bind (body d1 h) (\<lambda>r. case r of
               (e, h1, d2) \<Rightarrow> if e = None then next_loop D body d2 h1 else Some (e, h1, d2))
          else Some (None, h, d1))"

text \<open>\<^verbatim>\<open>if !d.NextArg() { return d.ArgErr() }\<close>, after which \<^verbatim>\<open>d.Val()\<close> is the argument.\<close>

definition with_arg :: "'d dispenser \<Rightarrow> (string \<Rightarrow> 'd \<Rightarrow> ('h, 'd) parsed) \<Rightarrow> 'd \<Rightarrow> 'h \<Rightarrow> ('h, 'd) parsed" where
  "with_arg D k d h = (case d_NextArg D d of (ok, d1) \<Rightarrow> if ok then k (d_Val D d1) d1 else (Some ArgErr, h, d1))"

text \<open>
  \<^verbatim>\<open>if !d.AllArgs(&target) { return d.ArgErr() }\<close>; \<open>assigned\<close> is the configuration with the target
  at the given value.
\<close>

definition with_all ::
  "'d dispenser \<Rightarrow> string \<Rightarrow> (string \<Rightarrow> 'h) \<Rightarrow> (string \<Rightarrow> 'd \<Rightarrow> ('h, 'd) parsed) \<Rightarrow> 'd \<Rightarrow> ('h, 'd) parsed" where
  "with_all D old assigned k d =
     (case d_AllArgs D old d of (ok, y, d1) \<Rightarrow> if ok then k y d1 else (Some ArgErr, assigned y, d1))"

text \<open>The start of most directives: the first argument, if any, and then the block.\<close>

definition arg_then_block ::
  "'d dispenser \<Rightarrow> (string \<Rightarrow> 'h \<Rightarrow> 'h) \<Rightarrow> ('d \<Rightarrow> 'h \<Rightarrow> ('h, 'd) parsed) \<Rightarrow> 'd \<Rightarrow> 'h \<Rightarrow> ('h, 'd) parsed option" where
  "arg_then_block D set_path body d h =
     (case d_RemainingArgs D d of
        (args, d1) \<Rightarrow> block_loop D 0 body d1 (case args of [] \<Rightarrow> h | a # _ \<Rightarrow> set_path a h))"

subsection \<open>Termination\<close>

text \<open>
  A stream is finite: \<open>left\<close> counts the tokens ahead, each \<^verbatim>\<open>Next\<close> and \<^verbatim>\<open>NextBlock\<close> that
  succeeds consumes at least one, and no method moves back.
\<close>

definition advances :: "'d dispenser \<Rightarrow> ('d \<Rightarrow> nat) \<Rightarrow> bool" where
  "advances D left \<longleftrightarrow>
     (\<forall>d. left (snd (d_Next D d)) \<le> left d \<and> (fst (d_Next D d) \<longrightarrow> left (snd (d_Next D d)) < left d)) \<and>
     (\<forall>n d. left (snd (d_NextBlock D n d)) \<le> left d \<and> (fst (d_NextBlock D n d) \<longrightarrow> left (snd (d_NextBlock D n d)) < left d)) \<and>
     (\<forall>d. left (snd (d_NextArg D d)) \<le> left d) \<and> (\<forall>d. left (snd (d_RemainingArgs D d)) \<le> left d) \<and>
     (\<forall>x d. left (snd (snd (d_AllArgs D x d))) \<le> left d)"

lemma advances_Next: "advances D left \<Longrightarrow> d_Next D d = (b, d') \<Longrightarrow> left d' \<le> left d \<and> (b \<longrightarrow> left d' < left d)"
  unfolding advances_def by (metis fst_conv snd_conv)

lemma advances_NextBlock:
  "advances D left \<Longrightarrow> d_NextBlock D n d = (b, d') \<Longrightarrow> left d' \<le> left d \<and> (b \<longrightarrow> left d' < left d)"
  unfolding advances_def by (metis fst_conv snd_conv)

lemma advances_NextArg: "advances D left \<Longrightarrow> d_NextArg D d = (b, d') \<Longrightarrow> left d' \<le> left d"
  unfolding advances_def by (metis snd_conv)

lemma advances_RemainingArgs: "advances D left \<Longrightarrow> d_RemainingArgs D d = (as, d') \<Longrightarrow> left d' \<le> left d"
  unfolding advances_def by (metis snd_conv)

lemma advances_AllArgs: "advances D left \<Longrightarrow> d_AllArgs D x d = (b, y, d') \<Longrightarrow> left d' \<le> left d"
  unfolding advances_def by (metis snd_conv)

definition no_rewind :: "('d \<Rightarrow> nat) \<Rightarrow> 'd \<Rightarrow> ('h, 'd) parsed \<Rightarrow> bool" where
  "no_rewind left d r \<longleftrightarrow> left (snd (snd r)) \<le> left d"

lemma no_rewind_with_arg:
  assumes "advances D left" and "\<And>v d1. no_rewind left d1 (k v d1)"
  shows "no_rewind left d (with_arg D k d h)"
proof -
  obtain b d1 where n: "d_NextArg D d = (b, d1)" by force
  with advances_NextArg [OF assms(1)] assms(2) [of d1 "d_Val D d1"] show ?thesis
    by (fastforce simp: with_arg_def no_rewind_def)
qed

lemma no_rewind_with_all:
  assumes "advances D left" and "\<And>v d1. no_rewind left d1 (k v d1)"
  shows "no_rewind left d (with_all D old g k d)"
proof -
  obtain b y d1 where n: "d_AllArgs D old d = (b, y, d1)" by (metis prod.exhaust)
  with advances_AllArgs [OF assms(1)] assms(2) [of d1 y] show ?thesis
    by (fastforce simp: with_all_def no_rewind_def)
qed

lemma no_rewind_stay [simp]: "no_rewind left d (e, h, d)"
  by (simp add: no_rewind_def)

lemma block_loop_returns:
  assumes "advances D left" and "\<And>d h. no_rewind left d (body d h)"
  shows "\<exists>r. block_loop D n body d h = Some r \<and> no_rewind left d r"
proof (induction "left d" arbitrary: d h rule: less_induct)
  case less
  obtain b d1 where n: "d_NextBlock D n d = (b, d1)" by force
  obtain e h1 d2 where r: "body d1 h = (e, h1, d2)" by (metis prod.exhaust)
  have le: "left d2 \<le> left d1" using assms(2) [of d1 h] r by (simp add: no_rewind_def)
  note adv = advances_NextBlock [OF assms(1) n]
  show ?case
  proof (cases "b \<and> e = None")
    case True
    with adv le obtain r' where "block_loop D n body d2 h1 = Some r'" "no_rewind left d2 r'"
      using less [of d2 h1] by auto
    with True adv le n r show ?thesis by (subst block_loop.simps) (simp add: no_rewind_def)
  next
    case False
    with adv le n r show ?thesis by (subst block_loop.simps) (auto simp: no_rewind_def)
  qed
qed

text \<open>What every pass of a loop body keeps, the loop keeps, whatever the stream does.\<close>

lemma block_loop_inv:
  assumes "\<And>d h h1 d2. I h \<Longrightarrow> body d h = (None, h1, d2) \<Longrightarrow> I h1"
    and "block_loop D n body d h = Some (None, h', d')" and "I h"
  shows "I h'"
proof -
  let ?P = "\<lambda>D n body d h r.
    (\<forall>d h h1 d2. I h \<longrightarrow> body d h = (None, h1, d2) \<longrightarrow> I h1) \<longrightarrow> I h \<longrightarrow> fst r = None \<longrightarrow> I (fst (snd r))"
  have "?P D n body d h (None :: cf_error option, h', d')"
  proof (rule block_loop.raw_induct [where P = ?P, OF _ assms(2)])
    fix loop D n body d h r
    assume IH: "\<And>D n body d h r. loop D n body d h = Some r \<Longrightarrow> ?P D n body d h r"
      and step: "(case d_NextBlock D n d of (again, d1) \<Rightarrow>
        if again then (case body d1 h of (e, h1, d2) \<Rightarrow> if e = None then loop D n body d2 h1 else Some (e, h1, d2))
        else Some (None, h, d1)) = Some r"
    obtain again d1 where n: "d_NextBlock D n d = (again, d1)" by force
    obtain e h1 d2 where b: "body d1 h = (e, h1, d2)" by (metis prod.exhaust)
    show "?P D n body d h r"
    proof (cases "again \<and> e = None")
      case True
      with step n b have "loop D n body d2 h1 = Some r" by simp
      from IH [OF this] b True show ?thesis by blast
    next
      case False
      with step n b have "r = (None, h, d1) \<or> r = (e, h1, d2) \<and> e \<noteq> None" by (auto split: if_splits)
      then show ?thesis by auto
    qed
  qed
  with assms(1,3) show ?thesis by auto
qed

lemma next_loop_returns:
  assumes "advances D left" and "\<And>d h. \<exists>r. body d h = Some r \<and> no_rewind left d r"
  shows "\<exists>r. next_loop D body d h = Some r \<and> no_rewind left d r"
proof (induction "left d" arbitrary: d h rule: less_induct)
  case less
  obtain b d1 where n: "d_Next D d = (b, d1)" by force
  obtain e h1 d2 where r: "body d1 h = Some (e, h1, d2)" and le: "left d2 \<le> left d1"
    using assms(2) [of d1 h] by (auto simp: no_rewind_def)
  note adv = advances_Next [OF assms(1) n]
  show ?case
  proof (cases "b \<and> e = None")
    case True
    with adv le obtain r' where "next_loop D body d2 h1 = Some r'" "no_rewind left d2 r'"
      using less [of d2 h1] by auto
    with True adv le n r show ?thesis by (subst next_loop.simps) (simp add: no_rewind_def)
  next
    case False
    with adv le n r show ?thesis by (subst next_loop.simps) (auto simp: no_rewind_def)
  qed
qed

subsection \<open>What a directive says\<close>

text \<open>
  Where a stream over one directive stands: before it, on its name with arguments ahead, on a
  word of a line of its block, or past everything. Lines are lists of words.
\<close>

datatype cursor =
    Start "string list" "string list list"
  | Head "string list" "string list list"
  | Inside string "string list" "string list list"
  | Finished
  | Elsewhere

fun enter :: "string list list \<Rightarrow> bool \<times> cursor" where
  "enter [] = (False, Finished)"
| "enter ([] # ls) = enter ls"
| "enter ((v # as) # ls) = (True, Inside v as ls)"

definition moves :: "('d \<Rightarrow> cursor) \<Rightarrow> bool \<times> 'd \<Rightarrow> bool \<times> cursor \<Rightarrow> bool" where
  "moves view r c \<longleftrightarrow> fst r = fst c \<and> view (snd r) = snd c"

text \<open>
  The methods as documented, on a directive whose words are no braces. Inside a block
  \<^verbatim>\<open>NextBlock\<close> goes to the next word, be it on this line or a later one; \<^verbatim>\<open>NextArg\<close> stays on the
  line; \<^verbatim>\<open>AllArgs\<close> succeeds if there is exactly one more word on it. Nothing is said of the target
  of a failed \<^verbatim>\<open>AllArgs\<close>.
\<close>

definition presents :: "'d dispenser \<Rightarrow> ('d \<Rightarrow> cursor) \<Rightarrow> bool" where
  "presents D view \<longleftrightarrow>
     (\<forall>d as ls. view d = Start as ls \<longrightarrow> moves view (d_Next D d) (True, Head as ls)) \<and>
     (\<forall>d. view d = Finished \<longrightarrow> \<not> fst (d_Next D d)) \<and>
     (\<forall>d as ls. view d = Head as ls \<longrightarrow> d_Nesting D d = 0 \<and>
        fst (d_RemainingArgs D d) = as \<and> view (snd (d_RemainingArgs D d)) = Head [] ls) \<and>
     (\<forall>d ls. view d = Head [] ls \<longrightarrow> moves view (d_NextBlock D 0 d) (enter ls)) \<and>
     (\<forall>d a as ls. view d = Head (a # as) ls \<longrightarrow> \<not> fst (d_NextBlock D 0 d)) \<and>
     (\<forall>d v as ls. view d = Inside v as ls \<longrightarrow> d_Val D d = v \<and> moves view (d_NextBlock D 0 d) (enter (as # ls))) \<and>
     (\<forall>d v ls. view d = Inside v [] ls \<longrightarrow> \<not> fst (d_NextArg D d)) \<and>
     (\<forall>d v a as ls. view d = Inside v (a # as) ls \<longrightarrow> moves view (d_NextArg D d) (True, Inside a as ls)) \<and>
     (\<forall>d v as ls x. view d = Inside v as ls \<longrightarrow> (fst (d_AllArgs D x d) \<longleftrightarrow> length as = 1)) \<and>
     (\<forall>d v a ls x. view d = Inside v [a] ls \<longrightarrow>
        fst (snd (d_AllArgs D x d)) = a \<and> view (snd (snd (d_AllArgs D x d))) = Inside a [] ls)"

lemma moves_pair: "moves view r (b, c) \<longleftrightarrow> (\<exists>d'. r = (b, d') \<and> view d' = c)"
  by (cases r) (auto simp: moves_def)

lemma presents_outside:
  assumes "presents D view"
  shows "view d = Start as ls \<Longrightarrow> \<exists>d'. d_Next D d = (True, d') \<and> view d' = Head as ls"
    and "view d = Finished \<Longrightarrow> \<exists>d'. d_Next D d = (False, d')"
    and "view d = Head as ls \<Longrightarrow> d_Nesting D d = 0"
    and "view d = Head as ls \<Longrightarrow> \<exists>d'. d_RemainingArgs D d = (as, d') \<and> view d' = Head [] ls"
    and "view d = Head [] ls \<Longrightarrow> moves view (d_NextBlock D 0 d) (enter ls)"
    and "view d = Head (a # as) ls \<Longrightarrow> \<exists>d'. d_NextBlock D 0 d = (False, d')"
  using assms by (simp_all add: presents_def moves_pair prod_eq_iff)

lemma presents_inside:
  assumes "presents D view"
  shows "view d = Inside v as ls \<Longrightarrow> d_Val D d = v"
    and "view d = Inside v as ls \<Longrightarrow> moves view (d_NextBlock D 0 d) (enter (as # ls))"
    and "view d = Inside v [] ls \<Longrightarrow> \<exists>d'. d_NextArg D d = (False, d')"
    and "view d = Inside v (a # as) ls \<Longrightarrow> \<exists>d'. d_NextArg D d = (True, d') \<and> view d' = Inside a as ls"
    and "view d = Inside v as ls \<Longrightarrow> length as \<noteq> 1 \<Longrightarrow> \<exists>y d'. d_AllArgs D x d = (False, y, d')"
    and "view d = Inside v [a] ls \<Longrightarrow> \<exists>d'. d_AllArgs D x d = (True, a, d') \<and> view d' = Inside a [] ls"
  using assms by (simp_all add: presents_def moves_pair prod_eq_iff)

text \<open>
  A reader of one option gets its name and the words after it, and says how many of those it
  used; words that are left over are read as an option of their own.
\<close>

type_synonym 'h option_reader = "string \<Rightarrow> string list \<Rightarrow> 'h \<Rightarrow> cf_error option \<times> 'h \<times> nat"

function block_spec :: "'h option_reader \<Rightarrow> string list list \<Rightarrow> 'h \<Rightarrow> cf_error option \<times> 'h" where
  "block_spec line [] h = (None, h)"
| "block_spec line ([] # ls) h = block_spec line ls h"
| "block_spec line ((v # as) # ls) h =
     (case line v as h of
        (e, h1, k) \<Rightarrow> if e = None then block_spec line (drop k as # ls) h1 else (e, h1))"
  by pat_completeness auto

termination
  by (relation "measure (\<lambda>(line, ls, h). sum_list (map (\<lambda>l. Suc (length l)) ls))") auto

text \<open>A parser's outcome is as specified: the same error, or the same configuration and the end of the directive.\<close>

definition parsed_as :: "('d \<Rightarrow> cursor) \<Rightarrow> cursor \<Rightarrow> ('h, 'd) parsed \<Rightarrow> cf_error option \<times> 'h \<Rightarrow> bool" where
  "parsed_as view c r sp \<longleftrightarrow> fst r = fst sp \<and> (fst r = None \<longrightarrow> fst (snd r) = snd sp \<and> view (snd (snd r)) = c)"

text \<open>The body of a block loop reads an option as \<open>line\<close> says.\<close>

definition option_agrees :: "('d \<Rightarrow> cursor) \<Rightarrow> string list \<Rightarrow> string list list \<Rightarrow> ('h, 'd) parsed \<Rightarrow> cf_error option \<times> 'h \<times> nat \<Rightarrow> bool" where
  "option_agrees view as ls r l \<longleftrightarrow> fst r = fst l \<and>
     (fst l = None \<longrightarrow> fst (snd r) = fst (snd l) \<and> (\<exists>u. view (snd (snd r)) = Inside u (drop (snd (snd l)) as) ls))"

definition reads_option ::
  "('d \<Rightarrow> cursor) \<Rightarrow> 'h option_reader \<Rightarrow> ('d \<Rightarrow> 'h \<Rightarrow> ('h, 'd) parsed) \<Rightarrow> bool" where
  "reads_option view line body \<longleftrightarrow>
     (\<forall>d v as ls h. view d = Inside v as ls \<longrightarrow> option_agrees view as ls (body d h) (line v as h))"

subsection \<open>Grammars\<close>

text \<open>
  The options of a directive as a table: a flag, an option with one word (further words are left),
  an option with one word and no more, or one with two words.
\<close>

datatype 'h option_kind =
    Flag "'h \<Rightarrow> 'h"
  | Word "string \<Rightarrow> cf_error + ('h \<Rightarrow> 'h)"
  | Sole "string \<Rightarrow> cf_error + ('h \<Rightarrow> 'h)"
  | Two "string \<Rightarrow> string \<Rightarrow> 'h \<Rightarrow> 'h"

definition apply_word :: "cf_error + ('h \<Rightarrow> 'h) \<Rightarrow> 'h \<Rightarrow> cf_error option \<times> 'h" where
  "apply_word p h = (case p of Inl e \<Rightarrow> (Some e, h) | Inr g \<Rightarrow> (None, g h))"

fun read_kind :: "'h option_kind \<Rightarrow> string list \<Rightarrow> 'h \<Rightarrow> cf_error option \<times> 'h \<times> nat" where
  "read_kind (Flag g) as h = (None, g h, 0)"
| "read_kind (Word p) as h =
     (case as of [] \<Rightarrow> (Some ArgErr, h, 0) | a # _ \<Rightarrow> (case apply_word (p a) h of (e, h1) \<Rightarrow> (e, h1, 1)))"
| "read_kind (Sole p) as h =
     (case as of [a] \<Rightarrow> (case apply_word (p a) h of (e, h1) \<Rightarrow> (e, h1, 1)) | _ \<Rightarrow> (Some ArgErr, h, 0))"
| "read_kind (Two g) as h = (case as of a # b # _ \<Rightarrow> (None, g a b h, 2) | _ \<Rightarrow> (Some ArgErr, h, 0))"

definition read_table :: "string \<Rightarrow> (string \<times> 'h option_kind) list \<Rightarrow> 'h option_reader" where
  "read_table unknown table v as h =
     (case map_of table v of None \<Rightarrow> (Some (Errf unknown [v]), h, 0) | Some k \<Rightarrow> read_kind k as h)"

lemma option_agrees_flag:
  "view d = Inside v as ls \<Longrightarrow> r = (None, g h, d) \<Longrightarrow> option_agrees view as ls r (read_kind (Flag g) as h)"
  by (simp add: option_agrees_def)

lemma option_agrees_error: "option_agrees view as ls (Some e, h1, d) (Some e, h2, n)"
  by (simp add: option_agrees_def)

lemma option_agrees_word:
  assumes "presents D view" and "view d = Inside v as ls"
    and "\<And>a d1. view d1 = Inside a (tl as) ls \<Longrightarrow> k a d1 = (case apply_word (p a) h of (e, h1) \<Rightarrow> (e, h1, d1))"
  shows "option_agrees view as ls (with_arg D k d h) (read_kind (Word p) as h)"
proof (cases as)
  case Nil
  with presents_inside(3) [OF assms(1), of d v ls] assms(2) show ?thesis
    by (auto simp: with_arg_def option_agrees_error)
next
  case (Cons a as')
  then obtain d1 where d1: "d_NextArg D d = (True, d1)" "view d1 = Inside a as' ls" "d_Val D d1 = a"
    using presents_inside(4) [OF assms(1), of d v a as' ls] presents_inside(1) [OF assms(1)] assms(2) by blast
  with assms(3) [of d1 a] Cons show ?thesis
    by (auto simp: with_arg_def option_agrees_def split: prod.splits)
qed

lemma option_agrees_two:
  assumes "presents D view" and "view d = Inside v as ls"
    and "\<And>a b d2. k a b d2 = (None, g a b h, d2)"
  shows "option_agrees view as ls (with_arg D (\<lambda>a d1. with_arg D (k a) d1 h) d h) (read_kind (Two g) as h)"
proof (cases as)
  case Nil
  with presents_inside(3) [OF assms(1), of d v ls] assms(2) show ?thesis
    by (auto simp: with_arg_def option_agrees_error)
next
  case (Cons a as')
  then obtain d1 where d1: "d_NextArg D d = (True, d1)" "view d1 = Inside a as' ls" "d_Val D d1 = a"
    using presents_inside(4) [OF assms(1), of d v a as' ls] presents_inside(1) [OF assms(1)] assms(2) by blast
  show ?thesis
  proof (cases as')
    case Nil
    with presents_inside(3) [OF assms(1), of d1 a ls] d1 Cons show ?thesis
      by (auto simp: with_arg_def option_agrees_error)
  next
    case (Cons b as'')
    then obtain d2 where "d_NextArg D d1 = (True, d2)" "view d2 = Inside b as'' ls" "d_Val D d2 = b"
      using presents_inside(4) [OF assms(1), of d1 a b as'' ls] presents_inside(1) [OF assms(1)] d1(2) by blast
    with assms(3) d1 Cons \<open>as = a # as'\<close> show ?thesis by (auto simp: with_arg_def option_agrees_def)
  qed
qed

lemma option_agrees_sole:
  assumes "presents D view" and "view d = Inside v as ls"
    and "\<And>a d1. view d1 = Inside a [] ls \<Longrightarrow> k a d1 = (case apply_word (p a) h of (e, h1) \<Rightarrow> (e, h1, d1))"
  shows "option_agrees view as ls (with_all D old assigned k d) (read_kind (Sole p) as h)"
proof (cases "length as = 1")
  case True
  then obtain a where a: "as = [a]" by (auto simp: length_Suc_conv)
  then obtain d1 where "d_AllArgs D old d = (True, a, d1)" "view d1 = Inside a [] ls"
    using presents_inside(6) [OF assms(1)] assms(2) by blast
  with assms(3) [of d1 a] a show ?thesis by (auto simp: with_all_def option_agrees_def split: prod.splits)
next
  case False
  then have "read_kind (Sole p) as h = (Some ArgErr, h, 0)" by (auto split: list.splits)
  with presents_inside(5) [OF assms(1,2) False, of old] show ?thesis
    by (auto simp: with_all_def option_agrees_error)
qed

text \<open>A switch implements a table if it does so for each option, and refuses every other word.\<close>

lemma reads_tableI:
  assumes "\<And>d v as ls h k. view d = Inside v as ls \<Longrightarrow> (v, k) \<in> set table \<Longrightarrow> option_agrees view as ls (body d h) (read_kind k as h)"
    and "\<And>d v as ls h. view d = Inside v as ls \<Longrightarrow> v \<notin> fst ` set table \<Longrightarrow> \<exists>h1 d1. body d h = (Some (Errf unknown [v]), h1, d1)"
  shows "reads_option view (read_table unknown table) body"
  unfolding reads_option_def
proof (intro allI impI)
  fix d v as ls h assume d: "view d = Inside v as ls"
  show "option_agrees view as ls (body d h) (read_table unknown table v as h)"
  proof (cases "map_of table v")
    case None
    then obtain h1 d1 where "body d h = (Some (Errf unknown [v]), h1, d1)"
      using assms(2) [OF d, of h] by (auto simp: map_of_eq_None_iff)
    with None show ?thesis by (simp add: read_table_def option_agrees_error)
  next
    case (Some k)
    with assms(1) [OF d map_of_SomeD [OF Some], of h] show ?thesis by (simp add: read_table_def)
  qed
qed

subsection \<open>Contracts of option readers\<close>

text \<open>
  What the switch of a block owes its loop: it never moves the stream back (so the loop ends) and
  it reads options as its specification says (so the loop computes \<open>block_spec\<close>).
\<close>

locale directive_block =
  fixes body :: "'d dispenser \<Rightarrow> 'd \<Rightarrow> 'h \<Rightarrow> ('h, 'd) parsed"
  assumes keeps: "advances D left \<Longrightarrow> no_rewind left d (body D d h)"
begin

lemma block_returns:
  assumes "advances D left"
  shows "\<exists>r. block_loop D n (body D) d h = Some r \<and> no_rewind left d r"
  by (rule block_loop_returns [OF assms keeps [OF assms]])

lemma arg_block_returns:
  assumes "advances D left"
  shows "\<exists>r. arg_then_block D set_path (body D) d h = Some r \<and> no_rewind left d r"
proof -
  obtain as d1 where a: "d_RemainingArgs D d = (as, d1)" by force
  let ?h = "case as of [] \<Rightarrow> h | a # _ \<Rightarrow> set_path a h"
  obtain r where "block_loop D 0 (body D) d1 ?h = Some r" "no_rewind left d1 r"
    using block_returns [OF assms, of 0 d1 ?h] by blast
  with a advances_RemainingArgs [OF assms a] show ?thesis by (auto simp: arg_then_block_def no_rewind_def)
qed

end

lemma block_loop_parses:
  assumes "presents D view" and "reads_option view line body"
    and "moves view (d_NextBlock D 0 d) (enter ls)"
  shows "\<exists>r. block_loop D 0 body d h = Some r \<and> parsed_as view Finished r (block_spec line ls h)"
  using assms(2,3)
proof (induction line ls h arbitrary: d rule: block_spec.induct)
  case (1 line h)
  then show ?case
    by (subst block_loop.simps) (auto simp: moves_def parsed_as_def split: prod.splits)
next
  case (2 line ls h)
  then show ?case by simp
next
  case (3 line v as ls h)
  obtain d1 where n: "d_NextBlock D 0 d = (True, d1)" "view d1 = Inside v as ls"
    using "3.prems"(2) by (cases "d_NextBlock D 0 d") (simp add: moves_def)
  obtain e h1 k where l: "line v as h = (e, h1, k)" by (metis prod.exhaust)
  obtain e' h1' d2 where b: "body d1 h = (e', h1', d2)" by (metis prod.exhaust)
  note opt = "3.prems"(1) [unfolded reads_option_def option_agrees_def, rule_format, OF n(2), of h]
  show ?case
  proof (cases e)
    case None
    with opt l b obtain u where u: "e' = None" "h1' = h1" "view d2 = Inside u (drop k as) ls" by auto
    then have "moves view (d_NextBlock D 0 d2) (enter (drop k as # ls))"
      using presents_inside(2) [OF assms(1)] by blast
    with "3.IH" [OF l [symmetric] refl None "3.prems"(1)] obtain r where
      "block_loop D 0 body d2 h1 = Some r" "parsed_as view Finished r (block_spec line (drop k as # ls) h1)"
      by blast
    with n b l u None show ?thesis by (subst block_loop.simps) simp
  next
    case (Some x)
    with n opt b l show ?thesis by (subst block_loop.simps) (auto simp: parsed_as_def)
  qed
qed

locale directive_reader = directive_block body for body :: "'d dispenser \<Rightarrow> 'd \<Rightarrow> 'h \<Rightarrow> ('h, 'd) parsed" +
  fixes line :: "'h option_reader"
  assumes reads: "presents D view \<Longrightarrow> reads_option view line (body D)"
begin

text \<open>A block is read from its first line on, once the words before it are gone.\<close>

lemma block_parses:
  assumes "presents D view" and "view d = Head [] ls"
  shows "\<exists>r. block_loop D 0 (body D) d h = Some r \<and> parsed_as view Finished r (block_spec line ls h)"
  by (rule block_loop_parses [OF assms(1) reads [OF assms(1)] presents_outside(5) [OF assms]])

lemma arg_block_parses:
  assumes "presents D view" and "view d = Head as ls"
  shows "\<exists>r. arg_then_block D set_path (body D) d h = Some r \<and>
    parsed_as view Finished r (block_spec line ls (case as of [] \<Rightarrow> h | a # _ \<Rightarrow> set_path a h))"
proof -
  obtain d1 where "d_RemainingArgs D d = (as, d1)" "view d1 = Head [] ls"
    using presents_outside(4) [OF assms] by blast
  with block_parses [OF assms(1)] show ?thesis by (simp add: arg_then_block_def)
qed

end

text \<open>A parser returns what the specification says: the same error, or no error and the same configuration.\<close>

definition yields :: "('h, 'd) parsed option \<Rightarrow> cf_error option \<times> 'h \<Rightarrow> bool" where
  "yields out sp \<longleftrightarrow> (\<exists>r. out = Some r \<and> fst r = fst sp \<and> (fst r = None \<longrightarrow> fst (snd r) = snd sp))"

text \<open>The outer loop runs once over a directive.\<close>

lemma next_loop_once:
  assumes "presents D view" and "view d = Start as ls"
    and "\<And>d1. view d1 = Head as ls \<Longrightarrow> \<exists>r. body d1 h = Some r \<and> parsed_as view Finished r sp"
  shows "yields (next_loop D body d h) sp"
proof -
  obtain d1 where n: "d_Next D d = (True, d1)" "view d1 = Head as ls"
    using presents_outside(1) [OF assms(1,2)] by blast
  obtain e h1 d2 where r: "body d1 h = Some (e, h1, d2)" "parsed_as view Finished (e, h1, d2) sp"
    using assms(3) [OF n(2)] by auto
  show ?thesis
  proof (cases e)
    case None
    then obtain d3 where "d_Next D d2 = (False, d3)"
      using r(2) presents_outside(2) [OF assms(1), of d2] by (auto simp: parsed_as_def)
    then have "next_loop D body d2 h1 = Some (None, h1, d3)" by (simp add: next_loop.simps [of D body d2])
    with n r None show ?thesis by (auto simp: next_loop.simps [of D body d] parsed_as_def yields_def)
  next
    case (Some x)
    then have "next_loop D body d h = Some (e, h1, d2)" using n r(1) by (simp add: next_loop.simps [of D body d])
    with r(2) Some show ?thesis by (auto simp: parsed_as_def yields_def)
  qed
qed

subsection \<open>A stream over a given directive\<close>

fun cursor_AllArgs :: "string \<Rightarrow> cursor \<Rightarrow> bool \<times> string \<times> cursor" where
  "cursor_AllArgs x (Inside v [a] ls) = (True, a, Inside a [] ls)"
| "cursor_AllArgs x c = (False, x, c)"

definition cursor_disp :: "cursor dispenser" where
  "cursor_disp =
     \<lparr>d_Next = (\<lambda>c. case c of Start as ls \<Rightarrow> (True, Head as ls) | _ \<Rightarrow> (False, c)),
      d_NextArg = (\<lambda>c. case c of Inside v (a # as) ls \<Rightarrow> (True, Inside a as ls) | _ \<Rightarrow> (False, c)),
      d_NextBlock = (\<lambda>n c. case c of Head [] ls \<Rightarrow> enter ls | Inside v as ls \<Rightarrow> enter (as # ls) | _ \<Rightarrow> (False, c)),
      d_Nesting = (\<lambda>c. case c of Inside _ _ _ \<Rightarrow> 1 | _ \<Rightarrow> 0),
      d_Val = (\<lambda>c. case c of Inside v _ _ \<Rightarrow> v | _ \<Rightarrow> []),
      d_RemainingArgs = (\<lambda>c. case c of Head as ls \<Rightarrow> (as, Head [] ls) | _ \<Rightarrow> ([], c)),
      d_AllArgs = cursor_AllArgs\<rparr>"

fun ahead :: "cursor \<Rightarrow> nat" where
  "ahead (Start as ls) = length as + length (concat ls) + 2"
| "ahead (Head as ls) = length as + length (concat ls) + 1"
| "ahead (Inside v as ls) = length as + length (concat ls)"
| "ahead Finished = 0"
| "ahead Elsewhere = 0"

lemma cursor_AllArgs_ok [simp]: "fst (cursor_AllArgs x (Inside v as ls)) \<longleftrightarrow> length as = 1"
  by (cases "(x, Inside v as ls)" rule: cursor_AllArgs.cases) auto

lemma cursor_AllArgs_ahead: "ahead (snd (snd (cursor_AllArgs x c))) \<le> ahead c"
  by (cases "(x, c)" rule: cursor_AllArgs.cases) auto

lemma cursor_presents: "presents cursor_disp (\<lambda>c. c)"
  unfolding presents_def by (intro conjI allI impI) (auto simp: cursor_disp_def moves_def)

lemma ahead_enter: "ahead (snd (enter ls)) \<le> length (concat ls) \<and> (fst (enter ls) \<longrightarrow> ahead (snd (enter ls)) < length (concat ls))"
  by (induction ls rule: enter.induct) auto

lemma cursor_advances: "advances cursor_disp ahead"
  unfolding advances_def
proof (intro conjI allI)
  fix n c
  have "ahead (snd (d_NextBlock cursor_disp n c)) \<le> ahead c \<and>
      (fst (d_NextBlock cursor_disp n c) \<longrightarrow> ahead (snd (d_NextBlock cursor_disp n c)) < ahead c)"
  proof (cases c)
    case (Head as ls)
    with ahead_enter [of ls] show ?thesis by (cases as) (auto simp: cursor_disp_def)
  next
    case (Inside v as ls)
    with ahead_enter [of "as # ls"] show ?thesis by (simp add: cursor_disp_def)
  qed (simp_all add: cursor_disp_def)
  then show "ahead (snd (d_NextBlock cursor_disp n c)) \<le> ahead c"
    "fst (d_NextBlock cursor_disp n c) \<longrightarrow> ahead (snd (d_NextBlock cursor_disp n c)) < ahead c" by simp_all
qed (auto simp: cursor_disp_def cursor_AllArgs_ahead split: cursor.splits list.splits)

end
