(* ===== verification/Go_Net.thy ===== *)
theory Go_Net
  imports Prelude
begin

section \<open>Addresses: package net\<close>

text \<open>
  What the HTTP endpoints use of Go's \<^verbatim>\<open>net\<close> package to decide whether a request comes from
  the same machine: \<open>SplitHostPort\<close>, \<open>ParseIP\<close> (through \<^verbatim>\<open>netip.ParseAddr\<close>) and \<open>IsLoopback\<close>,
  with decimal printing of numbers. The endpoints' gate itself is \<open>request_is_loopback\<close>.
\<close>

subsection \<open>Decimal numbers\<close>

definition digit :: "nat \<Rightarrow> char" where
  "digit d = char_of (48 + d)"

fun dec :: "nat \<Rightarrow> string" where
  "dec n = (if n < 10 then [digit n] else dec (n div 10) @ [digit (n mod 10)])"

declare dec.simps [simp del]

definition is_digit :: "char \<Rightarrow> bool" where
  "is_digit c \<longleftrightarrow> 48 \<le> (of_char c :: nat) \<and> (of_char c :: nat) \<le> 57"

definition digit_val :: "char \<Rightarrow> nat" where
  "digit_val c = of_char c - 48"

lemma digit_simps [simp]:
  assumes "d < 10"
  shows "is_digit (digit d)" and "digit_val (digit d) = d"
  using assms by (simp_all add: is_digit_def digit_def digit_val_def)

lemma dec_digits: "c \<in> set (dec n) \<Longrightarrow> is_digit c"
proof (induction n rule: dec.induct)
  case (1 n)
  then show ?case by (subst (asm) dec.simps) (auto split: if_splits)
qed

lemma dec_not_Nil [simp]: "dec n \<noteq> []"
  by (subst dec.simps) simp

definition undec :: "string \<Rightarrow> nat" where
  "undec s = foldl (\<lambda>v c. 10 * v + digit_val c) 0 s"

lemma undec_dec [simp]: "undec (dec n) = n"
proof (induction n rule: dec.induct)
  case (1 n)
  then show ?case by (subst dec.simps) (simp add: undec_def)
qed

lemma dec_inject: "dec m = dec n \<longleftrightarrow> m = n"
  by (metis undec_dec)

subsection \<open>Splitting host and port\<close>

text \<open>The errors of \<open>SplitHostPort\<close> are not told apart by its callers: \<^const>\<open>None\<close>.\<close>

fun index_byte :: "char \<Rightarrow> string \<Rightarrow> nat option" where
  "index_byte c [] = None"
| "index_byte c (x # xs) = (if x = c then Some 0 else map_option Suc (index_byte c xs))"

fun last_index_byte :: "char \<Rightarrow> string \<Rightarrow> nat option" where
  "last_index_byte c [] = None"
| "last_index_byte c (x # xs) =
     (case last_index_byte c xs of
        Some i \<Rightarrow> Some (Suc i)
      | None \<Rightarrow> if x = c then Some 0 else None)"

definition SplitHostPort :: "string \<Rightarrow> (string \<times> string) option" where
  "SplitHostPort hostport =
     (case last_index_byte CHR '':'' hostport of
        None \<Rightarrow> None
      | Some i \<Rightarrow>
          (case (if hd hostport = CHR ''['' then
                   (case index_byte CHR '']'' hostport of
                      None \<Rightarrow> None
                    | Some ed \<Rightarrow> if ed + 1 = i then Some (take (ed - 1) (drop 1 hostport), 1, ed + 1) else None)
                 else if CHR '':'' \<in> set (take i hostport) then None
                 else Some (take i hostport, 0, 0)) of
             None \<Rightarrow> None
           | Some (host, j, k) \<Rightarrow>
               if CHR ''['' \<in> set (drop j hostport) then None
               else if CHR '']'' \<in> set (drop k hostport) then None
               else Some (host, drop (i + 1) hostport)))"

subsection \<open>Parsing addresses\<close>

text \<open>\<^verbatim>\<open>parseIPv4Fields\<close>: the loop over the characters; \<open>prev\<close> is the one before.\<close>

fun ip4_loop :: "char option \<Rightarrow> nat \<Rightarrow> nat \<Rightarrow> nat list \<Rightarrow> string \<Rightarrow> nat list option" where
  "ip4_loop prev val digLen fields [] = (if length fields < 3 then None else Some (fields @ [val]))"
| "ip4_loop prev val digLen fields (c # cs) =
     (if is_digit c then
        (if digLen = 1 \<and> val = 0 then None
         else let v = val * 10 + digit_val c in
           if v > 255 then None else ip4_loop (Some c) v (digLen + 1) fields cs)
      else if c = CHR ''.'' then
        (if prev = None \<or> cs = [] \<or> prev = Some CHR ''.'' then None
         else if length fields = 3 then None
         else ip4_loop (Some c) 0 0 (fields @ [val]) cs)
      else None)"

definition parseIPv4Fields :: "string \<Rightarrow> nat list option" where
  "parseIPv4Fields s = ip4_loop None 0 0 [] s"

definition hex_val :: "char \<Rightarrow> nat option" where
  "hex_val c =
     (let n = (of_char c :: nat) in
      if 48 \<le> n \<and> n \<le> 57 then Some (n - 48)
      else if 97 \<le> n \<and> n \<le> 102 then Some (n - 97 + 10)
      else if 65 \<le> n \<and> n \<le> 70 then Some (n - 65 + 10)
      else None)"

definition hex_run :: "string \<Rightarrow> string" where
  "hex_run s = takeWhile (\<lambda>c. hex_val c \<noteq> None) s"

definition hex_num :: "string \<Rightarrow> nat" where
  "hex_num s = foldl (\<lambda>acc c. acc * 16 + the (hex_val c)) 0 s"

text \<open>
  The main loop of \<^verbatim>\<open>parseIPv6\<close>: the rest of the text, the bytes so far and the place of the
  ellipsis. More than four digits in a group fail inside Go's digit loop, none after it.
\<close>

function ip6_loop :: "string \<Rightarrow> nat list \<Rightarrow> nat option \<Rightarrow> (string \<times> nat list \<times> nat option) option" where
  "ip6_loop s ip ellipsis =
     (if length ip \<ge> 16 then Some (s, ip, ellipsis)
      else
        let off = length (hex_run s); rest = drop off s in
        if off = 0 \<or> off > 4 then None
        else if rest \<noteq> [] \<and> hd rest = CHR ''.'' then
          (if ellipsis = None \<and> length ip \<noteq> 12 then None
           else if length ip + 4 > 16 then None
           else map_option (\<lambda>fields. ([], ip @ fields, ellipsis)) (parseIPv4Fields s))
        else
          let acc = hex_num (hex_run s); ip' = ip @ [acc div 256, acc mod 256] in
          if rest = [] then Some ([], ip', ellipsis)
          else if hd rest \<noteq> CHR '':'' \<or> length rest = 1 then None
          else if hd (tl rest) = CHR '':'' then
            (if ellipsis \<noteq> None then None
             else if length rest = 2 then Some ([], ip', Some (length ip'))
             else ip6_loop (drop (off + 2) s) ip' (Some (length ip')))
          else ip6_loop (drop (off + 1) s) ip' ellipsis)"
  by pat_completeness auto
termination
  by (relation "measure (\<lambda>(s, _, _). length s)") (auto simp: hex_run_def)

declare ip6_loop.simps [simp del]

definition ip6_finish :: "string \<times> nat list \<times> nat option \<Rightarrow> nat list option" where
  "ip6_finish = (\<lambda>(s, ip, ellipsis).
     if s \<noteq> [] then None
     else if length ip < 16 then
       (case ellipsis of
          None \<Rightarrow> None
        | Some e \<Rightarrow> Some (take e ip @ replicate (16 - length ip) 0 @ drop e ip))
     else if ellipsis \<noteq> None then None
     else Some ip)"

text \<open>An address with a zone is no \<^verbatim>\<open>net.IP\<close>, so the zone itself is not modelled.\<close>

definition parseIPv6 :: "string \<Rightarrow> nat list option" where
  "parseIPv6 s =
     (if CHR ''%'' \<in> set s then None
      else if length s \<ge> 2 \<and> hd s = CHR '':'' \<and> hd (tl s) = CHR '':'' then
        (if length s = 2 then Some (replicate 16 0)
         else Option.bind (ip6_loop (drop 2 s) [] (Some 0)) ip6_finish)
      else Option.bind (ip6_loop s [] None) ip6_finish)"

fun ParseAddr :: "string \<Rightarrow> string \<Rightarrow> nat list option" where
  "ParseAddr s [] = None"
| "ParseAddr s (c # cs) =
     (if c = CHR ''.'' then map_option (\<lambda>f. replicate 10 0 @ [255, 255] @ f) (parseIPv4Fields s)
      else if c = CHR '':'' then parseIPv6 s
      else if c = CHR ''%'' then None
      else ParseAddr s cs)"

definition ParseIP :: "string \<Rightarrow> nat list option" where
  "ParseIP s = ParseAddr s s"

definition IsLoopback :: "nat list \<Rightarrow> bool" where
  "IsLoopback ip =
     (if take 10 ip = replicate 10 0 \<and> ip ! 10 = 255 \<and> ip ! 11 = 255 then ip ! 12 = 127
      else ip = replicate 15 0 @ [1])"

subsection \<open>The gate\<close>

text \<open>
  The code the endpoints share: take the host part of the peer's address, or all of it if it
  has no port, and ask whether it is a loopback address.
\<close>

definition request_is_loopback :: "string \<Rightarrow> bool" where
  "request_is_loopback remoteAddr =
     (let host = (case SplitHostPort remoteAddr of None \<Rightarrow> remoteAddr | Some (h, _) \<Rightarrow> h)
      in case ParseIP host of None \<Rightarrow> False | Some ip \<Rightarrow> IsLoopback ip)"

subsection \<open>Which peers pass\<close>

lemma dec_small:
  "n < 10 \<Longrightarrow> dec n = [digit n]"
  "10 \<le> n \<Longrightarrow> n < 100 \<Longrightarrow> dec n = [digit (n div 10), digit (n mod 10)]"
  by (simp_all add: dec.simps [of n] dec.simps [of "n div 10"])

lemma dec_three:
  assumes "100 \<le> n" and "n < 1000"
  shows "dec n = [digit (n div 100), digit (n div 10 mod 10), digit (n mod 10)]"
proof -
  have "10 \<le> n div 10" "n div 10 < 100" using assms by linarith+
  then have "dec (n div 10) = [digit (n div 10 div 10), digit (n div 10 mod 10)]" by (rule dec_small(2))
  moreover have "n div 10 div 10 = n div 100" by (simp add: div_mult2_eq [symmetric])
  ultimately show ?thesis using assms by (simp add: dec.simps [of n])
qed

lemma digit_not_dot [simp]: "is_digit c \<Longrightarrow> c \<noteq> CHR ''.''"
  by (auto simp: is_digit_def)

lemma ip4_octet:
  assumes "n < 256"
  shows "\<exists>prev k. is_digit prev \<and> ip4_loop p 0 0 fs (dec n @ cs) = ip4_loop (Some prev) n k fs cs"
proof -
  consider "n < 10" | "10 \<le> n" "n < 100" | "100 \<le> n" "n < 1000" using assms by linarith
  then show ?thesis
  proof cases
    case 1
    then have "ip4_loop p 0 0 fs (dec n @ cs) = ip4_loop (Some (digit n)) n 1 fs cs" by (simp add: dec_small Let_def)
    with 1 digit_simps(1) show ?thesis by blast
  next
    case 2
    then have "0 < n div 10" "n div 10 < 10" by (auto simp: div_greater_zero_iff)
    with 2 have "ip4_loop p 0 0 fs (dec n @ cs) = ip4_loop (Some (digit (n mod 10))) n (Suc (Suc 0)) fs cs"
      by (simp add: dec_small Let_def)
    then show ?thesis using digit_simps(1) [of "n mod 10"] by force
  next
    case 3
    then have "0 < n div 100" "n div 100 < 10" by (auto simp: div_greater_zero_iff)
    moreover have "n div 100 = n div 10 div 10" by (simp add: div_mult2_eq [symmetric])
    then have "n div 100 * 10 + n div 10 mod 10 = n div 10" by simp
    moreover from this have "(n div 100 * 10 + n div 10 mod 10) * 10 + n mod 10 = n" by simp
    moreover have "n div 10 \<le> 255" using assms by linarith
    ultimately have "ip4_loop p 0 0 fs (dec n @ cs) = ip4_loop (Some (digit (n mod 10))) n (Suc (Suc (Suc 0))) fs cs"
      using 3 assms by (simp add: dec_three Let_def)
    then show ?thesis using digit_simps(1) [of "n mod 10"] by force
  qed
qed

lemma ip4_dot:
  assumes "n < 256" and "length fs < 3" and "cs \<noteq> []"
  shows "\<exists>p'. ip4_loop p 0 0 fs (dec n @ CHR ''.'' # cs) = ip4_loop p' 0 0 (fs @ [n]) cs"
proof -
  obtain prev k where "is_digit prev"
    "ip4_loop p 0 0 fs (dec n @ CHR ''.'' # cs) = ip4_loop (Some prev) n k fs (CHR ''.'' # cs)"
    using ip4_octet [OF assms(1)] by blast
  with assms show ?thesis by (auto simp: is_digit_def)
qed

definition ip4_text :: "nat \<Rightarrow> nat \<Rightarrow> nat \<Rightarrow> nat \<Rightarrow> string" where
  "ip4_text a b c d = dec a @ CHR ''.'' # dec b @ CHR ''.'' # dec c @ CHR ''.'' # dec d"

lemma parse_ip4_text:
  assumes "a < 256" "b < 256" "c < 256" "d < 256"
  shows "parseIPv4Fields (ip4_text a b c d) = Some [a, b, c, d]"
proof -
  let ?cd = "dec c @ CHR ''.'' # dec d"
  obtain p1 where 1: "ip4_loop None 0 0 [] (ip4_text a b c d) = ip4_loop p1 0 0 [a] (dec b @ CHR ''.'' # ?cd)"
    using ip4_dot [OF assms(1), of "[]" "dec b @ CHR ''.'' # ?cd" None, simplified] unfolding ip4_text_def by blast
  obtain p2 where 2: "ip4_loop p1 0 0 [a] (dec b @ CHR ''.'' # ?cd) = ip4_loop p2 0 0 [a, b] ?cd"
    using ip4_dot [OF assms(2), of "[a]" ?cd p1, simplified] by blast
  obtain p3 where 3: "ip4_loop p2 0 0 [a, b] ?cd = ip4_loop p3 0 0 [a, b, c] (dec d)"
    using ip4_dot [OF assms(3), of "[a, b]" "dec d" p2, simplified] by blast
  obtain p4 k where "ip4_loop p3 0 0 [a, b, c] (dec d @ []) = ip4_loop (Some p4) d k [a, b, c] []"
    using ip4_octet [OF assms(4)] by blast
  then show ?thesis by (simp add: parseIPv4Fields_def 1 2 3)
qed

lemma ParseAddr_digits: "(\<And>c. c \<in> set xs \<Longrightarrow> is_digit c) \<Longrightarrow> ParseAddr s (xs @ ys) = ParseAddr s ys"
proof (induction xs)
  case (Cons c xs)
  then have "is_digit c" "ParseAddr s (xs @ ys) = ParseAddr s ys" by simp_all
  moreover from \<open>is_digit c\<close> have "c \<noteq> CHR ''.''" "c \<noteq> CHR '':''" "c \<noteq> CHR ''%''" by (auto simp: is_digit_def)
  ultimately show ?case by simp
qed simp

lemma ParseIP_ip4:
  assumes "a < 256" "b < 256" "c < 256" "d < 256"
  shows "ParseIP (ip4_text a b c d) = Some (replicate 10 0 @ [255, 255, a, b, c, d])"
proof -
  have "ParseIP (ip4_text a b c d) = ParseAddr (ip4_text a b c d) (CHR ''.'' # dec b @ CHR ''.'' # dec c @ CHR ''.'' # dec d)"
    unfolding ParseIP_def by (subst (2) ip4_text_def) (rule ParseAddr_digits [OF dec_digits])
  with parse_ip4_text [OF assms] show ?thesis by simp
qed

lemma last_index_byte_append: "c \<notin> set ys \<Longrightarrow> last_index_byte c (xs @ c # ys) = Some (length xs)"
proof (induction xs)
  case Nil
  have "last_index_byte c ys = None" using Nil by (induction ys) auto
  then show ?case by simp
qed simp

definition plain :: "string \<Rightarrow> bool" where
  "plain s \<longleftrightarrow> CHR '':'' \<notin> set s \<and> CHR ''['' \<notin> set s \<and> CHR '']'' \<notin> set s"

lemma SplitHostPort_plain:
  assumes "plain host" and "plain port"
  shows "SplitHostPort (host @ CHR '':'' # port) = Some (host, port)"
proof -
  have "hd (host @ CHR '':'' # port) \<noteq> CHR ''[''" using assms by (cases host) (auto simp: plain_def)
  then show ?thesis
    using assms by (simp add: SplitHostPort_def plain_def last_index_byte_append)
qed

lemma plain_dec: "plain (dec n)"
  using dec_digits [of "CHR '':''" n] dec_digits [of "CHR ''[''" n] dec_digits [of "CHR '']''" n]
  by (auto simp: plain_def is_digit_def)

lemma plain_ip4_text: "plain (ip4_text a b c d)"
  using plain_dec by (auto simp: ip4_text_def plain_def)

lemma request_from_ip4:
  assumes "a < 256" "b < 256" "c < 256" "d < 256"
  shows "request_is_loopback (ip4_text a b c d @ CHR '':'' # dec port) \<longleftrightarrow> a = 127"
proof -
  have "SplitHostPort (ip4_text a b c d @ CHR '':'' # dec port) = Some (ip4_text a b c d, dec port)"
    by (intro SplitHostPort_plain plain_dec plain_ip4_text)
  with ParseIP_ip4 [OF assms] show ?thesis
    by (simp add: request_is_loopback_def IsLoopback_def numeral_eq_Suc)
qed

text \<open>One peer on another machine and one on this, for concrete requests.\<close>

definition remote_peer :: string where
  "remote_peer = ip4_text 10 0 0 1 @ CHR '':'' # dec 80"

definition local_peer :: string where
  "local_peer = ip4_text 127 0 0 1 @ CHR '':'' # dec 80"

lemma sample_peers [simp]: "\<not> request_is_loopback remote_peer" "request_is_loopback local_peer"
  using request_from_ip4 [of 10 0 0 1 80] request_from_ip4 [of 127 0 0 1 80]
  by (simp_all add: remote_peer_def local_peer_def)

text \<open>
  C37. The loopback gate on IPv4 peers: a request from \<open>a.b.c.d:port\<close> passes exactly when the
  address is in 127.0.0.0/8.
\<close>

theorem loopback_gate_ipv4:
  assumes "a < 256" "b < 256" "c < 256" "d < 256"
  shows "request_is_loopback (ip4_text a b c d @ CHR '':'' # dec port) \<longleftrightarrow> a = 127"
  using assms by (rule request_from_ip4)

theorem loopback_gate_ipv4_witness:
  "request_is_loopback (ip4_text 127 3 0 1 @ CHR '':'' # dec 8080) \<and>
   \<not> request_is_loopback (ip4_text 10 0 0 1 @ CHR '':'' # dec 8080)"
  using loopback_gate_ipv4 [of 127 3 0 1 8080] loopback_gate_ipv4 [of 10 0 0 1 8080] by simp

text \<open>
  The loopback gate on other peers: the IPv6 loopback address passes, with and without the
  brackets of a port; a peer that is not an IP address at all (a host name, the empty or
  \<open>@\<close> address of a Unix socket) does not, and neither does an address with a zone.
\<close>

lemma loopback_gate_other:
  "request_is_loopback (''[::1]:'' @ dec port) \<and> request_is_loopback ''::1'' \<and>
   (CHR ''.'' \<notin> set nm \<and> plain nm \<longrightarrow> \<not> request_is_loopback nm \<and> \<not> request_is_loopback (nm @ CHR '':'' # dec port)) \<and>
   (CHR ''%'' \<in> set h \<longrightarrow> ParseIP h = None)"
proof (intro conjI impI)
  have ip: "ParseIP ''::1'' = Some (replicate 15 0 @ [1])"
    by code_simp
  have "SplitHostPort (''[::1]:'' @ dec port) = Some (''::1'', dec port)"
    using last_index_byte_append [of "CHR '':''" "dec port" "''[::1]''"] plain_dec [of port]
    by (simp add: SplitHostPort_def plain_def)
  with ip show "request_is_loopback (''[::1]:'' @ dec port)"
    by (simp add: request_is_loopback_def IsLoopback_def numeral_eq_Suc)
  have "SplitHostPort ''::1'' = None" by (simp add: SplitHostPort_def)
  with ip show "request_is_loopback ''::1''"
    by (simp add: request_is_loopback_def IsLoopback_def numeral_eq_Suc)
next
  assume nm: "CHR ''.'' \<notin> set nm \<and> plain nm"
  have "ParseAddr s xs = None" if "CHR ''.'' \<notin> set xs \<and> CHR '':'' \<notin> set xs" for s xs
    using that by (induction xs) auto
  then have p: "ParseIP nm = None" using nm by (simp add: ParseIP_def plain_def)
  have "last_index_byte CHR '':'' xs = None" if "CHR '':'' \<notin> set xs" for xs using that by (induction xs) auto
  then have "SplitHostPort nm = None" using nm by (simp add: SplitHostPort_def plain_def)
  with p show "\<not> request_is_loopback nm" by (simp add: request_is_loopback_def)
  have "SplitHostPort (nm @ CHR '':'' # dec port) = Some (nm, dec port)"
    using nm plain_dec by (intro SplitHostPort_plain) simp_all
  with p show "\<not> request_is_loopback (nm @ CHR '':'' # dec port)" by (simp add: request_is_loopback_def)
next
  assume h: "CHR ''%'' \<in> set h"
  have "ip4_loop p v k fs xs = None" if "CHR ''%'' \<in> set xs" for p v k fs xs
    using that by (induction p v k fs xs rule: ip4_loop.induct) (auto simp: is_digit_def Let_def)
  then have "parseIPv4Fields h = None" "parseIPv6 h = None" using h by (simp_all add: parseIPv4Fields_def parseIPv6_def)
  then have "ParseAddr h xs = None" for xs by (induction xs) auto
  then show "ParseIP h = None" by (simp add: ParseIP_def)
qed

lemma loopback_gate_other_witness:
  "request_is_loopback (''[::1]:'' @ dec 80) \<and> \<not> request_is_loopback ''localhost'' \<and> ParseIP ''fe80::1%eth0'' = None"
  using loopback_gate_other [of 80 "''localhost''" "''fe80::1%eth0''"] by (simp add: plain_def)

end
