(* ===== verification/Health.thy ===== *)
theory Health
  imports Go_Errors Go_Context Go_Net
begin

section \<open>Health checks\<close>

text \<open>
  Model of \<^verbatim>\<open>pkg/observability/health/health.go\<close>: the status a check returns, the checks of one
  bucket (\<open>GCSHealthChecker\<close>) and of several (\<open>CompositeHealthChecker\<close>). The storage client's
  calls and the formatting of times and errors are parameters over a world of any type. The
  \<^verbatim>\<open>HealthChecker\<close> interface is a record of its two methods; its contract is the locale
  \<open>health_checker\<close>, interpreted for both implementations.
\<close>

record HealthStatus =
  hs_Status :: string
  hs_Message :: string
  hs_Timestamp :: int
  hs_Details :: "(string, string) gomap"
  hs_Error :: string

abbreviation healthy :: "HealthStatus \<Rightarrow> bool" where
  "healthy s \<equiv> hs_Status s = ''healthy''"

text \<open>What is used of packages \<^verbatim>\<open>time\<close> and \<^verbatim>\<open>fmt\<close>.\<close>

record 'w sys =
  sys_Now :: "'w \<Rightarrow> int"
  sys_RFC3339 :: "int \<Rightarrow> string"
  sys_DurationText :: "duration \<Rightarrow> string"
  sys_ErrorText :: "gerror \<Rightarrow> string"

text \<open>What is used of a \<^verbatim>\<open>*storage.Client\<close>, by bucket name.\<close>

record 'w storage_Client =
  cl_BucketAttrs :: "string \<Rightarrow> gctx \<Rightarrow> 'w \<Rightarrow> gerror option \<times> 'w"
  cl_FirstObject :: "string \<Rightarrow> gctx \<Rightarrow> string \<Rightarrow> 'w \<Rightarrow> gerror option \<times> 'w"
  cl_TestPermissions :: "string \<Rightarrow> gctx \<Rightarrow> string list \<Rightarrow> 'w \<Rightarrow> (gerror + string list) \<times> 'w"

record HealthConfig =
  cfg_Timeout :: duration
  cfg_RetryAttempts :: int
  cfg_RetryDelay :: duration
  cfg_CheckPermissions :: bool
  cfg_CheckConnectivity :: bool

record 'w GCSHealthChecker =
  gh_client :: "'w storage_Client option"
  gh_bucket :: string
  gh_config :: HealthConfig

abbreviation sec :: duration where
  "sec \<equiv> 1000000000"

subsection \<open>One bucket\<close>

definition NewGCSHealthChecker :: "'w storage_Client option \<Rightarrow> string \<Rightarrow> HealthConfig option \<Rightarrow> 'w GCSHealthChecker" where
  "NewGCSHealthChecker client bucket config =
     \<lparr>gh_client = client, gh_bucket = bucket,
      gh_config = (case config of
         None \<Rightarrow> \<lparr>cfg_Timeout = 30 * sec, cfg_RetryAttempts = 3, cfg_RetryDelay = 5 * sec,
                  cfg_CheckPermissions = True, cfg_CheckConnectivity = True\<rparr>
       | Some c \<Rightarrow> c)\<rparr>"

text \<open>The answer of every method when there is no client.\<close>

definition no_client_status :: "string \<Rightarrow> int \<Rightarrow> HealthStatus" where
  "no_client_status bucket now =
     \<lparr>hs_Status = ''unhealthy'', hs_Message = ''GCS client is not configured'', hs_Timestamp = now,
      hs_Details = [(''bucket'', bucket), (''error_type'', ''no_client'')], hs_Error = ''nil GCS client''\<rparr>"

definition gcs_CheckStorage :: "'w sys \<Rightarrow> 'w GCSHealthChecker \<Rightarrow> gctx \<Rightarrow> 'w \<Rightarrow> HealthStatus \<times> 'w" where
  "gcs_CheckStorage sys h ctx w =
     (case gh_client h of
        None \<Rightarrow> (no_client_status (gh_bucket h) (sys_Now sys w), w)
      | Some cl \<Rightarrow>
          (case cl_FirstObject cl (gh_bucket h) ctx ''/'' w of
             (err, w1) \<Rightarrow>
               ((if err \<noteq> None \<and> \<not> errors_Is_opt err IteratorDone then
                   \<lparr>hs_Status = ''unhealthy'', hs_Message = ''Storage access failed'', hs_Timestamp = sys_Now sys w1,
                    hs_Details = [(''bucket'', gh_bucket h), (''error_type'', ''storage_access'')],
                    hs_Error = ''failed to access storage: '' @ sys_ErrorText sys (the err)\<rparr>
                 else
                   \<lparr>hs_Status = ''healthy'', hs_Message = ''Storage access is working'', hs_Timestamp = sys_Now sys w1,
                    hs_Details = [(''bucket'', gh_bucket h), (''status'', ''storage_ok'')], hs_Error = []\<rparr>), w1)))"

definition gcs_CheckConnectivity :: "'w sys \<Rightarrow> 'w GCSHealthChecker \<Rightarrow> gctx \<Rightarrow> 'w \<Rightarrow> HealthStatus \<times> 'w" where
  "gcs_CheckConnectivity sys h ctx w =
     (case gh_client h of
        None \<Rightarrow> (no_client_status (gh_bucket h) (sys_Now sys w), w)
      | Some cl \<Rightarrow>
          (case cl_BucketAttrs cl (gh_bucket h) ctx w of
             (Some e, w1) \<Rightarrow>
               (\<lparr>hs_Status = ''unhealthy'', hs_Message = ''GCS connectivity failed'', hs_Timestamp = sys_Now sys w1,
                 hs_Details = [(''bucket'', gh_bucket h), (''error_type'', ''connectivity'')],
                 hs_Error = ''failed to connect to GCS: '' @ sys_ErrorText sys e\<rparr>, w1)
           | (None, w1) \<Rightarrow>
               (\<lparr>hs_Status = ''healthy'', hs_Message = ''GCS connectivity is working'', hs_Timestamp = sys_Now sys w1,
                 hs_Details = [(''bucket'', gh_bucket h), (''status'', ''connectivity_ok'')], hs_Error = []\<rparr>, w1)))"

definition gcs_CheckPermissions :: "'w sys \<Rightarrow> 'w GCSHealthChecker \<Rightarrow> gctx \<Rightarrow> 'w \<Rightarrow> HealthStatus \<times> 'w" where
  "gcs_CheckPermissions sys h ctx w =
     (case gh_client h of
        None \<Rightarrow> (no_client_status (gh_bucket h) (sys_Now sys w), w)
      | Some cl \<Rightarrow>
          (case cl_TestPermissions cl (gh_bucket h) ctx [''storage.objects.list''] w of
             (Inl e, w1) \<Rightarrow>
               (\<lparr>hs_Status = ''unhealthy'', hs_Message = ''Permission check failed'', hs_Timestamp = sys_Now sys w1,
                 hs_Details = [(''bucket'', gh_bucket h), (''error_type'', ''permission_check'')],
                 hs_Error = ''failed to check permissions: '' @ sys_ErrorText sys e\<rparr>, w1)
           | (Inr perms, w1) \<Rightarrow>
               ((if perms = [] then
                   \<lparr>hs_Status = ''unhealthy'', hs_Message = ''Insufficient permissions'', hs_Timestamp = sys_Now sys w1,
                    hs_Details = [(''bucket'', gh_bucket h), (''error_type'', ''insufficient_permissions'')],
                    hs_Error = ''no permissions granted on bucket''\<rparr>
                 else
                   \<lparr>hs_Status = ''healthy'', hs_Message = ''Permissions are working'', hs_Timestamp = sys_Now sys w1,
                    hs_Details = [(''bucket'', gh_bucket h), (''status'', ''permissions_ok'')], hs_Error = []\<rparr>), w1)))"

text \<open>Run a check if it is enabled, return its status if it is not healthy, else go on.\<close>

definition then_check ::
  "bool \<Rightarrow> ('w \<Rightarrow> HealthStatus \<times> 'w) \<Rightarrow> ('w \<Rightarrow> HealthStatus \<times> 'w) \<Rightarrow> 'w \<Rightarrow> HealthStatus \<times> 'w" where
  "then_check enabled chk k w =
     (if enabled then (case chk w of (s, w1) \<Rightarrow> if \<not> healthy s then (s, w1) else k w1) else k w)"

definition all_passed :: "'w sys \<Rightarrow> string \<Rightarrow> 'w \<Rightarrow> HealthStatus \<times> 'w" where
  "all_passed sys bucket w =
     (\<lparr>hs_Status = ''healthy'', hs_Message = ''All health checks passed'', hs_Timestamp = sys_Now sys w,
       hs_Details = [(''bucket'', bucket), (''connectivity'', ''ok''), (''storage'', ''ok''), (''permissions'', ''ok''),
                     (''last_check'', sys_RFC3339 sys (sys_Now sys w))],
       hs_Error = []\<rparr>, w)"

definition gcs_Check :: "'w sys \<Rightarrow> 'w GCSHealthChecker \<Rightarrow> gctx \<Rightarrow> 'w \<Rightarrow> HealthStatus \<times> 'w" where
  "gcs_Check sys h ctx0 w =
     (if gh_client h = None then (no_client_status (gh_bucket h) (sys_Now sys w), w)
      else
        let ctx = context_WithTimeout ctx0 (cfg_Timeout (gh_config h)) (sys_Now sys w) in
        then_check (cfg_CheckConnectivity (gh_config h)) (gcs_CheckConnectivity sys h ctx)
          (then_check True (gcs_CheckStorage sys h ctx)
             (then_check (cfg_CheckPermissions (gh_config h)) (gcs_CheckPermissions sys h ctx)
                (all_passed sys (gh_bucket h)))) w)"

subsection \<open>The interface and the composite\<close>

record 'w HealthChecker =
  chk_Check :: "gctx \<Rightarrow> 'w \<Rightarrow> HealthStatus \<times> 'w"
  chk_CheckStorage :: "gctx \<Rightarrow> 'w \<Rightarrow> HealthStatus \<times> 'w"

definition gcs_checker :: "'w sys \<Rightarrow> 'w GCSHealthChecker \<Rightarrow> 'w HealthChecker" where
  "gcs_checker sys h = \<lparr>chk_Check = gcs_Check sys h, chk_CheckStorage = gcs_CheckStorage sys h\<rparr>"

record 'w CompositeHealthChecker =
  cc_checkers :: "'w HealthChecker list"
  cc_config :: HealthConfig

definition NewCompositeHealthChecker :: "'w HealthChecker list \<Rightarrow> HealthConfig option \<Rightarrow> 'w CompositeHealthChecker" where
  "NewCompositeHealthChecker checkers config =
     \<lparr>cc_checkers = checkers,
      cc_config = (case config of
         None \<Rightarrow> \<lparr>cfg_Timeout = 30 * sec, cfg_RetryAttempts = 3, cfg_RetryDelay = 5 * sec,
                  cfg_CheckPermissions = False, cfg_CheckConnectivity = False\<rparr>
       | Some c \<Rightarrow> c)\<rparr>"

definition detail_key :: "nat \<Rightarrow> string \<Rightarrow> string" where
  "detail_key i k = ''checker_'' @ dec i @ ''_'' @ k"

definition add_details :: "nat \<Rightarrow> (string, string) gomap \<Rightarrow> (string, string) gomap \<Rightarrow> (string, string) gomap" where
  "add_details i details allDetails = fold (\<lambda>(k, v). gomap_set (detail_key i k) v) details allDetails"

text \<open>
  The loop \<open>Check\<close> and \<open>CheckStorage\<close> of the composite share: \<open>run\<close> is the method called,
  \<open>what\<close> the first word of the message. It leaves with the failed status or the details of all.
\<close>

fun composite_loop ::
  "'w sys \<Rightarrow> ('w HealthChecker \<Rightarrow> gctx \<Rightarrow> 'w \<Rightarrow> HealthStatus \<times> 'w) \<Rightarrow> string \<Rightarrow> nat \<Rightarrow> (string, string) gomap
     \<Rightarrow> 'w HealthChecker list \<Rightarrow> gctx \<Rightarrow> 'w \<Rightarrow> (HealthStatus + (string, string) gomap) \<times> 'w" where
  "composite_loop sys run what i allDetails [] ctx w = (Inr allDetails, w)"
| "composite_loop sys run what i allDetails (checker # rest) ctx w =
     (case run checker ctx w of
        (status, w1) \<Rightarrow>
          (let allDetails' = add_details i (hs_Details status) allDetails in
           if \<not> healthy status then
             (Inl \<lparr>hs_Status = ''unhealthy'',
                   hs_Message = what @ '' check '' @ dec i @ '' failed: '' @ hs_Message status,
                   hs_Timestamp = sys_Now sys w1, hs_Details = allDetails', hs_Error = hs_Error status\<rparr>, w1)
           else composite_loop sys run what (i + 1) allDetails' rest ctx w1))"

definition composite_finish ::
  "'w sys \<Rightarrow> string \<Rightarrow> (HealthStatus + (string, string) gomap) \<times> 'w \<Rightarrow> HealthStatus \<times> 'w" where
  "composite_finish sys msg = (\<lambda>(res, w).
     ((case res of
         Inl status \<Rightarrow> status
       | Inr allDetails \<Rightarrow>
           \<lparr>hs_Status = ''healthy'', hs_Message = msg, hs_Timestamp = sys_Now sys w, hs_Details = allDetails, hs_Error = []\<rparr>), w))"

definition composite_Check :: "'w sys \<Rightarrow> 'w CompositeHealthChecker \<Rightarrow> gctx \<Rightarrow> 'w \<Rightarrow> HealthStatus \<times> 'w" where
  "composite_Check sys c ctx w =
     composite_finish sys ''All health checks passed''
       (composite_loop sys chk_Check ''Health'' 0 [] (cc_checkers c) ctx w)"

definition composite_CheckStorage :: "'w sys \<Rightarrow> 'w CompositeHealthChecker \<Rightarrow> gctx \<Rightarrow> 'w \<Rightarrow> HealthStatus \<times> 'w" where
  "composite_CheckStorage sys c ctx w =
     composite_finish sys ''All storage checks passed''
       (composite_loop sys chk_CheckStorage ''Storage'' 0 [] (cc_checkers c) ctx w)"

definition composite_checker :: "'w sys \<Rightarrow> 'w CompositeHealthChecker \<Rightarrow> 'w HealthChecker" where
  "composite_checker sys c = \<lparr>chk_Check = composite_Check sys c, chk_CheckStorage = composite_CheckStorage sys c\<rparr>"

subsection \<open>The contract\<close>

text \<open>
  A well-formed status is healthy without an error or unhealthy with one, and its details are
  a map.
\<close>

definition wf_status :: "HealthStatus \<Rightarrow> bool" where
  "wf_status s \<longleftrightarrow>
     (if healthy s then hs_Error s = [] else hs_Status s = ''unhealthy'' \<and> hs_Error s \<noteq> []) \<and> gomap_ok (hs_Details s)"

locale health_checker =
  fixes inv :: "'c \<Rightarrow> bool"
    and check :: "'c \<Rightarrow> gctx \<Rightarrow> 'w \<Rightarrow> HealthStatus \<times> 'w"
    and checkStorage :: "'c \<Rightarrow> gctx \<Rightarrow> 'w \<Rightarrow> HealthStatus \<times> 'w"
  assumes check_wf: "inv c \<Longrightarrow> wf_status (fst (check c ctx w))"
    and storage_wf: "inv c \<Longrightarrow> wf_status (fst (checkStorage c ctx w))"
begin

lemma check_unhealthy_iff_error: "inv c \<Longrightarrow> \<not> healthy (fst (check c ctx w)) \<longleftrightarrow> hs_Error (fst (check c ctx w)) \<noteq> []"
  using check_wf [of c ctx w] by (auto simp: wf_status_def split: if_splits)

lemma storage_unhealthy_iff_error:
  "inv c \<Longrightarrow> \<not> healthy (fst (checkStorage c ctx w)) \<longleftrightarrow> hs_Error (fst (checkStorage c ctx w)) \<noteq> []"
  using storage_wf [of c ctx w] by (auto simp: wf_status_def split: if_splits)

end

text \<open>A value of the interface type keeps the contract.\<close>

definition wf_checker :: "'w HealthChecker \<Rightarrow> bool" where
  "wf_checker c \<longleftrightarrow> (\<forall>ctx w. wf_status (fst (chk_Check c ctx w)) \<and> wf_status (fst (chk_CheckStorage c ctx w)))"

interpretation any_health: health_checker wf_checker chk_Check chk_CheckStorage
  by unfold_locales (simp_all add: wf_checker_def)

lemma no_client_wf [simp]: "wf_status (no_client_status b now)"
  by (simp add: wf_status_def no_client_status_def)

lemma gcs_storage_wf: "wf_status (fst (gcs_CheckStorage sys h ctx w))"
  by (auto simp: gcs_CheckStorage_def no_client_status_def wf_status_def split: option.split prod.split)

lemma gcs_connectivity_wf: "wf_status (fst (gcs_CheckConnectivity sys h ctx w))"
  by (auto simp: gcs_CheckConnectivity_def no_client_status_def wf_status_def split: option.split prod.split)

lemma gcs_permissions_wf: "wf_status (fst (gcs_CheckPermissions sys h ctx w))"
  by (auto simp: gcs_CheckPermissions_def no_client_status_def wf_status_def split: option.split prod.split sum.split)

lemma then_check_wf:
  "(\<And>w. wf_status (fst (chk w))) \<Longrightarrow> (\<And>w. wf_status (fst (k w))) \<Longrightarrow> wf_status (fst (then_check en chk k w))"
  by (auto simp: then_check_def split: prod.split) (metis fst_conv)

lemma all_passed_wf: "wf_status (fst (all_passed sys b w))"
  by (simp add: all_passed_def wf_status_def)

lemma gcs_check_wf: "wf_status (fst (gcs_Check sys h ctx w))"
  by (simp add: gcs_Check_def Let_def then_check_wf gcs_connectivity_wf gcs_storage_wf gcs_permissions_wf all_passed_wf)

interpretation gcs_health: health_checker "\<lambda>_. True" "gcs_Check sys" "gcs_CheckStorage sys" for sys
  by unfold_locales (simp_all add: gcs_check_wf gcs_storage_wf)

lemma gcs_checker_wf: "wf_checker (gcs_checker sys h)"
  by (simp add: wf_checker_def gcs_checker_def gcs_health.check_wf gcs_health.storage_wf)

lemma add_details_ok: "gomap_ok m \<Longrightarrow> gomap_ok (add_details i d m)"
  by (induction d arbitrary: m) (auto simp: add_details_def distinct_update)

lemma composite_loop_wf:
  assumes "\<And>c ctx w. c \<in> set cs \<Longrightarrow> wf_status (fst (run c ctx w))" and "gomap_ok m"
  shows "case fst (composite_loop sys run what i m cs ctx w) of
      Inl s \<Rightarrow> wf_status s \<and> \<not> healthy s | Inr m' \<Rightarrow> gomap_ok m'"
  using assms
proof (induction cs arbitrary: i m w)
  case (Cons c cs)
  obtain s w1 where r: "run c ctx w = (s, w1)" by force
  with Cons.prems(1) [of c ctx w] have wf: "wf_status s" by simp
  have ok: "gomap_ok (add_details i (hs_Details s) m)" using Cons.prems(2) by (rule add_details_ok)
  show ?case
  proof (cases "healthy s")
    case True
    with r Cons.IH [OF _ ok] Cons.prems(1) show ?thesis by (simp add: Let_def)
  next
    case False
    with r wf ok show ?thesis by (auto simp: wf_status_def Let_def)
  qed
qed simp

definition composite_inv :: "'w CompositeHealthChecker \<Rightarrow> bool" where
  "composite_inv c \<longleftrightarrow> (\<forall>k \<in> set (cc_checkers c). wf_checker k)"

lemma composite_finish_wf:
  "case fst r of Inl s \<Rightarrow> wf_status s \<and> \<not> healthy s | Inr m \<Rightarrow> gomap_ok m \<Longrightarrow> wf_status (fst (composite_finish sys msg r))"
  by (auto simp: composite_finish_def wf_status_def split: sum.splits prod.splits)

interpretation composite_health: health_checker composite_inv "composite_Check sys" "composite_CheckStorage sys" for sys
proof
  fix c :: "'a CompositeHealthChecker" and ctx w
  assume inv: "composite_inv c"
  show "wf_status (fst (composite_Check sys c ctx w))"
    unfolding composite_Check_def
    by (rule composite_finish_wf, rule composite_loop_wf) (use inv in \<open>auto simp: composite_inv_def intro: any_health.check_wf\<close>)
  show "wf_status (fst (composite_CheckStorage sys c ctx w))"
    unfolding composite_CheckStorage_def
    by (rule composite_finish_wf, rule composite_loop_wf) (use inv in \<open>auto simp: composite_inv_def intro: any_health.storage_wf\<close>)
qed

subsection \<open>What the composite reports\<close>

lemma takeWhile_dec: "takeWhile is_digit (dec i @ CHR ''_'' # k) = dec i"
  using dec_digits by (subst takeWhile_append2) (auto simp: is_digit_def)

lemma detail_key_inject [simp]: "detail_key i k = detail_key j l \<longleftrightarrow> i = j \<and> k = l"
proof
  assume "detail_key i k = detail_key j l"
  then have eq: "dec i @ CHR ''_'' # k = dec j @ CHR ''_'' # l" by (simp add: detail_key_def)
  from arg_cong [OF eq, of "takeWhile is_digit"] have "i = j" by (simp add: takeWhile_dec dec_inject)
  with eq show "i = j \<and> k = l" by simp
qed simp

lemma add_details_get:
  assumes "gomap_ok d"
  shows "gomap_get (add_details i d m) (detail_key j k) =
    (if j = i then (case gomap_get d k of Some v \<Rightarrow> Some v | None \<Rightarrow> gomap_get m (detail_key i k))
     else gomap_get m (detail_key j k))"
  using assms
proof (induction d arbitrary: m)
  case (Cons kv d)
  obtain k' v where kv: "kv = (k', v)" by force
  have new: "k' \<notin> fst ` set d" using Cons.prems kv by simp
  then have "gomap_get d k' = None" by (simp add: map_of_eq_None_iff)
  with Cons.IH [of "gomap_set (detail_key i k') v m"] Cons.prems kv show ?case
    by (auto simp: add_details_def update_conv' split: option.split)
qed (simp add: add_details_def)

text \<open>The statuses the checkers return one after the other, up to the first failure.\<close>

fun statuses ::
  "('w HealthChecker \<Rightarrow> gctx \<Rightarrow> 'w \<Rightarrow> HealthStatus \<times> 'w) \<Rightarrow> 'w HealthChecker list \<Rightarrow> gctx \<Rightarrow> 'w \<Rightarrow> HealthStatus list \<times> 'w" where
  "statuses run [] ctx w = ([], w)"
| "statuses run (c # cs) ctx w =
     (case run c ctx w of (s, w1) \<Rightarrow> if \<not> healthy s then ([s], w1) else map_prod ((#) s) id (statuses run cs ctx w1))"

definition free_from :: "nat \<Rightarrow> (string, string) gomap \<Rightarrow> bool" where
  "free_from i m \<longleftrightarrow> (\<forall>j k. i \<le> j \<longrightarrow> gomap_get m (detail_key j k) = None)"

text \<open>The details of a result hold those of the statuses \<open>ss\<close>, numbered from \<open>i\<close>, on top of \<open>m\<close>.\<close>

definition holds_details :: "nat \<Rightarrow> (string, string) gomap \<Rightarrow> HealthStatus list \<Rightarrow> (string, string) gomap \<Rightarrow> bool" where
  "holds_details i m ss m' \<longleftrightarrow>
     (\<forall>j k. gomap_get m' (detail_key j k) =
        (if i \<le> j \<and> j < i + length ss then gomap_get (hs_Details (ss ! (j - i))) k else gomap_get m (detail_key j k)))"

lemma holds_details_step:
  assumes "free_from i m" and "gomap_ok (hs_Details s)" and "holds_details (Suc i) (add_details i (hs_Details s) m) ss m'"
  shows "holds_details i m (s # ss) m'"
proof -
  have g: "gomap_get (add_details i (hs_Details s) m) (detail_key j k) =
      (if j = i then gomap_get (hs_Details s) k else gomap_get m (detail_key j k))" for j k
    using assms(1) by (auto simp: add_details_get [OF assms(2)] free_from_def split: option.split)
  show ?thesis
    unfolding holds_details_def
  proof (intro allI)
    fix j k
    consider "j < i" | "j = i" | "i < j" by linarith
    then show "gomap_get m' (detail_key j k) = (if i \<le> j \<and> j < i + length (s # ss)
        then gomap_get (hs_Details ((s # ss) ! (j - i))) k else gomap_get m (detail_key j k))"
    proof cases
      case 3
      then have "j - i = Suc (j - Suc i)" by simp
      with 3 assms(3) g show ?thesis by (auto simp: holds_details_def)
    qed (use assms(3) g in \<open>auto simp: holds_details_def\<close>)
  qed
qed

lemma free_from_add: "free_from i m \<Longrightarrow> gomap_ok d \<Longrightarrow> free_from (Suc i) (add_details i d m)"
  by (auto simp: free_from_def add_details_get)

lemma composite_loop_reports:
  assumes "\<forall>c \<in> set cs. \<forall>ctx w. wf_status (fst (run c ctx w))" and "free_from i m"
  shows "\<exists>ss res w'. statuses run cs ctx w = (ss, w') \<and> composite_loop sys run what i m cs ctx w = (res, w') \<and>
     (case res of
        Inl s \<Rightarrow> ss \<noteq> [] \<and> list_all healthy (butlast ss) \<and> \<not> healthy (last ss) \<and> \<not> healthy s \<and> hs_Error s = hs_Error (last ss) \<and>
          hs_Message s = what @ '' check '' @ dec (i + length ss - 1) @ '' failed: '' @ hs_Message (last ss) \<and>
          holds_details i m ss (hs_Details s)
      | Inr m' \<Rightarrow> list_all healthy ss \<and> length ss = length cs \<and> holds_details i m ss m')"
  using assms
proof (induction cs arbitrary: i m w)
  case Nil
  then show ?case by (auto simp: holds_details_def)
next
  case (Cons c cs)
  obtain s w1 where r: "run c ctx w = (s, w1)" by force
  have "wf_status (fst (run c ctx w))" using Cons.prems(1) by simp
  with r have wf: "gomap_ok (hs_Details s)" by (simp add: wf_status_def)
  show ?case
  proof (cases "healthy s")
    case False
    have "holds_details i m [s] (add_details i (hs_Details s) m)"
      by (rule holds_details_step [OF Cons.prems(2) wf]) (auto simp: holds_details_def)
    with r False show ?thesis by (simp add: Let_def)
  next
    case True
    let ?m = "add_details i (hs_Details s) m"
    obtain ss res w' where ih: "statuses run cs ctx w1 = (ss, w')" "composite_loop sys run what (Suc i) ?m cs ctx w1 = (res, w')"
      "case res of
        Inl s \<Rightarrow> ss \<noteq> [] \<and> list_all healthy (butlast ss) \<and> \<not> healthy (last ss) \<and> \<not> healthy s \<and> hs_Error s = hs_Error (last ss) \<and>
          hs_Message s = what @ '' check '' @ dec (Suc i + length ss - 1) @ '' failed: '' @ hs_Message (last ss) \<and>
          holds_details (Suc i) ?m ss (hs_Details s)
      | Inr m' \<Rightarrow> list_all healthy ss \<and> length ss = length cs \<and> holds_details (Suc i) ?m ss m'"
      using Cons.IH [of "Suc i" ?m w1] Cons.prems(1) free_from_add [OF Cons.prems(2) wf] by auto
    note step = holds_details_step [OF Cons.prems(2) wf]
    from ih(3) True have "case res of
        Inl s' \<Rightarrow> list_all healthy (butlast (s # ss)) \<and> \<not> healthy (last (s # ss)) \<and> \<not> healthy s' \<and> hs_Error s' = hs_Error (last (s # ss)) \<and>
          hs_Message s' = what @ '' check '' @ dec (i + length (s # ss) - 1) @ '' failed: '' @ hs_Message (last (s # ss)) \<and>
          holds_details i m (s # ss) (hs_Details s')
      | Inr m' \<Rightarrow> list_all healthy (s # ss) \<and> length (s # ss) = length (c # cs) \<and> holds_details i m (s # ss) m'"
      by (auto intro: step split: sum.splits)
    with r ih(1,2) True show ?thesis by (auto simp: Let_def split: sum.splits)
  qed
qed

text \<open>
  C31. The composite tells the truth about its checkers: it is healthy exactly when every one
  of them is; otherwise it stops at the first that is not, carries that one's error and names
  its number; and the details of every checker that was asked are all there, under keys that
  never collide, whatever the details are called.
\<close>

theorem composite_reports_first_failure:
  assumes "composite_inv c"
  shows "\<exists>ss w' s. statuses chk_Check (cc_checkers c) ctx w = (ss, w') \<and> composite_Check sys c ctx w = (s, w') \<and>
    (healthy s \<longleftrightarrow> list_all healthy ss \<and> length ss = length (cc_checkers c)) \<and>
    (\<not> healthy s \<longrightarrow> \<not> healthy (last ss) \<and> list_all healthy (butlast ss) \<and> hs_Error s = hs_Error (last ss) \<and>
       hs_Message s = ''Health check '' @ dec (length ss - 1) @ '' failed: '' @ hs_Message (last ss)) \<and>
    (\<forall>i < length ss. \<forall>k. gomap_get (hs_Details s) (detail_key i k) = gomap_get (hs_Details (ss ! i)) k)"
proof -
  have wf: "\<forall>k \<in> set (cc_checkers c). \<forall>ctx w. wf_status (fst (chk_Check k ctx w))"
    using assms by (auto simp: composite_inv_def intro: any_health.check_wf)
  have "free_from 0 []" by (simp add: free_from_def)
  from composite_loop_reports [OF wf this, where ctx = ctx and w = w and sys = sys and what = "''Health''"]
  obtain ss res w' where r: "statuses chk_Check (cc_checkers c) ctx w = (ss, w')"
    "composite_loop sys chk_Check ''Health'' 0 [] (cc_checkers c) ctx w = (res, w')"
    "case res of
        Inl s \<Rightarrow> ss \<noteq> [] \<and> list_all healthy (butlast ss) \<and> \<not> healthy (last ss) \<and> \<not> healthy s \<and> hs_Error s = hs_Error (last ss) \<and>
          hs_Message s = ''Health'' @ '' check '' @ dec (0 + length ss - 1) @ '' failed: '' @ hs_Message (last ss) \<and>
          holds_details 0 [] ss (hs_Details s)
      | Inr m' \<Rightarrow> list_all healthy ss \<and> length ss = length (cc_checkers c) \<and> holds_details 0 [] ss m'"
    by blast
  have not_all: "\<not> list_all healthy ss" if "ss \<noteq> []" "\<not> healthy (last ss)"
    using that by (auto simp: list_all_iff)
  from r show ?thesis
    using not_all by (auto simp: composite_Check_def composite_finish_def holds_details_def split: sum.splits)
qed

text \<open>A system and two clients for the witnesses: one that works and one that is down.\<close>

definition sample_sys :: "nat sys" where
  "sample_sys = \<lparr>sys_Now = int, sys_RFC3339 = (\<lambda>_. ''t''), sys_DurationText = (\<lambda>_. ''d''), sys_ErrorText = (\<lambda>_. ''boom'')\<rparr>"

definition sample_client :: "gerror option \<Rightarrow> nat storage_Client" where
  "sample_client e = \<lparr>cl_BucketAttrs = (\<lambda>_ _ w. (e, w + 1)), cl_FirstObject = (\<lambda>_ _ _ w. (e, w + 1)),
     cl_TestPermissions = (\<lambda>_ _ ps w. (case e of None \<Rightarrow> Inr ps | Some x \<Rightarrow> Inl x, w + 1))\<rparr>"

definition sample_checker :: "gerror option \<Rightarrow> nat HealthChecker" where
  "sample_checker e = gcs_checker sample_sys (NewGCSHealthChecker (Some (sample_client e)) ''b'' None)"

theorem composite_reports_first_failure_witness:
  "\<exists>s w'. composite_Check sample_sys
      (NewCompositeHealthChecker [sample_checker None, sample_checker (Some Canceled)] None) \<lparr>ctx_deadline = None\<rparr> 0 = (s, w') \<and>
     \<not> healthy s \<and> hs_Error s = ''failed to connect to GCS: boom''"
proof -
  let ?c = "NewCompositeHealthChecker [sample_checker None, sample_checker (Some Canceled)] None"
  have "composite_inv ?c"
    by (simp add: composite_inv_def NewCompositeHealthChecker_def sample_checker_def gcs_checker_wf)
  then obtain ss w' s where c: "statuses chk_Check (cc_checkers ?c) \<lparr>ctx_deadline = None\<rparr> 0 = (ss, w')"
    "composite_Check sample_sys ?c \<lparr>ctx_deadline = None\<rparr> 0 = (s, w')"
    "healthy s \<longleftrightarrow> list_all healthy ss \<and> length ss = length (cc_checkers ?c)"
    "\<not> healthy s \<longrightarrow> hs_Error s = hs_Error (last ss)"
    using composite_reports_first_failure [of ?c "\<lparr>ctx_deadline = None\<rparr>" 0 sample_sys] by blast
  have "\<exists>s0 s1 w1. statuses chk_Check (cc_checkers ?c) \<lparr>ctx_deadline = None\<rparr> 0 = ([s0, s1], w1) \<and>
      \<not> healthy s1 \<and> hs_Error s1 = ''failed to connect to GCS: boom''"
    by (simp add: NewCompositeHealthChecker_def sample_checker_def gcs_checker_def gcs_Check_def then_check_def
        gcs_CheckConnectivity_def gcs_CheckStorage_def gcs_CheckPermissions_def NewGCSHealthChecker_def sample_client_def
        all_passed_def sample_sys_def Let_def)
  with c show ?thesis by auto
qed

end
