(* ===== verification/Health_Endpoint.thy ===== *)
theory Health_Endpoint
  imports Health Go_Http Build_Info
begin

section \<open>Health endpoints\<close>

text \<open>
  Model of \<^verbatim>\<open>pkg/observability/health/health_endpoint.go\<close>: provisioning, routing, the six
  endpoints, the startup state and the redaction of errors. Clock readings inside one request
  are taken from the world at that point. \<^verbatim>\<open>UnmarshalCaddyfile\<close> is in theory \<open>Directives\<close>.
\<close>

subsection \<open>State\<close>

text \<open>What is handed to the JSON encoder.\<close>

datatype jval =
    JStr string
  | JBool bool
  | JSeconds duration
  | JLabels "(string, string) gomap"
  | JStatus HealthStatus
  | JObj "(string \<times> jval) list"

datatype body = StatusBody HealthStatus | ObjectBody "(string, jval) gomap" | OtherBody string

record 'w HealthEndpointHandler =
  HealthPath :: string
  ReadinessPath :: string
  LivenessPath :: string
  StartupPath :: string
  CustomLabels :: "(string, string) gomap"
  EnableDetailed :: bool
  EnableMetrics :: bool
  DetailedLocalOnly :: "bool option"
  checkers :: "'w HealthChecker list"
  compositeChecker :: "'w CompositeHealthChecker option"
  startTime :: int
  startupComplete :: bool

datatype provision_error = InvalidLabelKey string | InvalidLabelValue string

abbreviation (input) defaultHealthTimeout :: duration where
  "defaultHealthTimeout \<equiv> 30 * sec"

definition validateHeaderValue :: "string \<Rightarrow> bool" where
  "validateHeaderValue s \<longleftrightarrow> \<not> list_ex (\<lambda>c. c = CHR 0x0D \<or> c = CHR 0x0A \<or> c = CHR 0x00) s"

fun validate_labels :: "(string \<times> string) list \<Rightarrow> provision_error option" where
  "validate_labels [] = None"
| "validate_labels ((key, val) # rest) =
     (if \<not> validateHeaderValue key then Some (InvalidLabelKey key)
      else if \<not> validateHeaderValue val then Some (InvalidLabelValue key)
      else validate_labels rest)"

definition default_path :: "string \<Rightarrow> string \<Rightarrow> string" where
  "default_path p d = (if p = [] then d else p)"

definition default_label :: "string \<Rightarrow> string \<Rightarrow> (string, string) gomap \<Rightarrow> (string, string) gomap" where
  "default_label k v m = (if gomap_get m k = None then gomap_set k v m else m)"

definition composite_config :: HealthConfig where
  "composite_config = \<lparr>cfg_Timeout = 30 * sec, cfg_RetryAttempts = 3, cfg_RetryDelay = 5 * sec,
     cfg_CheckPermissions = True, cfg_CheckConnectivity = True\<rparr>"

definition Provision :: "build_vars \<Rightarrow> int \<Rightarrow> 'w HealthEndpointHandler \<Rightarrow> provision_error + 'w HealthEndpointHandler" where
  "Provision b now h =
     (let h1 = h\<lparr>HealthPath := default_path (HealthPath h) ''/health'',
                 ReadinessPath := default_path (ReadinessPath h) ''/ready'',
                 LivenessPath := default_path (LivenessPath h) ''/live'',
                 StartupPath := default_path (StartupPath h) ''/startup'',
                 DetailedLocalOnly := (case DetailedLocalOnly h of None \<Rightarrow> Some True | Some v \<Rightarrow> Some v),
                 CustomLabels := default_label ''version'' (bv_Version b) (default_label ''service'' ServiceName (CustomLabels h))\<rparr>
      in case validate_labels (CustomLabels h1) of
           Some e \<Rightarrow> Inl e
         | None \<Rightarrow>
             Inr (h1\<lparr>startTime := now,
                     startupComplete := (checkers h1 = []),
                     compositeChecker := (if checkers h1 \<noteq> []
                       then Some (NewCompositeHealthChecker (checkers h1) (Some composite_config))
                       else compositeChecker h1)\<rparr>))"

definition AddHealthChecker :: "'w HealthChecker option \<Rightarrow> 'w HealthEndpointHandler \<Rightarrow> 'w HealthEndpointHandler" where
  "AddHealthChecker checker h =
     (case checker of
        None \<Rightarrow> h
      | Some c \<Rightarrow>
          (let cs = checkers h @ [c] in
           h\<lparr>checkers := cs, compositeChecker := Some (NewCompositeHealthChecker cs (Some composite_config))\<rparr>))"

subsection \<open>Responses\<close>

definition isLoopback :: "http_Request \<Rightarrow> bool" where
  "isLoopback r = request_is_loopback (rq_RemoteAddr r)"

definition isDetailedAllowed :: "'w HealthEndpointHandler \<Rightarrow> http_Request \<Rightarrow> bool" where
  "isDetailedAllowed h r =
     (if DetailedLocalOnly h = Some False then True else request_is_loopback (rq_RemoteAddr r))"

abbreviation redacted :: string where
  "redacted \<equiv> ''internal error (details redacted)''"

definition label_headers :: "(string, string) gomap \<Rightarrow> 'b http_Response \<Rightarrow> 'b http_Response" where
  "label_headers labels rsp = fold (\<lambda>(k, v). header_Set (''X-Health-'' @ k) v) labels rsp"

definition writeHealthResponse ::
  "'w HealthEndpointHandler \<Rightarrow> http_Request \<Rightarrow> HealthStatus \<Rightarrow> body http_Response \<Rightarrow> body http_Response" where
  "writeHealthResponse h r status rsp =
     (let rsp1 = header_Set ''Cache-Control'' ''no-cache, no-store, must-revalidate''
                   (header_Set ''Content-Type'' ''application/json'' rsp);
          rsp2 = label_headers (CustomLabels h) rsp1;
          rsp3 = header_Set ''X-Health-Status'' (hs_Status status) rsp2;
          rsp4 = (if \<not> healthy status then WriteHeader 503 rsp3 else rsp3);
          status' = (if hs_Error status \<noteq> [] \<and> \<not> isLoopback r then status\<lparr>hs_Error := redacted\<rparr> else status)
      in write_body (StatusBody status') rsp4)"

text \<open>The timeout every probe runs under.\<close>

definition probe_ctx :: "'w sys \<Rightarrow> http_Request \<Rightarrow> 'w \<Rightarrow> gctx" where
  "probe_ctx sys r w = context_WithTimeout (rq_ctx r) defaultHealthTimeout (sys_Now sys w)"

definition uptime :: "'w sys \<Rightarrow> 'w HealthEndpointHandler \<Rightarrow> 'w \<Rightarrow> string" where
  "uptime sys h w = sys_DurationText sys (sys_Now sys w - startTime h)"

definition own_status :: "'w sys \<Rightarrow> bool \<Rightarrow> string \<Rightarrow> string \<Rightarrow> string \<Rightarrow> 'w HealthEndpointHandler \<Rightarrow> 'w \<Rightarrow> HealthStatus" where
  "own_status sys ok msg key val h w =
     \<lparr>hs_Status = (if ok then ''healthy'' else ''unhealthy''), hs_Message = msg, hs_Timestamp = sys_Now sys w,
      hs_Details = [(key, val), (''uptime'', uptime sys h w)], hs_Error = []\<rparr>"

definition serveHealth ::
  "'w sys \<Rightarrow> 'w HealthEndpointHandler \<Rightarrow> http_Request \<Rightarrow> body http_Response \<Rightarrow> 'w \<Rightarrow> body http_Response \<times> 'w" where
  "serveHealth sys h r rsp w =
     (case compositeChecker h of
        Some c \<Rightarrow>
          (case composite_Check sys c (probe_ctx sys r w) w of (status, w1) \<Rightarrow> (writeHealthResponse h r status rsp, w1))
      | None \<Rightarrow>
          (writeHealthResponse h r
             (own_status sys True ''Health endpoint is working'' ''service'' ''caddy-fs-gcs'' h w) rsp, w))"

definition serveReadiness ::
  "'w sys \<Rightarrow> 'w HealthEndpointHandler \<Rightarrow> http_Request \<Rightarrow> body http_Response \<Rightarrow> 'w \<Rightarrow> body http_Response \<times> 'w" where
  "serveReadiness sys h r rsp w =
     (if \<not> startupComplete h then
        (writeHealthResponse h r
           (own_status sys False ''Service is still starting up'' ''startup'' ''in_progress'' h w) rsp, w)
      else
        (case compositeChecker h of
           Some c \<Rightarrow>
             (case composite_CheckStorage sys c (probe_ctx sys r w) w of (status, w1) \<Rightarrow> (writeHealthResponse h r status rsp, w1))
         | None \<Rightarrow>
             (writeHealthResponse h r (own_status sys True ''Service is ready'' ''readiness'' ''ready'' h w) rsp, w)))"

definition serveLiveness ::
  "'w sys \<Rightarrow> 'w HealthEndpointHandler \<Rightarrow> http_Request \<Rightarrow> body http_Response \<Rightarrow> 'w \<Rightarrow> body http_Response \<times> 'w" where
  "serveLiveness sys h r rsp w =
     (writeHealthResponse h r (own_status sys True ''Service is alive'' ''liveness'' ''alive'' h w) rsp, w)"

definition tryCompleteStartup ::
  "'w sys \<Rightarrow> gctx \<Rightarrow> 'w HealthEndpointHandler \<Rightarrow> 'w \<Rightarrow> bool \<times> 'w HealthEndpointHandler \<times> 'w" where
  "tryCompleteStartup sys ctx h w =
     (case compositeChecker h of
        Some c \<Rightarrow>
          (case composite_CheckStorage sys c (context_WithTimeout ctx defaultHealthTimeout (sys_Now sys w)) w of
             (status, w1) \<Rightarrow>
               (if \<not> healthy status then (False, h, w1) else (True, h\<lparr>startupComplete := True\<rparr>, w1)))
      | None \<Rightarrow> (True, h\<lparr>startupComplete := True\<rparr>, w))"

definition serveStartup ::
  "'w sys \<Rightarrow> 'w HealthEndpointHandler \<Rightarrow> http_Request \<Rightarrow> body http_Response \<Rightarrow> 'w
     \<Rightarrow> body http_Response \<times> 'w HealthEndpointHandler \<times> 'w" where
  "serveStartup sys h r rsp w =
     (case (if \<not> startupComplete h then tryCompleteStartup sys (rq_ctx r) h w else (True, h, w)) of
        (complete, h1, w1) \<Rightarrow>
          (let status = own_status sys complete (if complete then ''Startup check'' else ''Service is still starting up'')
                          ''startup_complete'' (if complete then ''true'' else ''false'') h1 w1
           in (writeHealthResponse h1 r status rsp, h1, w1)))"

definition serveDetailedHealth ::
  "build_vars \<Rightarrow> 'w sys \<Rightarrow> 'w HealthEndpointHandler \<Rightarrow> http_Request \<Rightarrow> body http_Response \<Rightarrow> 'w \<Rightarrow> body http_Response \<times> 'w" where
  "serveDetailedHealth b sys h r rsp w =
     (let base = [(''timestamp'', JStr (sys_RFC3339 sys (sys_Now sys w))), (''uptime'', JStr (uptime sys h w)),
                  (''service'', JStr ServiceName), (''version'', JStr (bv_Version b)),
                  (''build_time'', JStr (bv_BuildTime b)), (''commit'', JStr (bv_Commit b)),
                  (''custom_labels'', JLabels (CustomLabels h))]
      in case (case compositeChecker h of
                 Some c \<Rightarrow>
                   (case composite_CheckStorage sys c (probe_ctx sys r w) w of
                      (storage, w1) \<Rightarrow>
                        (let overall = \<lparr>hs_Status = (if healthy storage then ''healthy'' else ''unhealthy''),
                                        hs_Message = (if healthy storage then ''All health checks passed'' else hs_Message storage),
                                        hs_Timestamp = sys_Now sys w1, hs_Details = [], hs_Error = []\<rparr>
                         in (base @ [(''overall'', JStatus overall), (''storage'', JStatus storage)], healthy storage, w1)))
               | None \<Rightarrow> (base, True, w)) of
           (detailed, overallHealthy, w1) \<Rightarrow>
             (let rsp1 = header_Set ''Content-Type'' ''application/json'' rsp;
                  rsp2 = (if \<not> overallHealthy then WriteHeader 503 rsp1 else rsp1)
              in (write_body (ObjectBody (detailed @ [(''startup_complete'', JBool (startupComplete h))])) rsp2, w1)))"

definition serveHealthMetrics ::
  "'w sys \<Rightarrow> 'w HealthEndpointHandler \<Rightarrow> http_Request \<Rightarrow> body http_Response \<Rightarrow> 'w \<Rightarrow> body http_Response \<times> 'w" where
  "serveHealthMetrics sys h r rsp w =
     (let base = [(''timestamp'', JStr (sys_RFC3339 sys (sys_Now sys w))),
                  (''uptime_seconds'', JSeconds (sys_Now sys w - startTime h)), (''service'', JStr ServiceName)]
      in case (case compositeChecker h of
                 Some c \<Rightarrow>
                   (case composite_CheckStorage sys c (probe_ctx sys r w) w of
                      (storage, w1) \<Rightarrow>
                        (let st = JObj [(''status'', JStr (hs_Status storage)), (''healthy'', JBool (healthy storage))]
                         in (base @ [(''health_status'', st), (''storage_status'', st)], w1)))
               | None \<Rightarrow> (base, w)) of
           (metrics, w1) \<Rightarrow>
             (write_body (ObjectBody (metrics @ [(''startup_complete'', JBool (startupComplete h))]))
                (header_Set ''Content-Type'' ''application/json'' rsp), w1))"

subsection \<open>Routing\<close>

text \<open>
  The encoder's own failure (a connection that is gone) is the argument \<open>encErr\<close>: the error
  the call that writes the body returns.
\<close>

definition ServeHTTP ::
  "build_vars \<Rightarrow> 'w sys \<Rightarrow> gerror option \<Rightarrow> (body, 'w) handler \<Rightarrow> 'w HealthEndpointHandler \<Rightarrow> http_Request
     \<Rightarrow> body http_Response \<Rightarrow> 'w \<Rightarrow> (gerror option \<times> body http_Response) \<times> 'w HealthEndpointHandler \<times> 'w" where
  "ServeHTTP b sys encErr next h r rsp w =
     (let served = (\<lambda>(rsp', w'). ((encErr, rsp'), h, w'));
          passed = (case next rsp w of ((err, rsp'), w') \<Rightarrow> ((err, rsp'), h, w'))
      in if rq_Path r = HealthPath h then served (serveHealth sys h r rsp w)
         else if rq_Path r = ReadinessPath h then served (serveReadiness sys h r rsp w)
         else if rq_Path r = LivenessPath h then served (serveLiveness sys h r rsp w)
         else if rq_Path r = StartupPath h then
           (case serveStartup sys h r rsp w of (rsp', h', w') \<Rightarrow> ((encErr, rsp'), h', w'))
         else if rq_Path r = HealthPath h @ ''/detailed'' then
           (if EnableDetailed h \<and> isDetailedAllowed h r then served (serveDetailedHealth b sys h r rsp w) else passed)
         else if rq_Path r = HealthPath h @ ''/metrics'' then
           (if EnableMetrics h \<and> isDetailedAllowed h r then served (serveHealthMetrics sys h r rsp w) else passed)
         else passed)"

subsection \<open>Responses tell the truth\<close>

lemma label_headers_keep [simp]:
  "rs_code (label_headers labels rsp) = rs_code rsp" "rs_body (label_headers labels rsp) = rs_body rsp"
  unfolding label_headers_def by (induction labels arbitrary: rsp) auto

definition redact :: "http_Request \<Rightarrow> HealthStatus \<Rightarrow> HealthStatus" where
  "redact r status = (if hs_Error status \<noteq> [] \<and> \<not> isLoopback r then status\<lparr>hs_Error := redacted\<rparr> else status)"

lemma writeHealthResponse_shape:
  assumes "rs_code rsp = None"
  shows "rs_code (writeHealthResponse h r s rsp) = Some (if healthy s then 200 else 503)"
    and "rs_body (writeHealthResponse h r s rsp) = rs_body rsp @ [StatusBody (redact r s)]"
    and "header_Get ''X-Health-Status'' (writeHealthResponse h r s rsp) = Some (hs_Status s)"
  using assms by (simp_all add: writeHealthResponse_def redact_def Let_def header_Get_Set)

subsection \<open>Headers\<close>




definition headers_clean :: "'b http_Response \<Rightarrow> bool" where
  "headers_clean rsp \<longleftrightarrow> (\<forall>(k, v) \<in> set (rs_header rsp). validateHeaderValue k \<and> validateHeaderValue v)"



lemma headers_clean_write [simp]:
  "headers_clean (WriteHeader c rsp) = headers_clean rsp" "headers_clean (write_body b rsp) = headers_clean rsp"
  by (simp_all add: headers_clean_def)


text \<open>A handler as configuration leaves it, and a request from another machine.\<close>

definition new_handler :: "nat HealthEndpointHandler" where
  "new_handler = \<lparr>HealthPath = [], ReadinessPath = [], LivenessPath = [], StartupPath = [], CustomLabels = [],
     EnableDetailed = False, EnableMetrics = False, DetailedLocalOnly = None, checkers = [], compositeChecker = None,
     startTime = 0, startupComplete = False\<rparr>"

definition sample_build :: build_vars where
  "sample_build = \<lparr>bv_Version = ''1.0.0'', bv_BuildTime = ''unknown'', bv_Commit = ''unknown''\<rparr>"

definition remote_request :: "string \<Rightarrow> http_Request" where
  "remote_request p = \<lparr>rq_Method = ''GET'', rq_Path = p, rq_RemoteAddr = remote_peer,
     rq_ctx = \<lparr>ctx_deadline = None\<rparr>\<rparr>"

lemma remote_request_not_local [simp]: "\<not> isLoopback (remote_request p)"
  by (simp add: isLoopback_def remote_request_def)


subsection \<open>Redaction as non-interference\<close>

text \<open>Statuses that differ at most in the text of an error.\<close>

definition same_but_error :: "HealthStatus \<Rightarrow> HealthStatus \<Rightarrow> bool" where
  "same_but_error s s' \<longleftrightarrow>
     hs_Status s' = hs_Status s \<and> hs_Message s' = hs_Message s \<and> hs_Timestamp s' = hs_Timestamp s \<and>
     hs_Details s' = hs_Details s \<and> (hs_Error s' = [] \<longleftrightarrow> hs_Error s = [])"

lemma same_but_error_refl [simp]: "same_but_error s s"
  by (simp add: same_but_error_def)

lemma redact_same: "same_but_error s s' \<Longrightarrow> \<not> isLoopback r \<Longrightarrow> redact r s' = redact r s"
  by (cases s; cases s') (auto simp: redact_def same_but_error_def)

lemma writeHealthResponse_redact:
  "writeHealthResponse h r s rsp =
   write_body (StatusBody (redact r s))
     (let rsp3 = header_Set ''X-Health-Status'' (hs_Status s) (label_headers (CustomLabels h)
          (header_Set ''Cache-Control'' ''no-cache, no-store, must-revalidate'' (header_Set ''Content-Type'' ''application/json'' rsp)))
      in if \<not> healthy s then WriteHeader 503 rsp3 else rsp3)"
  by (simp add: writeHealthResponse_def redact_def Let_def)

lemma writeHealthResponse_same:
  assumes "same_but_error s s'" and "\<not> isLoopback r" and "CustomLabels h' = CustomLabels h"
  shows "writeHealthResponse h' r s' rsp = writeHealthResponse h r s rsp"
  unfolding writeHealthResponse_redact
  using assms(1,3) by (simp add: redact_same [OF assms(1,2)] same_but_error_def)

text \<open>Calls that return such statuses and do the same to the world.\<close>

definition same_answers :: "HealthStatus \<times> 'w \<Rightarrow> HealthStatus \<times> 'w \<Rightarrow> bool" where
  "same_answers a a' \<longleftrightarrow> same_but_error (fst a) (fst a') \<and> snd a' = snd a"

definition checker_sim :: "'w HealthChecker \<Rightarrow> 'w HealthChecker \<Rightarrow> bool" where
  "checker_sim c c' \<longleftrightarrow> (\<forall>ctx w. same_answers (chk_Check c ctx w) (chk_Check c' ctx w) \<and>
     same_answers (chk_CheckStorage c ctx w) (chk_CheckStorage c' ctx w))"

definition sys_sim :: "'w sys \<Rightarrow> 'w sys \<Rightarrow> bool" where
  "sys_sim sys sys' \<longleftrightarrow> (\<exists>t. sys' = sys\<lparr>sys_ErrorText := t\<rparr>)"

lemma sys_sim_fields [simp]:
  assumes "sys_sim sys sys'"
  shows "sys_Now sys' = sys_Now sys" "sys_RFC3339 sys' = sys_RFC3339 sys" "sys_DurationText sys' = sys_DurationText sys"
  using assms by (auto simp: sys_sim_def)

lemma gcs_calls_same:
  assumes "sys_sim sys sys'"
  shows "same_answers (gcs_CheckStorage sys h ctx w) (gcs_CheckStorage sys' h ctx w)"
    and "same_answers (gcs_CheckConnectivity sys h ctx w) (gcs_CheckConnectivity sys' h ctx w)"
    and "same_answers (gcs_CheckPermissions sys h ctx w) (gcs_CheckPermissions sys' h ctx w)"
  by (auto simp: same_answers_def same_but_error_def gcs_CheckStorage_def gcs_CheckConnectivity_def
      gcs_CheckPermissions_def sys_sim_fields [OF assms] split: option.split prod.split sum.split)

lemma then_check_same:
  assumes "\<And>w. same_answers (chk w) (chk' w)" and "\<And>w. same_answers (k w) (k' w)"
  shows "same_answers (then_check en chk k w) (then_check en chk' k' w)"
proof -
  obtain s w1 s' w1' where c: "chk w = (s, w1)" "chk' w = (s', w1')" by force
  with assms(1) [of w] have "w1' = w1" "hs_Status s' = hs_Status s" "same_but_error s s'"
    by (auto simp: same_answers_def same_but_error_def)
  with c assms(2) show ?thesis by (auto simp: then_check_def same_answers_def)
qed

lemma gcs_checker_sim:
  assumes "sys_sim sys sys'"
  shows "checker_sim (gcs_checker sys g) (gcs_checker sys' g)"
proof -
  have "same_answers (all_passed sys b w) (all_passed sys' b w)" for b w
    by (simp add: all_passed_def same_answers_def sys_sim_fields [OF assms])
  then have "same_answers (gcs_Check sys g ctx w) (gcs_Check sys' g ctx w)" for ctx w
    by (auto simp: gcs_Check_def sys_sim_fields [OF assms] Let_def same_answers_def [of "(_, _)"]
        intro!: then_check_same gcs_calls_same assms)
  with gcs_calls_same(1) [OF assms] show ?thesis by (simp add: checker_sim_def gcs_checker_def)
qed

lemma composite_loop_same:
  assumes "list_all2 (\<lambda>c c'. \<forall>ctx w. same_answers (run c ctx w) (run c' ctx w)) cs cs'" and "sys_sim sys sys'"
  shows "same_answers (composite_finish sys msg (composite_loop sys run what i m cs ctx w))
    (composite_finish sys' msg (composite_loop sys' run what i m cs' ctx w))"
  using assms(1)
proof (induction arbitrary: i m w rule: list_all2_induct)
  case Nil
  then show ?case by (simp add: composite_finish_def same_answers_def sys_sim_fields [OF assms(2)])
next
  case (Cons c cs c' cs')
  obtain s w1 s' w1' where r: "run c ctx w = (s, w1)" "run c' ctx w = (s', w1')" by force
  have "same_answers (run c ctx w) (run c' ctx w)" using Cons.hyps(1) by blast
  with r have s: "w1' = w1" "same_but_error s s'" by (auto simp: same_answers_def)
  then have f: "hs_Status s' = hs_Status s" "hs_Message s' = hs_Message s" "hs_Details s' = hs_Details s"
    "hs_Error s' = [] \<longleftrightarrow> hs_Error s = []" by (auto simp: same_but_error_def)
  show ?case
  proof (cases "healthy s")
    case True
    with r s f Cons.IH [of "i + 1" "add_details i (hs_Details s) m" w1] show ?thesis by (simp add: Let_def)
  next
    case False
    with r s(1) f show ?thesis
      by (simp add: composite_finish_def same_answers_def same_but_error_def sys_sim_fields [OF assms(2)] Let_def)
  qed
qed

definition composite_sim :: "'w CompositeHealthChecker \<Rightarrow> 'w CompositeHealthChecker \<Rightarrow> bool" where
  "composite_sim c c' \<longleftrightarrow> list_all2 checker_sim (cc_checkers c) (cc_checkers c')"

lemma composite_same:
  assumes "composite_sim c c'" and "sys_sim sys sys'"
  shows "same_answers (composite_Check sys c ctx w) (composite_Check sys' c' ctx w)"
    and "same_answers (composite_CheckStorage sys c ctx w) (composite_CheckStorage sys' c' ctx w)"
  unfolding composite_Check_def composite_CheckStorage_def
  using assms by (auto intro!: composite_loop_same elim!: list_all2_mono simp: composite_sim_def checker_sim_def)

definition handler_sim :: "'w HealthEndpointHandler \<Rightarrow> 'w HealthEndpointHandler \<Rightarrow> bool" where
  "handler_sim h h' \<longleftrightarrow>
     HealthPath h' = HealthPath h \<and> ReadinessPath h' = ReadinessPath h \<and> LivenessPath h' = LivenessPath h \<and>
     StartupPath h' = StartupPath h \<and> CustomLabels h' = CustomLabels h \<and> EnableDetailed h' = EnableDetailed h \<and>
     EnableMetrics h' = EnableMetrics h \<and> DetailedLocalOnly h' = DetailedLocalOnly h \<and> startTime h' = startTime h \<and>
     startupComplete h' = startupComplete h \<and> rel_option composite_sim (compositeChecker h) (compositeChecker h')"

lemma handler_sim_fields:
  assumes "handler_sim h h'"
  shows "HealthPath h' = HealthPath h" "ReadinessPath h' = ReadinessPath h" "LivenessPath h' = LivenessPath h"
    "StartupPath h' = StartupPath h" "CustomLabels h' = CustomLabels h" "EnableDetailed h' = EnableDetailed h"
    "EnableMetrics h' = EnableMetrics h" "DetailedLocalOnly h' = DetailedLocalOnly h" "startTime h' = startTime h"
    "startupComplete h' = startupComplete h" "rel_option composite_sim (compositeChecker h) (compositeChecker h')"
  using assms unfolding handler_sim_def by blast+

lemma own_status_same:
  "sys_sim sys sys' \<Longrightarrow> handler_sim h h' \<Longrightarrow> own_status sys' ok msg k v h' w = own_status sys ok msg k v h w"
  by (simp add: own_status_def uptime_def handler_sim_fields)

lemma probe_ctx_same: "sys_sim sys sys' \<Longrightarrow> probe_ctx sys' r w = probe_ctx sys r w"
  by (simp add: probe_ctx_def)

text \<open>
  A probe that writes a composite's answer: the two sides write the same response and leave
  the same world.
\<close>

lemma probe_same:
  assumes "same_answers a a'" and "\<not> isLoopback r" and "CustomLabels h' = CustomLabels h"
  shows "(case a' of (s, w) \<Rightarrow> (writeHealthResponse h' r s rsp, w)) = (case a of (s, w) \<Rightarrow> (writeHealthResponse h r s rsp, w))"
  using assms writeHealthResponse_same [of "fst a" "fst a'" r h' h rsp]
  by (cases a; cases a') (simp add: same_answers_def)

lemma serve_probes_same:
  assumes sys: "sys_sim sys sys'" and h: "handler_sim h h'" and r: "\<not> isLoopback r"
  shows "serveHealth sys' h' r rsp w = serveHealth sys h r rsp w"
    and "serveReadiness sys' h' r rsp w = serveReadiness sys h r rsp w"
    and "serveLiveness sys' h' r rsp w = serveLiveness sys h r rsp w"
proof -
  note f = handler_sim_fields [OF h] and o = own_status_same [OF sys h] and p = probe_ctx_same [OF sys]
  note wr = writeHealthResponse_same [OF same_but_error_refl r f(5)]
  show "serveLiveness sys' h' r rsp w = serveLiveness sys h r rsp w"
    by (simp add: serveLiveness_def o wr)
  show "serveHealth sys' h' r rsp w = serveHealth sys h r rsp w"
  proof (cases "compositeChecker h")
    case None
    with f(11) show ?thesis by (simp add: serveHealth_def o wr)
  next
    case (Some c)
    with f(11) obtain c' where c': "compositeChecker h' = Some c'" "composite_sim c c'" by (auto simp: option_rel_Some1)
    show ?thesis
      using probe_same [OF composite_same(1) [OF c'(2) sys, of "probe_ctx sys r w" w] r f(5), of rsp] Some c'(1)
      by (simp add: serveHealth_def p)
  qed
  show "serveReadiness sys' h' r rsp w = serveReadiness sys h r rsp w"
  proof (cases "startupComplete h")
    case False
    with f(10) show ?thesis by (simp add: serveReadiness_def o wr)
  next
    case True
    show ?thesis
    proof (cases "compositeChecker h")
      case None
      with f(11) True f(10) show ?thesis by (simp add: serveReadiness_def o wr)
    next
      case (Some c)
      with f(11) obtain c' where c': "compositeChecker h' = Some c'" "composite_sim c c'" by (auto simp: option_rel_Some1)
      show ?thesis
        using probe_same [OF composite_same(2) [OF c'(2) sys, of "probe_ctx sys r w" w] r f(5), of rsp] Some c'(1) True f(10)
        by (simp add: serveReadiness_def p)
    qed
  qed
qed

lemma handler_sim_complete: "handler_sim h h' \<Longrightarrow> handler_sim (h\<lparr>startupComplete := b\<rparr>) (h'\<lparr>startupComplete := b\<rparr>)"
  by (auto simp: handler_sim_def)

lemma tryCompleteStartup_same:
  assumes sys: "sys_sim sys sys'" and h: "handler_sim h h'"
  shows "\<exists>ok h1 h1' w1. tryCompleteStartup sys ctx h w = (ok, h1, w1) \<and> tryCompleteStartup sys' ctx h' w = (ok, h1', w1) \<and>
    handler_sim h1 h1'"
proof (cases "compositeChecker h")
  case None
  with handler_sim_fields(11) [OF h] have "compositeChecker h' = None" by simp
  with None handler_sim_complete [OF h, of True] show ?thesis by (auto simp: tryCompleteStartup_def)
next
  case (Some c)
  with handler_sim_fields(11) [OF h] obtain c' where c': "compositeChecker h' = Some c'" "composite_sim c c'"
    by (auto simp: option_rel_Some1)
  let ?ctx = "context_WithTimeout ctx defaultHealthTimeout (sys_Now sys w)"
  have "same_answers (composite_CheckStorage sys c ?ctx w) (composite_CheckStorage sys' c' ?ctx w)"
    by (rule composite_same(2) [OF c'(2) sys])
  then obtain s s' w1 where a: "composite_CheckStorage sys c ?ctx w = (s, w1)" "composite_CheckStorage sys' c' ?ctx w = (s', w1)"
    "hs_Status s' = hs_Status s"
    unfolding same_answers_def same_but_error_def by (metis prod.collapse)
  show ?thesis
  proof (cases "healthy s")
    case True
    with a Some c' sys handler_sim_complete [OF h, of True] show ?thesis by (auto simp: tryCompleteStartup_def)
  next
    case False
    with a Some c' sys h show ?thesis by (auto simp: tryCompleteStartup_def)
  qed
qed

lemma serveStartup_same:
  assumes sys: "sys_sim sys sys'" and h: "handler_sim h h'" and r: "\<not> isLoopback r"
  shows "\<exists>out h1 h1' w1. serveStartup sys h r rsp w = (out, h1, w1) \<and> serveStartup sys' h' r rsp w = (out, h1', w1) \<and>
    handler_sim h1 h1'"
proof -
  obtain ok h1 h1' w1 where t: "(if \<not> startupComplete h then tryCompleteStartup sys (rq_ctx r) h w else (True, h, w)) = (ok, h1, w1)"
    "(if \<not> startupComplete h' then tryCompleteStartup sys' (rq_ctx r) h' w else (True, h', w)) = (ok, h1', w1)" "handler_sim h1 h1'"
    using tryCompleteStartup_same [OF sys h, of "rq_ctx r" w] h handler_sim_fields(10) [OF h] by (cases "startupComplete h") auto
  note f = handler_sim_fields [OF t(3)]
  show ?thesis
    using writeHealthResponse_same [OF same_but_error_refl r f(5)] own_status_same [OF sys t(3)] t
    unfolding serveStartup_def Let_def by simp
qed

text \<open>One request from elsewhere, to a handler that keeps its detailed endpoints local.\<close>

lemma ServeHTTP_same:
  assumes sys: "sys_sim sys sys'" and h: "handler_sim h h'" and r: "\<not> isLoopback r" and d: "DetailedLocalOnly h \<noteq> Some False"
  shows "\<exists>out h1 h1' w1. ServeHTTP b sys e nxt h r rsp w = (out, h1, w1) \<and> ServeHTTP b sys' e nxt h' r rsp w = (out, h1', w1) \<and>
    handler_sim h1 h1' \<and> DetailedLocalOnly h1 = DetailedLocalOnly h"
proof -
  note f = handler_sim_fields [OF h] and s = serve_probes_same [OF sys h r]
  have na: "\<not> isDetailedAllowed h r" "\<not> isDetailedAllowed h' r" using r d f(8) by (simp_all add: isDetailedAllowed_def isLoopback_def)
  obtain out h1 h1' w1 where st: "serveStartup sys h r rsp w = (out, h1, w1)" "serveStartup sys' h' r rsp w = (out, h1', w1)"
    "handler_sim h1 h1'"
    using serveStartup_same [OF sys h r] by blast
  have "DetailedLocalOnly h1 = DetailedLocalOnly h"
    using st(1) by (auto simp: serveStartup_def tryCompleteStartup_def Let_def split: if_splits option.splits prod.splits)
  with st h show ?thesis
    by (simp add: ServeHTTP_def f s na Let_def split: prod.split)
qed

fun serve_all ::
  "build_vars \<Rightarrow> 'w sys \<Rightarrow> (body, 'w) handler \<Rightarrow> (gerror option \<times> http_Request) list \<Rightarrow> 'w HealthEndpointHandler \<Rightarrow> 'w
     \<Rightarrow> (gerror option \<times> body http_Response) list \<times> 'w" where
  "serve_all b sys nxt [] h w = ([], w)"
| "serve_all b sys nxt ((e, r) # reqs) h w =
     (case ServeHTTP b sys e nxt h r no_response w of
        (out, h1, w1) \<Rightarrow> map_prod ((#) out) id (serve_all b sys nxt reqs h1 w1))"

lemma serve_all_same:
  "sys_sim sys sys' \<Longrightarrow> handler_sim h h' \<Longrightarrow> \<forall>(e, r) \<in> set reqs. \<not> isLoopback r \<Longrightarrow> DetailedLocalOnly h \<noteq> Some False \<Longrightarrow>
   serve_all b sys' nxt reqs h' w = serve_all b sys nxt reqs h w"
proof (induction reqs arbitrary: h h' w)
  case (Cons er reqs)
  obtain e r where er: "er = (e, r)" by force
  with Cons.prems obtain out h1 h1' w1 where s: "ServeHTTP b sys e nxt h r no_response w = (out, h1, w1)"
    "ServeHTTP b sys' e nxt h' r no_response w = (out, h1', w1)" "handler_sim h1 h1'" "DetailedLocalOnly h1 = DetailedLocalOnly h"
    using ServeHTTP_same [of sys sys' h h' r b e nxt no_response w] by auto
  have "\<forall>(e, r) \<in> set reqs. \<not> isLoopback r" using Cons.prems(3) by simp
  with Cons.IH [OF Cons.prems(1) s(3), of w1] Cons.prems(4) s er show ?case by simp
qed simp

text \<open>
  C7. No error text leaves the machine: take the same configured handler over any number of
  bucket checkers, once with one rendering of errors and once with any other. As long as the
  detailed endpoints are kept local (the default), every sequence of requests from
  non-loopback peers gets the same responses, status lines, headers and bodies, byte for
  byte. So nothing an error says, beyond its presence, can be learned from outside.
\<close>

theorem error_text_never_leaves:
  assumes "Provision b now (h\<lparr>checkers := map (gcs_checker sys) gs\<rparr>) = Inr p"
    and "Provision b now (h\<lparr>checkers := map (gcs_checker (sys\<lparr>sys_ErrorText := t\<rparr>)) gs\<rparr>) = Inr p'"
    and "compositeChecker h = None" and "DetailedLocalOnly h \<noteq> Some False"
    and "\<forall>(e, r) \<in> set reqs. \<not> isLoopback r"
  shows "fst (serve_all b (sys\<lparr>sys_ErrorText := t\<rparr>) nxt reqs p' w) = fst (serve_all b sys nxt reqs p w)"
proof -
  let ?sys = "sys\<lparr>sys_ErrorText := t\<rparr>"
  have sim: "sys_sim sys ?sys" unfolding sys_sim_def by (rule exI, rule refl)
  have "composite_sim (NewCompositeHealthChecker (map (gcs_checker sys) gs) cfg)
      (NewCompositeHealthChecker (map (gcs_checker ?sys) gs) cfg)" for cfg
    by (simp add: composite_sim_def NewCompositeHealthChecker_def list_all2_conv_all_nth gcs_checker_sim [OF sim])
  then have "handler_sim p p'" using assms(1-3) by (auto simp: Provision_def handler_sim_def Let_def split: option.splits)
  moreover have "DetailedLocalOnly p \<noteq> Some False"
    using assms(1,4) by (auto simp: Provision_def Let_def split: option.splits)
  ultimately show ?thesis using serve_all_same [OF sim _ assms(5)] by simp
qed

lemma Provision_unlabelled:
  assumes "CustomLabels h = []" and "validateHeaderValue (bv_Version b)"
  shows "\<exists>p. Provision b now h = Inr p \<and> compositeChecker p =
      (if checkers h \<noteq> [] then Some (NewCompositeHealthChecker (checkers h) (Some composite_config)) else compositeChecker h) \<and>
    checkers p = checkers h \<and> startupComplete p = (checkers h = []) \<and> EnableDetailed p = EnableDetailed h \<and>
    HealthPath p = default_path (HealthPath h) ''/health'' \<and> DetailedLocalOnly p = (case DetailedLocalOnly h of None \<Rightarrow> Some True | Some v \<Rightarrow> Some v)"
  using assms by (simp add: Provision_def default_label_def validateHeaderValue_def Let_def)

lemma sample_build_valid: "validateHeaderValue (bv_Version sample_build)"
  by (simp add: sample_build_def validateHeaderValue_def)

theorem error_text_never_leaves_witness:
  "\<exists>p p'. let g = NewGCSHealthChecker (Some (sample_client (Some Canceled))) ''b'' None; sys' = sample_sys\<lparr>sys_ErrorText := \<lambda>_. ''secret''\<rparr>;
       reqs = [(None, remote_request ''/health''), (None, remote_request ''/startup'')]
     in Provision sample_build 0 (new_handler\<lparr>checkers := [gcs_checker sample_sys g]\<rparr>) = Inr p \<and>
        Provision sample_build 0 (new_handler\<lparr>checkers := [gcs_checker sys' g]\<rparr>) = Inr p' \<and>
        fst (serve_all sample_build sys' (\<lambda>rsp w. ((None, rsp), w)) reqs p' 0) =
        fst (serve_all sample_build sample_sys (\<lambda>rsp w. ((None, rsp), w)) reqs p 0)"
proof -
  let ?g = "NewGCSHealthChecker (Some (sample_client (Some Canceled))) ''b'' None"
  let ?sys = "sample_sys\<lparr>sys_ErrorText := \<lambda>_. ''secret''\<rparr>"
  let ?h = "\<lambda>sys. new_handler\<lparr>checkers := map (gcs_checker sys) [?g]\<rparr>"
  have l: "CustomLabels (?h sys) = []" for sys by (simp add: new_handler_def)
  obtain p p' where p: "Provision sample_build 0 (?h sample_sys) = Inr p" "Provision sample_build 0 (?h ?sys) = Inr p'"
    using Provision_unlabelled [OF l sample_build_valid] by blast
  have "fst (serve_all sample_build ?sys (\<lambda>rsp w. ((None, rsp), w)) [(None, remote_request ''/health''), (None, remote_request ''/startup'')] p' 0) =
      fst (serve_all sample_build sample_sys (\<lambda>rsp w. ((None, rsp), w)) [(None, remote_request ''/health''), (None, remote_request ''/startup'')] p 0)"
    by (rule error_text_never_leaves [OF p]) (simp_all add: new_handler_def)
  with p show ?thesis by (simp add: Let_def)
qed

text \<open>
  The detailed endpoint does not redact: with \<open>detailed_local_only\<close> switched off, a request
  from another machine to a handler whose storage check fails gets the raw error of the
  failing checker in the \<open>storage\<close> object of the answer, although the documentation promises
  that health responses to non-loopback clients never carry it.
\<close>

lemma detailed_endpoint_not_redacted:
  assumes "EnableDetailed h" and "DetailedLocalOnly h = Some False" and "rq_Path r = HealthPath h @ ''/detailed''"
    and "HealthPath h @ ''/detailed'' \<notin> {ReadinessPath h, LivenessPath h, StartupPath h}"
    and "compositeChecker h = Some c" and "composite_CheckStorage sys c (probe_ctx sys r w) w = (s, w1)"
  shows "\<exists>rsp fields. ServeHTTP b sys None nxt h r no_response w = ((None, rsp), h, w1) \<and>
    rs_body rsp = [ObjectBody fields] \<and> (''storage'', JStatus s) \<in> set fields"
proof -
  have "ServeHTTP b sys None nxt h r no_response w =
      (case serveDetailedHealth b sys h r no_response w of (rsp', w') \<Rightarrow> ((None, rsp'), h, w'))"
    using assms(1-4) by (simp add: ServeHTTP_def isDetailedAllowed_def Let_def)
  then show ?thesis using assms(5,6) by (simp add: serveDetailedHealth_def no_response_def Let_def)
qed

lemma detailed_endpoint_not_redacted_witness:
  "\<exists>p rsp fields s w1. let g = gcs_checker sample_sys (NewGCSHealthChecker (Some (sample_client (Some Canceled))) ''b'' None) in
     Provision sample_build 0 (new_handler\<lparr>checkers := [g], EnableDetailed := True, DetailedLocalOnly := Some False\<rparr>) = Inr p \<and>
     ServeHTTP sample_build sample_sys None (\<lambda>rsp w. ((None, rsp), w)) p (remote_request ''/health/detailed'') no_response 0
       = ((None, rsp), p, w1) \<and>
     rs_body rsp = [ObjectBody fields] \<and> (''storage'', JStatus s) \<in> set fields \<and> hs_Error s = ''failed to access storage: boom''"
proof -
  let ?g = "gcs_checker sample_sys (NewGCSHealthChecker (Some (sample_client (Some Canceled))) ''b'' None)"
  let ?h = "new_handler\<lparr>checkers := [?g], EnableDetailed := True, DetailedLocalOnly := Some False\<rparr>"
  let ?c = "NewCompositeHealthChecker [?g] (Some composite_config)"
  let ?r = "remote_request ''/health/detailed''"
  define p where "p = (case Provision sample_build 0 ?h of Inr q \<Rightarrow> q | Inl _ \<Rightarrow> ?h)"
  have p: "Provision sample_build 0 ?h = Inr p" "compositeChecker p = Some ?c" "EnableDetailed p" "DetailedLocalOnly p = Some False"
    "HealthPath p = ''/health''" "ReadinessPath p = ''/ready''" "LivenessPath p = ''/live''" "StartupPath p = ''/startup''"
    by (simp_all add: p_def Provision_def new_handler_def sample_build_def default_label_def default_path_def validateHeaderValue_def Let_def)
  have "\<exists>s w1. composite_CheckStorage sample_sys ?c (probe_ctx sample_sys ?r 0) 0 = (s, w1) \<and> hs_Error s = ''failed to access storage: boom''"
    by (simp add: composite_CheckStorage_def composite_finish_def NewCompositeHealthChecker_def gcs_checker_def gcs_CheckStorage_def
        NewGCSHealthChecker_def sample_client_def sample_sys_def Let_def)
  then obtain s w1 where s: "composite_CheckStorage sample_sys ?c (probe_ctx sample_sys ?r 0) 0 = (s, w1)"
    "hs_Error s = ''failed to access storage: boom''" by blast
  have path: "rq_Path ?r = HealthPath p @ ''/detailed''" using p(5) by (simp add: remote_request_def)
  from detailed_endpoint_not_redacted [OF p(3,4) path _ p(2) s(1)] p(1,5-8) s(2) show ?thesis
    by (simp add: Let_def) blast
qed

text \<open>
  Without registered checkers every probe says yes: a handler that is configured and
  provisioned but never given a checker (nothing in the program registers one) answers 200 on
  its health, readiness, liveness and startup paths in every state of the world, whatever the
  bucket is doing, and calls nothing.
\<close>

lemma no_checkers_always_healthy:
  assumes "Provision b now h = Inr p" and "checkers h = []" and "compositeChecker h = None"
    and "rq_Path r \<in> {HealthPath p, ReadinessPath p, LivenessPath p, StartupPath p}"
  shows "\<exists>rsp h'. ServeHTTP b sys None nxt p r no_response w = ((None, rsp), h', w) \<and> rs_code rsp = Some 200 \<and>
    header_Get ''X-Health-Status'' rsp = Some ''healthy''"
proof -
  have p: "compositeChecker p = None" "startupComplete p"
    using assms(1-3) by (auto simp: Provision_def Let_def split: option.splits)
  have none: "rs_code (no_response :: body http_Response) = None" by (simp add: no_response_def)
  have own: "rs_code (writeHealthResponse p r (own_status sys True m k v p w) no_response) = Some 200"
    "header_Get ''X-Health-Status'' (writeHealthResponse p r (own_status sys True m k v p w) no_response) = Some ''healthy''" for m k v
    by (simp_all add: writeHealthResponse_shape [OF none] own_status_def)
  from assms(4) p own show ?thesis
    by (auto simp: ServeHTTP_def serveHealth_def serveReadiness_def serveLiveness_def serveStartup_def Let_def)
qed

lemma no_checkers_always_healthy_witness:
  "\<exists>p rsp h'. Provision sample_build 0 new_handler = Inr p \<and>
     ServeHTTP sample_build sample_sys None (\<lambda>rsp w. ((None, rsp), w)) p (remote_request ''/health'') no_response 0 = ((None, rsp), h', 0) \<and>
     rs_code rsp = Some 200"
proof -
  obtain p where p: "Provision sample_build 0 new_handler = Inr p" "HealthPath p = ''/health''"
    using Provision_unlabelled [of new_handler sample_build 0] sample_build_valid by (auto simp: new_handler_def default_path_def)
  from no_checkers_always_healthy [OF p(1), of "remote_request ''/health''"] p show ?thesis
    by (simp add: new_handler_def remote_request_def) blast
qed

subsection \<open>Startup and readiness\<close>

text \<open>
  The life of a provisioned handler: requests are served and checkers added, in any order. The
  state carries a ghost flag: some startup probe has seen the storage of all registered
  buckets healthy.
\<close>

record 'w hlife =
  l_handler :: "'w HealthEndpointHandler"
  l_world :: 'w
  l_verified :: bool

definition startup_verifies :: "'w sys \<Rightarrow> 'w HealthEndpointHandler \<Rightarrow> http_Request \<Rightarrow> 'w \<Rightarrow> bool" where
  "startup_verifies sys h r w \<longleftrightarrow> rq_Path r = StartupPath h \<and>
     (\<exists>c. compositeChecker h = Some c \<and>
        healthy (fst (composite_CheckStorage sys c (context_WithTimeout (rq_ctx r) defaultHealthTimeout (sys_Now sys w)) w)))"

inductive life_step :: "build_vars \<Rightarrow> 'w sys \<Rightarrow> 'w hlife \<Rightarrow> 'w hlife \<Rightarrow> bool" for b sys where
  serve: "ServeHTTP b sys e nxt (l_handler s) r rsp (l_world s) = (out, h', w') \<Longrightarrow>
     life_step b sys s \<lparr>l_handler = h', l_world = w', l_verified = (l_verified s \<or> startup_verifies sys (l_handler s) r (l_world s))\<rparr>"
| add: "life_step b sys s (s\<lparr>l_handler := AddHealthChecker c (l_handler s)\<rparr>)"
| elsewhere: "life_step b sys s (s\<lparr>l_world := w'\<rparr>)"

inductive life_reach :: "build_vars \<Rightarrow> 'w sys \<Rightarrow> 'w hlife \<Rightarrow> 'w hlife \<Rightarrow> bool" for b sys s0 where
  start: "life_reach b sys s0 s0"
| step: "life_reach b sys s0 s \<Longrightarrow> life_step b sys s s' \<Longrightarrow> life_reach b sys s0 s'"

definition life_inv :: "'w hlife \<Rightarrow> bool" where
  "life_inv s \<longleftrightarrow> compositeChecker (l_handler s) \<noteq> None \<and> (startupComplete (l_handler s) \<longrightarrow> l_verified s)"

lemma ServeHTTP_handler:
  assumes "ServeHTTP b sys e nxt h r rsp w = (out, h', w')"
  shows "h' = h \<or> h' = h\<lparr>startupComplete := True\<rparr> \<and> (startup_verifies sys h r w \<or> compositeChecker h = None \<or> startupComplete h)"
proof (cases "rq_Path r \<in> {HealthPath h, ReadinessPath h, LivenessPath h} \<or> rq_Path r \<noteq> StartupPath h")
  case True
  with assms have "h' = h" by (auto simp: ServeHTTP_def Let_def split: if_splits prod.splits)
  then show ?thesis by simp
next
  case False
  with assms have st: "\<exists>out. serveStartup sys h r rsp w = (out, h', w')" by (auto simp: ServeHTTP_def Let_def split: prod.splits)
  show ?thesis
  proof (cases "startupComplete h")
    case True
    with st have "h' = h" by (auto simp: serveStartup_def Let_def)
    then show ?thesis by simp
  next
    case incomplete: False
    show ?thesis
    proof (cases "compositeChecker h")
      case None
      with st incomplete show ?thesis by (auto simp: serveStartup_def tryCompleteStartup_def Let_def)
    next
      case (Some c)
      with st incomplete False show ?thesis
        by (auto simp: serveStartup_def tryCompleteStartup_def startup_verifies_def Let_def split: prod.splits if_splits)
    qed
  qed
qed

lemma life_inv_step:
  assumes "life_step b sys s s'" and "life_inv s"
  shows "life_inv s' \<and> (startupComplete (l_handler s) \<longrightarrow> startupComplete (l_handler s'))"
  using assms
proof (cases rule: life_step.cases)
  case (serve e nxt r rsp out h' w')
  from ServeHTTP_handler [OF serve(2)] assms(2) serve(1) show ?thesis by (auto simp: life_inv_def)
next
  case (add c)
  with assms(2) show ?thesis by (cases c) (auto simp: life_inv_def AddHealthChecker_def Let_def)
next
  case (elsewhere w')
  with assms(2) show ?thesis by (auto simp: life_inv_def)
qed

lemma life_inv_reach: "life_reach b sys s0 s \<Longrightarrow> life_inv s0 \<Longrightarrow> life_inv s"
  by (induction rule: life_reach.induct) (auto dest: life_inv_step)

text \<open>
  C9. Ready means started and reachable: for a handler provisioned with at least one checker,
  at any later moment, after any requests and added checkers, the readiness endpoint answers
  200 only if some startup probe has already seen the storage of every registered bucket
  healthy, and the storage of every bucket registered now is healthy at that very moment;
  and if it is not, the answer is 503.
\<close>

theorem readiness_requires_startup:
  assumes "Provision b now h = Inr p" and "checkers h \<noteq> []"
    and "life_reach b sys \<lparr>l_handler = p, l_world = w0, l_verified = False\<rparr> s"
  shows "\<exists>c. compositeChecker (l_handler s) = Some c \<and>
    rs_code (fst (serveReadiness sys (l_handler s) r no_response (l_world s))) =
      Some (if startupComplete (l_handler s) \<and> healthy (fst (composite_CheckStorage sys c (probe_ctx sys r (l_world s)) (l_world s)))
            then 200 else 503) \<and>
    (startupComplete (l_handler s) \<longrightarrow> l_verified s)"
proof -
  have "life_inv \<lparr>l_handler = p, l_world = w0, l_verified = False\<rparr>"
    using assms(1,2) by (auto simp: life_inv_def Provision_def Let_def split: option.splits)
  from life_inv_reach [OF assms(3) this] obtain c where c: "compositeChecker (l_handler s) = Some c"
    and v: "startupComplete (l_handler s) \<longrightarrow> l_verified s" by (auto simp: life_inv_def)
  have none: "rs_code (no_response :: body http_Response) = None" by (simp add: no_response_def)
  from c v show ?thesis
    by (auto simp: serveReadiness_def own_status_def writeHealthResponse_shape(1) [OF none] split: prod.splits)
qed

theorem readiness_requires_startup_witness:
  "\<exists>p. Provision sample_build 0 (new_handler\<lparr>checkers := [sample_checker None]\<rparr>) = Inr p \<and>
     rs_code (fst (serveReadiness sample_sys p (remote_request ''/ready'') no_response 0)) = Some 503"
proof -
  let ?h = "new_handler\<lparr>checkers := [sample_checker None]\<rparr>"
  have l: "CustomLabels ?h = []" by (simp add: new_handler_def)
  obtain p where p: "Provision sample_build 0 ?h = Inr p" "startupComplete p = (checkers ?h = [])"
    using Provision_unlabelled [OF l sample_build_valid] by blast
  from readiness_requires_startup [OF p(1) _ life_reach.start, where sys = sample_sys and r = "remote_request ''/ready''" and ?w0.0 = 0] p show ?thesis
    by simp
qed

text \<open>The response tells the status, redacted where it has to be.\<close>

definition tells :: "http_Request \<Rightarrow> HealthStatus \<Rightarrow> body http_Response \<Rightarrow> bool" where
  "tells r s rsp \<longleftrightarrow>
     rs_code rsp = Some (if healthy s then 200 else 503) \<and>
     header_Get ''X-Health-Status'' rsp = Some (hs_Status s) \<and>
     rs_body rsp = [StatusBody (if hs_Error s = [] \<or> isLoopback r then s else s\<lparr>hs_Error := redacted\<rparr>)]"

lemma writeHealthResponse_tells: "tells r s (writeHealthResponse h r s no_response)"
proof -
  have "rs_code (no_response :: body http_Response) = None" "rs_body (no_response :: body http_Response) = []"
    by (simp_all add: no_response_def)
  with writeHealthResponse_shape [of "no_response :: body http_Response" h r s] show ?thesis
    by (simp add: tells_def redact_def)
qed

lemma own_status_healthy [simp]: "healthy (own_status sys ok msg k v h w) \<longleftrightarrow> ok" "hs_Error (own_status sys ok msg k v h w) = []"
  by (simp_all add: own_status_def)

lemma serveHealth_tells:
  assumes "\<forall>c. compositeChecker h = Some c \<longrightarrow> composite_inv c"
  shows "\<exists>s. tells r s (fst (serveHealth sys h r no_response w)) \<and>
    (\<forall>c. compositeChecker h = Some c \<longrightarrow> s = fst (composite_Check sys c (probe_ctx sys r w) w)) \<and>
    (compositeChecker h = None \<longrightarrow> healthy s) \<and> (healthy s \<longleftrightarrow> hs_Error s = [])"
proof (cases "compositeChecker h")
  case None
  let ?s = "own_status sys True ''Health endpoint is working'' ''service'' ''caddy-fs-gcs'' h w"
  have "fst (serveHealth sys h r no_response w) = writeHealthResponse h r ?s no_response"
    using None by (simp add: serveHealth_def)
  with None writeHealthResponse_tells [of r ?s h] show ?thesis by (intro exI [of _ ?s]) simp
next
  case (Some c)
  let ?s = "fst (composite_Check sys c (probe_ctx sys r w) w)"
  have "composite_inv c" using assms Some by simp
  from composite_health.check_unhealthy_iff_error [OF this, of sys "probe_ctx sys r w" w]
  have "healthy ?s \<longleftrightarrow> hs_Error ?s = []" by blast
  moreover have "fst (serveHealth sys h r no_response w) = writeHealthResponse h r ?s no_response"
    using Some by (simp add: serveHealth_def split: prod.split)
  ultimately show ?thesis using Some writeHealthResponse_tells [of r ?s h] by (intro exI [of _ ?s]) simp
qed

lemma serveReadiness_tells:
  "\<exists>s. tells r s (fst (serveReadiness sys h r no_response w)) \<and>
    (healthy s \<longleftrightarrow> startupComplete h \<and>
      (\<forall>c. compositeChecker h = Some c \<longrightarrow> healthy (fst (composite_CheckStorage sys c (probe_ctx sys r w) w))))"
proof -
  define s where "s = (if \<not> startupComplete h
    then own_status sys False ''Service is still starting up'' ''startup'' ''in_progress'' h w
    else case compositeChecker h of Some c \<Rightarrow> fst (composite_CheckStorage sys c (probe_ctx sys r w) w)
    | None \<Rightarrow> own_status sys True ''Service is ready'' ''readiness'' ''ready'' h w)"
  have "fst (serveReadiness sys h r no_response w) = writeHealthResponse h r s no_response"
    by (simp add: serveReadiness_def s_def split: option.split prod.split)
  then show ?thesis using writeHealthResponse_tells [of r s h]
    by (intro exI [of _ s]) (simp add: s_def split: option.split)
qed

lemma serveStartup_tells:
  assumes "serveStartup sys h r no_response w = (rsp, h', w')"
  shows "\<exists>s. tells r s rsp \<and> (healthy s \<longleftrightarrow> startupComplete h')"
proof -
  obtain ok h1 w1 where t: "(if \<not> startupComplete h then tryCompleteStartup sys (rq_ctx r) h w else (True, h, w)) = (ok, h1, w1)"
    by (metis prod.exhaust)
  have ok: "startupComplete h1 = ok"
    using t by (auto simp: tryCompleteStartup_def split: if_splits option.splits prod.splits)
  let ?s = "own_status sys ok (if ok then ''Startup check'' else ''Service is still starting up'')
    ''startup_complete'' (if ok then ''true'' else ''false'') h1 w1"
  have "rsp = writeHealthResponse h1 r ?s no_response" "h' = h1" using assms t by (auto simp: serveStartup_def Let_def)
  with ok writeHealthResponse_tells [of r ?s h1] show ?thesis by (intro exI [of _ ?s]) simp
qed

text \<open>
  C35. Status line, header and body agree, for every client, local or remote, on the four probe paths
  (health, readiness, liveness, startup), with or without checkers. Each response has one status
  behind it: the code is 200 if that status is healthy and 503 if not, the \<open>X-Health-Status\<close>
  header repeats it even if a custom label tries to use that name, and the body is that status,
  with any error text replaced by the fixed note for clients elsewhere. And the status is the
  truth: on the health path it is what the checkers report, with an error text exactly if it is
  unhealthy; readiness is healthy exactly if startup is complete and the storage is healthy now;
  liveness always is; and startup is exactly if the handler is then marked as started.
\<close>

theorem health_response_truthful:
  assumes "rq_Path r \<in> {HealthPath h, ReadinessPath h, LivenessPath h, StartupPath h}"
    and "\<forall>c. compositeChecker h = Some c \<longrightarrow> composite_inv c"
  shows "\<exists>s rsp h' w'. ServeHTTP b sys encErr next h r no_response w = ((encErr, rsp), h', w') \<and>
    rs_code rsp = Some (if healthy s then 200 else 503) \<and>
    header_Get ''X-Health-Status'' rsp = Some (hs_Status s) \<and>
    rs_body rsp = [StatusBody (if hs_Error s = [] \<or> isLoopback r then s else s\<lparr>hs_Error := redacted\<rparr>)] \<and>
    (if rq_Path r = HealthPath h then
       (\<forall>c. compositeChecker h = Some c \<longrightarrow> s = fst (composite_Check sys c (probe_ctx sys r w) w)) \<and>
       (compositeChecker h = None \<longrightarrow> healthy s) \<and> (healthy s \<longleftrightarrow> hs_Error s = [])
     else if rq_Path r = ReadinessPath h then
       healthy s \<longleftrightarrow> startupComplete h \<and>
         (\<forall>c. compositeChecker h = Some c \<longrightarrow> healthy (fst (composite_CheckStorage sys c (probe_ctx sys r w) w)))
     else if rq_Path r = LivenessPath h then healthy s
     else healthy s \<longleftrightarrow> startupComplete h')"
proof -
  obtain rsp1 w1 rsp2 w2 rsp3 h3 w3 where served: "serveHealth sys h r no_response w = (rsp1, w1)"
    "serveReadiness sys h r no_response w = (rsp2, w2)" "serveStartup sys h r no_response w = (rsp3, h3, w3)"
    by (metis prod.exhaust)
  consider (health) "rq_Path r = HealthPath h"
    | (ready) "rq_Path r \<noteq> HealthPath h" "rq_Path r = ReadinessPath h"
    | (live) "rq_Path r \<noteq> HealthPath h" "rq_Path r \<noteq> ReadinessPath h" "rq_Path r = LivenessPath h"
    | (startup) "rq_Path r \<noteq> HealthPath h" "rq_Path r \<noteq> ReadinessPath h" "rq_Path r \<noteq> LivenessPath h" "rq_Path r = StartupPath h"
    using assms(1) by blast
  then show ?thesis
  proof cases
    case health
    then have "ServeHTTP b sys encErr next h r no_response w = ((encErr, rsp1), h, w1)"
      using served(1) by (simp add: ServeHTTP_def Let_def)
    with health serveHealth_tells [OF assms(2), of r sys w] served(1) show ?thesis by (auto simp: tells_def)
  next
    case ready
    then have "ServeHTTP b sys encErr next h r no_response w = ((encErr, rsp2), h, w2)"
      using served(2) by (simp add: ServeHTTP_def Let_def)
    with ready serveReadiness_tells [of r sys h w] served(2) show ?thesis by (auto simp: tells_def)
  next
    case live
    let ?s = "own_status sys True ''Service is alive'' ''liveness'' ''alive'' h w"
    have "ServeHTTP b sys encErr next h r no_response w = ((encErr, writeHealthResponse h r ?s no_response), h, w)"
      using live by (simp add: ServeHTTP_def serveLiveness_def Let_def)
    with live writeHealthResponse_tells [of r ?s h] show ?thesis
      by (intro exI [of _ ?s] exI [of _ "writeHealthResponse h r ?s no_response"] exI [of _ h] exI [of _ w]) (simp add: tells_def)
  next
    case startup
    then have "ServeHTTP b sys encErr next h r no_response w = ((encErr, rsp3), h3, w3)"
      using served(3) by (simp add: ServeHTTP_def Let_def)
    with startup serveStartup_tells [OF served(3)] show ?thesis by (auto simp: tells_def)
  qed
qed

theorem health_response_truthful_witness:
  "\<exists>s rsp h' w'. ServeHTTP sample_build sample_sys None (\<lambda>rsp w. ((None, rsp), w))
       (AddHealthChecker (Some (sample_checker (Some Canceled))) (new_handler\<lparr>CustomLabels := [(''status'', ''fine'')], HealthPath := ''/health''\<rparr>))
       (remote_request ''/health'') no_response 0 = ((None, rsp), h', w') \<and>
     header_Get ''X-Health-Status'' rsp = Some (hs_Status s) \<and>
     rs_code rsp = Some (if healthy s then 200 else 503)"
proof -
  let ?c = "NewCompositeHealthChecker [sample_checker (Some Canceled)] (Some composite_config)"
  let ?h = "AddHealthChecker (Some (sample_checker (Some Canceled)))
    (new_handler\<lparr>CustomLabels := [(''status'', ''fine'')], HealthPath := ''/health''\<rparr>)"
  have "composite_inv ?c" by (simp add: composite_inv_def NewCompositeHealthChecker_def sample_checker_def gcs_checker_wf)
  moreover have "compositeChecker ?h = Some ?c" "HealthPath ?h = ''/health''"
    by (simp_all add: AddHealthChecker_def new_handler_def Let_def)
  ultimately show ?thesis
    using health_response_truthful [of "remote_request ''/health''" ?h sample_build sample_sys None
        "\<lambda>rsp w. ((None, rsp), w)" 0]
    by (auto simp: remote_request_def simp del: split_paired_Ex)
qed

end
