(* ===== verification/Validation.thy ===== *)
theory Validation
  imports Go_Path Go_Net "HOL-Library.Multiset"
begin

section \<open>Configuration validation\<close>

text \<open>
  Model of \<^verbatim>\<open>pkg/validation/config.go\<close>: the rule table with its twelve rules, \<open>ValidateField\<close>,
  \<open>ValidateConfig\<close>, the ready-made rule sets and the suggestions. A rule is a function from a
  value to the text of its error (\<^const>\<open>None\<close> is \<^verbatim>\<open>nil\<close>). Three library parsers whose result
  the rules only pass on (\<^verbatim>\<open>url.Parse\<close>, \<^verbatim>\<open>regexp.Compile\<close>, \<^verbatim>\<open>time.ParseDuration\<close>) and the wording
  of the errors of \<^verbatim>\<open>fmt.Sscanf\<close> are the parameter \<open>lib\<close>; the regular expressions of the source
  are written out as functions. A loop over a Go map visits its entries in an order the language
  leaves open: it is the parameter \<open>ord\<close>, a permutation. The lemmas say exactly which bucket
  names, ports and configurations are accepted.
\<close>

subsection \<open>Values and library functions\<close>

text \<open>
  A value of type \<^verbatim>\<open>any\<close>: the dynamic types the rules distinguish; \<open>VOther\<close> carries the name
  of any other type.
\<close>

datatype gval =
    VNil
  | VStr string
  | VInt int
  | VInt64 int
  | VBool bool
  | VDuration duration
  | VOther string

fun type_name :: "gval \<Rightarrow> string" where
  "type_name VNil = ''<nil>''"
| "type_name (VStr s) = ''string''"
| "type_name (VInt i) = ''int''"
| "type_name (VInt64 i) = ''int64''"
| "type_name (VBool b) = ''bool''"
| "type_name (VDuration d) = ''time.Duration''"
| "type_name (VOther t) = t"

record parsers =
  lib_urlParse :: "string \<Rightarrow> string + (string \<times> string)" \<comment> \<open>scheme and host\<close>
  lib_regexpCompile :: "string \<Rightarrow> string option"
  lib_ParseDuration :: "string \<Rightarrow> string + duration"
  lib_scan_error :: "string \<Rightarrow> string" \<comment> \<open>what \<^verbatim>\<open>Sscanf\<close> says of a text it cannot read\<close>

text \<open>\<^verbatim>\<open>unicode.IsSpace\<close>, and whether \<^verbatim>\<open>strings.TrimSpace\<close> leaves nothing.\<close>

definition is_space :: "nat \<Rightarrow> bool" where
  "is_space r \<longleftrightarrow> r \<in> {9, 10, 11, 12, 13, 32, 0x85, 0xA0, 0x1680, 0x2028, 0x2029, 0x202F, 0x205F, 0x3000} \<or>
     0x2000 \<le> r \<and> r \<le> 0x200A"

function all_space :: "nat list \<Rightarrow> bool" where
  "all_space bs =
     (if bs = [] then True
      else is_space (fst (decode_rune bs)) \<and> all_space (drop (snd (decode_rune bs)) bs))"
  by pat_completeness auto
termination
  by (relation "measure length") (use decode_rune_width in \<open>force+\<close>)

declare all_space.simps [simp del]

definition blank :: "string \<Rightarrow> bool" where
  "blank s = all_space (bytes_of s)"

definition dec_int :: "int \<Rightarrow> string" where
  "dec_int i = (if i < 0 then CHR ''-'' # dec (nat (- i)) else dec (nat i))"

text \<open>
  \<^verbatim>\<open>strings.ToLower\<close> on ASCII letters; it is only compared with \<^verbatim>\<open>true\<close> and \<^verbatim>\<open>false\<close>, and no
  other character has one of their letters as its lower case.
\<close>

definition lower_case :: "string \<Rightarrow> string" where
  "lower_case s = map (\<lambda>c. if 65 \<le> (of_char c :: nat) \<and> (of_char c :: nat) \<le> 90 then char_of ((of_char c :: nat) + 32) else c) s"

text \<open>
  \<^verbatim>\<open>fmt.Sscanf(v, "%d", &n)\<close>: white space is skipped, but a newline is an error; then a sign
  and digits, and what follows them is left unread. It fails without digits or out of the
  range of \<^verbatim>\<open>int\<close>.
\<close>

function skip_space :: "string \<Rightarrow> string option" where
  "skip_space s =
     (if s = [] then Some []
      else let (r, w) = decode_rune (bytes_of s) in
        if r = 10 then None
        else if is_space r then skip_space (drop w s)
        else Some s)"
  by pat_completeness auto
termination
proof (relation "measure length", goal_cases)
  case (2 s x r w)
  then have "0 < snd (decode_rune (bytes_of s))"
    using decode_rune_width [of "bytes_of s"] by (simp add: bytes_of_def)
  moreover have "snd (decode_rune (bytes_of s)) = w" using 2(2,3) by (metis snd_conv)
  ultimately show ?case using 2 by (cases s) auto
qed simp

declare skip_space.simps [simp del]

definition Sscanf_d :: "string \<Rightarrow> int option" where
  "Sscanf_d s =
     (case skip_space s of
        None \<Rightarrow> None
      | Some t \<Rightarrow>
          (let neg = (t \<noteq> [] \<and> hd t = CHR ''-'');
               u = (if t \<noteq> [] \<and> (hd t = CHR ''-'' \<or> hd t = CHR ''+'') then tl t else t);
               ds = takeWhile is_digit u;
               n = (if neg then - int (undec ds) else int (undec ds))
           in if ds = [] \<or> \<not> in_i64 n then None else Some n))"

subsection \<open>Regular expressions\<close>

definition bucket_alnum :: "char \<Rightarrow> bool" where
  "bucket_alnum c \<longleftrightarrow> 97 \<le> (of_char c :: nat) \<and> (of_char c :: nat) \<le> 122 \<or> is_digit c"

definition bucket_char :: "char \<Rightarrow> bool" where
  "bucket_char c \<longleftrightarrow> bucket_alnum c \<or> c = CHR ''.'' \<or> c = CHR ''_'' \<or> c = CHR ''-''"

definition bucketNameCharsRe :: "string \<Rightarrow> bool" where
  "bucketNameCharsRe s \<longleftrightarrow>
     length s \<ge> 2 \<and> bucket_alnum (hd s) \<and> list_all bucket_char (butlast (tl s)) \<and> bucket_alnum (last s)"

definition ip_field :: "string \<Rightarrow> bool" where
  "ip_field f \<longleftrightarrow> 1 \<le> length f \<and> length f \<le> 3 \<and> list_all is_digit f"

definition ipAddressRe :: "string \<Rightarrow> bool" where
  "ipAddressRe s \<longleftrightarrow> length (split_on CHR ''.'' s) = 4 \<and> list_all ip_field (split_on CHR ''.'' s)"

definition is_letter :: "char \<Rightarrow> bool" where
  "is_letter c \<longleftrightarrow> 65 \<le> (of_char c :: nat) \<and> (of_char c :: nat) \<le> 90 \<or> 97 \<le> (of_char c :: nat) \<and> (of_char c :: nat) \<le> 122"

text \<open>The classes exclude \<^verbatim>\<open>@\<close>, and the last class the dot, so the split points are forced.\<close>

definition patternEmail :: "string \<Rightarrow> bool" where
  "patternEmail s =
     (case split_on CHR ''@'' s of
        [local, domain] \<Rightarrow>
          local \<noteq> [] \<and> list_all (\<lambda>c. is_letter c \<or> is_digit c \<or> c \<in> set ''._%+-'') local \<and>
          (case last_index_byte CHR ''.'' domain of
             None \<Rightarrow> False
           | Some i \<Rightarrow> i \<ge> 1 \<and> list_all (\<lambda>c. is_letter c \<or> is_digit c \<or> c \<in> set ''.-'') (take i domain) \<and>
                      list_all is_letter (drop (i + 1) domain) \<and> length (drop (i + 1) domain) \<ge> 2)
      | _ \<Rightarrow> False)"

subsection \<open>The rules\<close>

definition expected :: "string \<Rightarrow> gval \<Rightarrow> string" where
  "expected what v = ''expected '' @ what @ '', got '' @ type_name v"

definition rule_string :: "gval \<Rightarrow> string option" where
  "rule_string v =
     (case v of VStr s \<Rightarrow> if blank s then Some ''string cannot be empty'' else None
              | _ \<Rightarrow> Some (expected ''string'' v))"

definition rule_url :: "parsers \<Rightarrow> gval \<Rightarrow> string option" where
  "rule_url lib v =
     (case v of
        VStr s \<Rightarrow>
          (case lib_urlParse lib s of
             Inl e \<Rightarrow> Some (''invalid URL: '' @ e)
           | Inr (scheme, host) \<Rightarrow>
               if scheme = [] \<or> host = [] then Some ''URL must have a scheme and host (e.g. https://example.com)'' else None)
      | _ \<Rightarrow> Some (expected ''string'' v))"

definition rule_email :: "gval \<Rightarrow> string option" where
  "rule_email v =
     (case v of VStr s \<Rightarrow> if \<not> patternEmail s then Some ''invalid email format'' else None
              | _ \<Rightarrow> Some (expected ''string'' v))"

text \<open>The switch \<open>port\<close> and \<open>positive_int\<close> share.\<close>

definition scan_int :: "parsers \<Rightarrow> string \<Rightarrow> string \<Rightarrow> gval \<Rightarrow> string + int" where
  "scan_int lib badFormat what v =
     (case v of
        VInt i \<Rightarrow> Inr i
      | VInt64 i \<Rightarrow> Inr i
      | VStr s \<Rightarrow> (case Sscanf_d s of None \<Rightarrow> Inl (badFormat @ lib_scan_error lib s) | Some n \<Rightarrow> Inr n)
      | _ \<Rightarrow> Inl (expected what v))"

definition rule_port :: "parsers \<Rightarrow> gval \<Rightarrow> string option" where
  "rule_port lib v =
     (case scan_int lib ''invalid port format: '' ''port number'' v of
        Inl e \<Rightarrow> Some e
      | Inr p \<Rightarrow> if p < 1 \<or> p > 65535 then Some (''port must be between 1 and 65535, got '' @ dec_int p) else None)"

definition rule_duration :: "parsers \<Rightarrow> gval \<Rightarrow> string option" where
  "rule_duration lib v =
     (case (case v of
              VDuration d \<Rightarrow> Inr d
            | VStr s \<Rightarrow> (case lib_ParseDuration lib s of Inl e \<Rightarrow> Inl (''invalid duration format: '' @ e) | Inr d \<Rightarrow> Inr d)
            | _ \<Rightarrow> Inl (expected ''duration'' v)) of
        Inl e \<Rightarrow> Some e
      | Inr d \<Rightarrow> if d < 0 then Some ''duration cannot be negative'' else None)"

definition rule_positive_int :: "parsers \<Rightarrow> gval \<Rightarrow> string option" where
  "rule_positive_int lib v =
     (case scan_int lib ''invalid integer format: '' ''integer'' v of
        Inl e \<Rightarrow> Some e
      | Inr n \<Rightarrow> if n \<le> 0 then Some (''value must be positive, got '' @ dec_int n) else None)"

definition rule_boolean :: "gval \<Rightarrow> string option" where
  "rule_boolean v =
     (case v of
        VBool _ \<Rightarrow> None
      | VStr s \<Rightarrow> if lower_case s = ''true'' \<or> lower_case s = ''false'' then None
                  else Some (''invalid boolean value: '' @ s)
      | _ \<Rightarrow> Some (expected ''boolean'' v))"

definition rule_regex :: "parsers \<Rightarrow> gval \<Rightarrow> string option" where
  "rule_regex lib v =
     (case v of
        VStr s \<Rightarrow> (case lib_regexpCompile lib s of Some e \<Rightarrow> Some (''invalid regex: '' @ e) | None \<Rightarrow> None)
      | _ \<Rightarrow> Some (expected ''string'' v))"

definition rule_optional_string :: "gval \<Rightarrow> string option" where
  "rule_optional_string v =
     (if v = VNil \<or> v = VStr [] then None
      else case v of VStr s \<Rightarrow> if blank s then Some ''string cannot be empty'' else None
                   | _ \<Rightarrow> Some (expected ''string'' v))"

definition rule_optional_positive_int :: "gval \<Rightarrow> string option" where
  "rule_optional_positive_int v =
     (if v = VNil \<or> v = VInt 0 then None
      else case v of VInt n \<Rightarrow> if n \<le> 0 then Some ''must be a positive integer'' else None | _ \<Rightarrow> None)"

definition rule_optional_duration :: "parsers \<Rightarrow> gval \<Rightarrow> string option" where
  "rule_optional_duration lib v =
     (if v = VNil \<or> v = VStr [] then None
      else case v of
             VStr s \<Rightarrow> (case lib_ParseDuration lib s of Inl e \<Rightarrow> Some (''invalid duration: '' @ e) | Inr _ \<Rightarrow> None)
           | _ \<Rightarrow> None)"

definition contains_dotdot :: "string \<Rightarrow> bool" where
  "contains_dotdot s \<longleftrightarrow> (\<exists>i < length s - 1. s ! i = CHR ''.'' \<and> s ! (i + 1) = CHR ''.'')"

definition rule_bucket_name :: "gval \<Rightarrow> string option" where
  "rule_bucket_name v =
     (case v of
        VStr s \<Rightarrow>
          (if blank s then Some ''bucket name cannot be empty''
           else if length s < 3 \<or> length s > 63 then
             Some (''bucket name must be 3-63 characters, got '' @ dec (length s))
           else if \<not> bucketNameCharsRe s then
             Some ''bucket name may only contain lowercase letters, digits, hyphens, underscores, and dots''
           else if s ! 0 = CHR ''-'' \<or> s ! 0 = CHR ''.'' \<or> s ! (length s - 1) = CHR ''-'' \<or> s ! (length s - 1) = CHR ''.'' then
             Some ''bucket name must not start or end with a hyphen or dot''
           else if contains_dotdot s then Some ''bucket name must not contain consecutive dots''
           else if ipAddressRe s then Some ''bucket name must not be an IP address''
           else None)
      | _ \<Rightarrow> Some (expected ''string'' v))"

subsection \<open>The validator\<close>

record ValidationRule =
  vr_Name :: string
  vr_Description :: string
  vr_Validate :: "gval \<Rightarrow> string option"
  vr_Required :: bool
  vr_Type :: string

record ConfigValidator =
  cv_rules :: "(string, ValidationRule) gomap"
  cv_StrictMode :: bool
  cv_ValidateOnLoad :: bool
  cv_CustomRules :: "(string, ValidationRule) gomap"

definition RegisterRule :: "string \<Rightarrow> ValidationRule \<Rightarrow> ConfigValidator \<Rightarrow> ConfigValidator" where
  "RegisterRule nm rule v = v\<lparr>cv_rules := gomap_set nm rule (cv_rules v)\<rparr>"

definition default_rules :: "parsers \<Rightarrow> ValidationRule list" where
  "default_rules lib =
     [\<lparr>vr_Name = ''string'', vr_Description = ''Validates that the value is a non-empty string'',
       vr_Validate = rule_string, vr_Required = True, vr_Type = ''string''\<rparr>,
      \<lparr>vr_Name = ''url'', vr_Description = ''Validates that the value is a valid absolute URL with scheme and host'',
       vr_Validate = rule_url lib, vr_Required = True, vr_Type = ''string''\<rparr>,
      \<lparr>vr_Name = ''email'', vr_Description = ''Validates that the value is a valid email address'',
       vr_Validate = rule_email, vr_Required = True, vr_Type = ''string''\<rparr>,
      \<lparr>vr_Name = ''port'', vr_Description = ''Validates that the value is a valid port number (1-65535)'',
       vr_Validate = rule_port lib, vr_Required = True, vr_Type = ''integer''\<rparr>,
      \<lparr>vr_Name = ''duration'', vr_Description = ''Validates that the value is a valid duration'',
       vr_Validate = rule_duration lib, vr_Required = True, vr_Type = ''duration''\<rparr>,
      \<lparr>vr_Name = ''positive_int'', vr_Description = ''Validates that the value is a positive integer'',
       vr_Validate = rule_positive_int lib, vr_Required = True, vr_Type = ''integer''\<rparr>,
      \<lparr>vr_Name = ''boolean'', vr_Description = ''Validates that the value is a boolean'',
       vr_Validate = rule_boolean, vr_Required = True, vr_Type = ''boolean''\<rparr>,
      \<lparr>vr_Name = ''regex'', vr_Description = ''Validates that the value is a valid regular expression'',
       vr_Validate = rule_regex lib, vr_Required = True, vr_Type = ''string''\<rparr>,
      \<lparr>vr_Name = ''optional_string'', vr_Description = ''Validates that the value is a string (if present)'',
       vr_Validate = rule_optional_string, vr_Required = False, vr_Type = ''string''\<rparr>,
      \<lparr>vr_Name = ''optional_positive_int'', vr_Description = ''Validates that the value is a positive integer (if present)'',
       vr_Validate = rule_optional_positive_int, vr_Required = False, vr_Type = ''integer''\<rparr>,
      \<lparr>vr_Name = ''optional_duration'', vr_Description = ''Validates that the value is a valid duration (if present)'',
       vr_Validate = rule_optional_duration lib, vr_Required = False, vr_Type = ''string''\<rparr>,
      \<lparr>vr_Name = ''bucket_name'', vr_Description = ''Validates that the value is a valid GCS bucket name'',
       vr_Validate = rule_bucket_name, vr_Required = True, vr_Type = ''string''\<rparr>]"

definition registerDefaultRules :: "parsers \<Rightarrow> ConfigValidator \<Rightarrow> ConfigValidator" where
  "registerDefaultRules lib v = fold (\<lambda>r. RegisterRule (vr_Name r) r) (default_rules lib) v"

definition NewConfigValidator :: "parsers \<Rightarrow> ConfigValidator" where
  "NewConfigValidator lib =
     registerDefaultRules lib
       \<lparr>cv_rules = [], cv_StrictMode = False, cv_ValidateOnLoad = True, cv_CustomRules = []\<rparr>"

definition GetRule :: "ConfigValidator \<Rightarrow> string \<Rightarrow> ValidationRule option" where
  "GetRule v nm = gomap_get (cv_rules v) nm"

record ValidationError =
  ve_Field :: string
  ve_Message :: string
  ve_Value :: gval
  ve_Rule :: string
  ve_Code :: string

record ValidationWarning =
  vw_Field :: string
  vw_Message :: string
  vw_Value :: gval
  vw_Rule :: string

record GCSConfig =
  gc_ProjectID :: string
  gc_BucketName :: string
  gc_CredentialsFile :: string
  gc_CredentialsConfig :: string
  gc_MaxConnections :: int
  gc_ConnectionTimeout :: string

definition ValidationError_Error :: "ValidationError \<Rightarrow> string" where
  "ValidationError_Error e =
     ''validation error for field '' @ CHR 0x27 # ve_Field e @ CHR 0x27 # '': '' @ ve_Message e"

datatype field_error = UnknownRule string | Invalid ValidationError

definition ValidateField :: "ConfigValidator \<Rightarrow> string \<Rightarrow> gval \<Rightarrow> string \<Rightarrow> field_error option" where
  "ValidateField v fieldName val ruleName =
     (case gomap_get (cv_rules v) ruleName of
        None \<Rightarrow> Some (UnknownRule ruleName)
      | Some rule \<Rightarrow>
          (if val = VNil \<and> vr_Required rule then
             Some (Invalid \<lparr>ve_Field = fieldName, ve_Message = ''required field is missing'', ve_Value = val, ve_Rule = ruleName, ve_Code = []\<rparr>)
           else if val \<noteq> VNil then
             map_option (\<lambda>e. Invalid \<lparr>ve_Field = fieldName, ve_Message = e, ve_Value = val, ve_Rule = ruleName, ve_Code = []\<rparr>)
               (vr_Validate rule val)
           else None))"

record ValidationResult =
  vres_Valid :: bool
  vres_Errors :: "ValidationError list"
  vres_Warnings :: "ValidationWarning list"
  vres_Timestamp :: "int option" \<comment> \<open>\<^const>\<open>None\<close> is the zero time\<close>

definition rule_required :: "ConfigValidator \<Rightarrow> string \<Rightarrow> bool" where
  "rule_required v ruleName = (case gomap_get (cv_rules v) ruleName of None \<Rightarrow> False | Some r \<Rightarrow> vr_Required r)"

definition validate_step ::
  "ConfigValidator \<Rightarrow> (string, gval) gomap \<Rightarrow> string \<times> string \<Rightarrow> ValidationResult \<Rightarrow> ValidationResult" where
  "validate_step v config = (\<lambda>(fieldName, ruleName) result.
     let fail = (\<lambda>e. result\<lparr>vres_Valid := False, vres_Errors := vres_Errors result @ [e]\<rparr>) in
     case gomap_get config fieldName of
       None \<Rightarrow>
         (if rule_required v ruleName
          then fail \<lparr>ve_Field = fieldName, ve_Message = ''required field is missing'', ve_Value = VNil, ve_Rule = ruleName, ve_Code = []\<rparr>
          else result)
     | Some val \<Rightarrow>
         (case ValidateField v fieldName val ruleName of
            None \<Rightarrow> result
          | Some (Invalid e) \<Rightarrow> fail e
          | Some (UnknownRule n) \<Rightarrow>
              fail \<lparr>ve_Field = fieldName, ve_Message = ''unknown validation rule: '' @ n, ve_Value = val, ve_Rule = ruleName, ve_Code = []\<rparr>))"

type_synonym range_order = "(string, string) gomap \<Rightarrow> (string, string) gomap"

definition ValidateConfig :: "range_order \<Rightarrow> ConfigValidator \<Rightarrow> (string, gval) gomap \<Rightarrow> (string, string) gomap \<Rightarrow> ValidationResult" where
  "ValidateConfig ord v config rules =
     fold (validate_step v config) (ord rules)
       \<lparr>vres_Valid = True, vres_Errors = [], vres_Warnings = [], vres_Timestamp = None\<rparr>"

definition GetAvailableRules :: "ConfigValidator \<Rightarrow> (string, ValidationRule) gomap" where
  "GetAvailableRules v = fold (\<lambda>(k, r). gomap_set k r) (cv_rules v) []"

definition ValidateHTTPConfig :: "range_order \<Rightarrow> ConfigValidator \<Rightarrow> (string, gval) gomap \<Rightarrow> ValidationResult" where
  "ValidateHTTPConfig ord v config = ValidateConfig ord v config
     [(''listen_address'', ''string''), (''port'', ''port''), (''read_timeout'', ''duration''),
      (''write_timeout'', ''duration''), (''idle_timeout'', ''duration''), (''max_connections'', ''positive_int'')]"

definition ValidateGCSConfig :: "range_order \<Rightarrow> ConfigValidator \<Rightarrow> (string, gval) gomap \<Rightarrow> ValidationResult" where
  "ValidateGCSConfig ord v config = ValidateConfig ord v config
     [(''project_id'', ''optional_string''), (''bucket_name'', ''bucket_name''),
      (''credentials_file'', ''optional_string''), (''credentials_config'', ''optional_string''),
      (''max_connections'', ''optional_positive_int''), (''connection_timeout'', ''optional_duration'')]"

definition ValidateSecurityConfig :: "range_order \<Rightarrow> ConfigValidator \<Rightarrow> (string, gval) gomap \<Rightarrow> ValidationResult" where
  "ValidateSecurityConfig ord v config = ValidateConfig ord v config
     [(''csp_enabled'', ''boolean''), (''hsts_enabled'', ''boolean''), (''hsts_max_age'', ''duration''),
      (''cors_enabled'', ''boolean''), (''cors_origins'', ''string''), (''rate_limit_enabled'', ''boolean''),
      (''rate_limit_requests'', ''positive_int''), (''rate_limit_window'', ''duration'')]"

definition ValidateMetricsConfig :: "range_order \<Rightarrow> ConfigValidator \<Rightarrow> (string, gval) gomap \<Rightarrow> ValidationResult" where
  "ValidateMetricsConfig ord v config = ValidateConfig ord v config
     [(''enabled'', ''boolean''), (''namespace'', ''string''), (''subsystem'', ''string''),
      (''metrics_path'', ''string''), (''listen_address'', ''string'')]"

definition ValidateRuntimeConfig :: "range_order \<Rightarrow> ConfigValidator \<Rightarrow> (string, gval) gomap \<Rightarrow> ValidationResult" where
  "ValidateRuntimeConfig ord v config = ValidateConfig ord v config
     [(''log_level'', ''optional_string''), (''max_connections'', ''optional_positive_int''),
      (''read_timeout'', ''optional_duration''), (''write_timeout'', ''optional_duration''),
      (''idle_timeout'', ''optional_duration'')]"

definition suggestion :: "ValidationError \<Rightarrow> string" where
  "suggestion e =
     ''Field '' @ CHR 0x27 # ve_Field e @ CHR 0x27 #
     (if ve_Rule e = ''string'' then '' must be a non-empty string''
      else if ve_Rule e = ''url'' then '' must be a valid URL (e.g., https://example.com)''
      else if ve_Rule e = ''email'' then '' must be a valid email address (e.g., user@example.com)''
      else if ve_Rule e = ''port'' then '' must be a port number between 1 and 65535''
      else if ve_Rule e = ''duration'' then '' must be a valid duration (e.g., 30s, 5m, 1h)''
      else if ve_Rule e = ''positive_int'' then '' must be a positive integer''
      else if ve_Rule e = ''boolean'' then '' must be true or false''
      else if ve_Rule e = ''regex'' then '' must be a valid regular expression''
      else '' has validation error: '' @ ve_Message e)"

definition GetValidationSuggestions :: "ValidationError list \<Rightarrow> string list" where
  "GetValidationSuggestions errs = map suggestion errs"

subsection \<open>Bucket names\<close>

lemma decode_rune_ascii: "b < 128 \<Longrightarrow> decode_rune (b # bs) = (b, 1)"
  by (cases bs rule: list.exhaust) auto

lemma not_blank_ascii:
  assumes "(of_char c :: nat) < 128" and "\<not> is_space (of_char c)"
  shows "\<not> blank (c # s)"
  using assms by (simp add: blank_def bytes_of_def all_space.simps [of "_ # _"] decode_rune_ascii)

lemma bucket_alnum_ascii:
  assumes "bucket_alnum c"
  shows "(of_char c :: nat) < 128" and "\<not> is_space (of_char c)"
  using assms by (auto simp: bucket_alnum_def is_digit_def is_space_def)

lemma bucket_alnum_not_mark: "bucket_alnum c \<Longrightarrow> c \<noteq> CHR ''-'' \<and> c \<noteq> CHR ''.''"
  by (auto simp: bucket_alnum_def is_digit_def)

lemma bucketNameCharsRe_iff:
  "bucketNameCharsRe s \<longleftrightarrow>
     length s \<ge> 2 \<and> list_all bucket_char s \<and> bucket_alnum (hd s) \<and> bucket_alnum (last s)"
proof (cases "length s \<ge> 2")
  case True
  then obtain a t where s: "s = a # t" "t \<noteq> []" by (cases s; cases "tl s") auto
  have "list_all bucket_char t \<longleftrightarrow> list_all bucket_char (butlast t) \<and> bucket_char (last t)"
    using s(2) by (subst append_butlast_last_id [symmetric]) (auto simp del: append_butlast_last_id)
  with s show ?thesis by (auto simp: bucketNameCharsRe_def bucket_char_def)
qed (simp add: bucketNameCharsRe_def)

lemma contains_dotdot_iff: "contains_dotdot s \<longleftrightarrow> (\<exists>a b. s = a @ ''..'' @ b)"
proof
  assume "contains_dotdot s"
  then obtain i where i: "i < length s - 1" "s ! i = CHR ''.''" "s ! (i + 1) = CHR ''.''"
    by (auto simp: contains_dotdot_def)
  then have "s = take i s @ s ! i # s ! (i + 1) # drop (i + 2) s"
    by (metis (no_types, lifting) Suc_eq_plus1 add_2_eq_Suc' append_take_drop_id id_take_nth_drop
        Cons_nth_drop_Suc less_diff_conv add_lessD1)
  with i show "\<exists>a b. s = a @ ''..'' @ b" by auto
next
  assume "\<exists>a b. s = a @ ''..'' @ b"
  then obtain a b where s: "s = a @ ''..'' @ b" by blast
  then have "length a < length s - 1" "s ! length a = CHR ''.''" "s ! (length a + 1) = CHR ''.''"
    by (auto simp: nth_append)
  then show "contains_dotdot s" unfolding contains_dotdot_def by blast
qed

lemma ip_field_no_dot: "ip_field f \<Longrightarrow> CHR ''.'' \<notin> set f"
  by (auto simp: ip_field_def list_all_iff is_digit_def)

lemma ipAddressRe_iff:
  "ipAddressRe s \<longleftrightarrow>
     (\<exists>a b c d. list_all ip_field [a, b, c, d] \<and> s = a @ ''.'' @ b @ ''.'' @ c @ ''.'' @ d)"
proof
  assume ip: "ipAddressRe s"
  then obtain a b c d where "split_on CHR ''.'' s = [a, b, c, d]"
    by (auto simp: ipAddressRe_def length_Suc_conv numeral_eq_Suc)
  moreover from this have "s = a @ ''.'' @ b @ ''.'' @ c @ ''.'' @ d"
    using join_split [of "CHR ''.''" s] by simp
  ultimately show "\<exists>a b c d. list_all ip_field [a, b, c, d] \<and> s = a @ ''.'' @ b @ ''.'' @ c @ ''.'' @ d"
    using ip by (auto simp: ipAddressRe_def)
next
  assume "\<exists>a b c d. list_all ip_field [a, b, c, d] \<and> s = a @ ''.'' @ b @ ''.'' @ c @ ''.'' @ d"
  then obtain a b c d where s: "list_all ip_field [a, b, c, d]" "s = join_with CHR ''.'' [a, b, c, d]"
    by auto
  moreover from s(1) have "\<forall>e \<in> set [a, b, c, d]. CHR ''.'' \<notin> set e"
    by (auto simp: ip_field_no_dot)
  ultimately have "split_on CHR ''.'' s = [a, b, c, d]"
    using split_join [of "[a, b, c, d]" "CHR ''.''"] by blast
  with s(1) show "ipAddressRe s" by (simp add: ipAddressRe_def)
qed

text \<open>The naming rules the code sets out to check, without reference to its checks.\<close>

definition valid_bucket :: "string \<Rightarrow> bool" where
  "valid_bucket s \<longleftrightarrow>
     3 \<le> length s \<and> length s \<le> 63 \<and> list_all bucket_char s \<and>
     bucket_alnum (hd s) \<and> bucket_alnum (last s) \<and>
     (\<nexists>a b. s = a @ ''..'' @ b) \<and>
     (\<nexists>a b c d. list_all ip_field [a, b, c, d] \<and> s = a @ ''.'' @ b @ ''.'' @ c @ ''.'' @ d)"

lemma bucketNameCharsRe_shape:
  assumes "bucketNameCharsRe s"
  shows "\<not> blank s"
    and "\<not> (s ! 0 = CHR ''-'' \<or> s ! 0 = CHR ''.'' \<or>
            s ! (length s - 1) = CHR ''-'' \<or> s ! (length s - 1) = CHR ''.'')"
proof -
  from assms have s: "s \<noteq> []" "bucket_alnum (hd s)" "bucket_alnum (last s)"
    by (auto simp: bucketNameCharsRe_iff)
  then show "\<not> blank s" by (cases s) (simp_all add: not_blank_ascii bucket_alnum_ascii)
  from s show "\<not> (s ! 0 = CHR ''-'' \<or> s ! 0 = CHR ''.'' \<or>
      s ! (length s - 1) = CHR ''-'' \<or> s ! (length s - 1) = CHR ''.'')"
    using bucket_alnum_not_mark by (simp add: hd_conv_nth last_conv_nth)
qed

lemma rule_bucket_name_string:
  "rule_bucket_name (VStr s) =
     (if blank s then Some ''bucket name cannot be empty''
      else if length s < 3 \<or> length s > 63 then
        Some (''bucket name must be 3-63 characters, got '' @ dec (length s))
      else if \<not> bucketNameCharsRe s then
        Some ''bucket name may only contain lowercase letters, digits, hyphens, underscores, and dots''
      else if contains_dotdot s then Some ''bucket name must not contain consecutive dots''
      else if ipAddressRe s then Some ''bucket name must not be an IP address''
      else None)"
  using bucketNameCharsRe_shape(2) [of s] unfolding rule_bucket_name_def gval.case by (simp split: if_split)

lemma rule_bucket_name_None: "rule_bucket_name (VStr s) = None \<longleftrightarrow> valid_bucket s"
proof -
  have "rule_bucket_name (VStr s) = None \<longleftrightarrow>
      \<not> blank s \<and> 3 \<le> length s \<and> length s \<le> 63 \<and> bucketNameCharsRe s \<and> \<not> contains_dotdot s \<and> \<not> ipAddressRe s"
    unfolding rule_bucket_name_string by (simp add: not_less)
  also have "\<dots> \<longleftrightarrow> valid_bucket s"
    using bucketNameCharsRe_shape(1) [of s]
    unfolding valid_bucket_def contains_dotdot_iff [symmetric] ipAddressRe_iff [symmetric]
    by (auto simp: bucketNameCharsRe_iff)
  finally show ?thesis .
qed

lemma rule_bucket_name_type: "rule_bucket_name v = None \<longleftrightarrow> (\<exists>s. v = VStr s \<and> valid_bucket s)"
  by (cases v) (simp_all add: rule_bucket_name_None, simp_all add: rule_bucket_name_def)

lemma dead_mark_check: "rule_bucket_name v \<noteq> Some ''bucket name must not start or end with a hyphen or dot''"
  by (cases v) (simp_all add: rule_bucket_name_string, simp_all add: rule_bucket_name_def expected_def)

text \<open>
  C34. The rule for bucket names accepts exactly the strings that follow its naming rules: three to 63 lower-case letters, digits, dots, hyphens and underscores,
  a letter or digit at both ends, no two dots in a row and not a dotted decimal address. The
  error text for a hyphen or dot at an end is never produced: the check before it already
  refuses those names.
\<close>

theorem bucket_name_exact:
  "(rule_bucket_name v = None \<longleftrightarrow> (\<exists>s. v = VStr s \<and> valid_bucket s)) \<and>
   rule_bucket_name v \<noteq> Some ''bucket name must not start or end with a hyphen or dot''"
  by (simp add: rule_bucket_name_type dead_mark_check)

subsection \<open>Fields and configurations\<close>

text \<open>
  What it takes for a field to pass: a present value satisfies its rule, a missing or \<^verbatim>\<open>nil\<close>
  value is fine unless the rule is required. The value a field has is \<^verbatim>\<open>nil\<close> if it is missing.
\<close>

definition field_value :: "(string, gval) gomap \<Rightarrow> string \<Rightarrow> gval" where
  "field_value config f = (case gomap_get config f of None \<Rightarrow> VNil | Some val \<Rightarrow> val)"

definition field_passes :: "ConfigValidator \<Rightarrow> (string, gval) gomap \<Rightarrow> string \<times> string \<Rightarrow> bool" where
  "field_passes v config = (\<lambda>(f, r).
     case GetRule v r of
       None \<Rightarrow> f \<notin> gomap_dom config
     | Some rule \<Rightarrow>
         if field_value config f = VNil then \<not> vr_Required rule
         else vr_Validate rule (field_value config f) = None)"

definition names_field :: "(string, gval) gomap \<Rightarrow> string \<times> string \<Rightarrow> ValidationError \<Rightarrow> bool" where
  "names_field config fr e \<longleftrightarrow> (ve_Field e, ve_Rule e) = fr \<and> ve_Value e = field_value config (fst fr)"

lemma validate_step_pass:
  assumes "field_passes v config fr"
  shows "validate_step v config fr res = res"
proof -
  obtain f r where fr: "fr = (f, r)" by fastforce
  show ?thesis
  proof (cases "gomap_get config f")
    case None
    with assms fr show ?thesis
      by (auto simp: field_passes_def field_value_def validate_step_def rule_required_def GetRule_def
          split: option.splits)
  next
    case (Some val)
    then have "f \<in> gomap_dom config" by (rule gomap_get_in_dom)
    with Some assms fr show ?thesis
      by (auto simp: field_passes_def field_value_def validate_step_def ValidateField_def GetRule_def
          split: option.splits if_splits)
  qed
qed

lemma ValidateField_names:
  "ValidateField v f val r = Some (Invalid e) \<Longrightarrow> ve_Field e = f \<and> ve_Rule e = r \<and> ve_Value e = val"
  by (auto simp: ValidateField_def split: option.splits if_splits)

lemma validate_step_fail:
  assumes "\<not> field_passes v config fr"
  shows "\<exists>e. names_field config fr e \<and>
    validate_step v config fr res = res\<lparr>vres_Valid := False, vres_Errors := vres_Errors res @ [e]\<rparr>"
proof -
  obtain f r where fr: "fr = (f, r)" by fastforce
  let ?missing = "\<lparr>ve_Field = f, ve_Message = ''required field is missing'', ve_Value = VNil, ve_Rule = r, ve_Code = []\<rparr>"
  show ?thesis
  proof (cases "gomap_get config f")
    case None
    then have "f \<notin> gomap_dom config" using gomap_get_dom [of config f] by simp
    with None assms fr have "rule_required v r"
      by (auto simp: field_passes_def field_value_def rule_required_def GetRule_def split: option.splits)
    with None fr show ?thesis
      by (intro exI [of _ ?missing]) (simp add: names_field_def validate_step_def field_value_def)
  next
    case (Some val)
    with assms fr obtain err where err: "ValidateField v f val r = Some err"
      by (auto simp: field_passes_def field_value_def ValidateField_def GetRule_def split: option.splits if_splits)
    show ?thesis
    proof (cases err)
      case (Invalid e)
      with err Some fr show ?thesis using ValidateField_names [of v f val r e]
        by (intro exI [of _ e]) (simp add: names_field_def validate_step_def field_value_def)
    next
      case (UnknownRule n)
      let ?e = "\<lparr>ve_Field = f, ve_Message = ''unknown validation rule: '' @ n, ve_Value = val, ve_Rule = r, ve_Code = []\<rparr>"
      from UnknownRule err Some fr show ?thesis
        by (intro exI [of _ ?e]) (simp add: names_field_def validate_step_def field_value_def)
    qed
  qed
qed

lemma validate_fold:
  "\<exists>es. list_all2 (names_field config) (filter (\<lambda>fr. \<not> field_passes v config fr) frs) es \<and>
     fold (validate_step v config) frs res =
       res\<lparr>vres_Valid := (vres_Valid res \<and> es = []), vres_Errors := vres_Errors res @ es\<rparr>"
proof (induction frs arbitrary: res)
  case (Cons fr frs)
  show ?case
  proof (cases "field_passes v config fr")
    case True
    with Cons show ?thesis by (simp add: validate_step_pass)
  next
    case False
    then obtain e where e: "names_field config fr e"
        "validate_step v config fr res = res\<lparr>vres_Valid := False, vres_Errors := vres_Errors res @ [e]\<rparr>"
      using validate_step_fail by blast
    from Cons [of "res\<lparr>vres_Valid := False, vres_Errors := vres_Errors res @ [e]\<rparr>"] obtain es where
      "list_all2 (names_field config) (filter (\<lambda>fr. \<not> field_passes v config fr) frs) es"
      "fold (validate_step v config) frs (res\<lparr>vres_Valid := False, vres_Errors := vres_Errors res @ [e]\<rparr>) =
         res\<lparr>vres_Valid := False, vres_Errors := vres_Errors res @ e # es\<rparr>" by auto
    with e False show ?thesis by (intro exI [of _ "e # es"]) simp
  qed
qed simp

lemma list_all2_names_field:
  "list_all2 (names_field config) frs es \<Longrightarrow>
     map (\<lambda>e. (ve_Field e, ve_Rule e, ve_Value e)) es = map (\<lambda>(f, r). (f, r, field_value config f)) frs"
  by (induction rule: list_all2_induct) (auto simp: names_field_def)

lemma ValidateConfig_report:
  "map (\<lambda>e. (ve_Field e, ve_Rule e, ve_Value e)) (vres_Errors (ValidateConfig ord v config rules)) =
     map (\<lambda>(f, r). (f, r, field_value config f)) (filter (\<lambda>fr. \<not> field_passes v config fr) (ord rules)) \<and>
   (vres_Valid (ValidateConfig ord v config rules) \<longleftrightarrow> vres_Errors (ValidateConfig ord v config rules) = []) \<and>
   vres_Warnings (ValidateConfig ord v config rules) = [] \<and>
   vres_Timestamp (ValidateConfig ord v config rules) = None"
proof -
  obtain es where es: "list_all2 (names_field config) (filter (\<lambda>fr. \<not> field_passes v config fr) (ord rules)) es"
      "ValidateConfig ord v config rules =
         \<lparr>vres_Valid = (es = []), vres_Errors = es, vres_Warnings = [], vres_Timestamp = None\<rparr>"
    using validate_fold [of config v "ord rules"
        "\<lparr>vres_Valid = True, vres_Errors = [], vres_Warnings = [], vres_Timestamp = None\<rparr>"]
    unfolding ValidateConfig_def by auto
  then show ?thesis using list_all2_names_field [OF es(1)] by simp
qed

lemma ValidateConfig_valid:
  assumes "mset (ord rules) = mset rules"
  shows "vres_Valid (ValidateConfig ord v config rules) \<longleftrightarrow> list_all (field_passes v config) rules"
proof -
  have "vres_Errors (ValidateConfig ord v config rules) = [] \<longleftrightarrow>
      filter (\<lambda>fr. \<not> field_passes v config fr) (ord rules) = []"
    using arg_cong [OF conjunct1 [OF ValidateConfig_report [of ord v config rules]], of length]
    by (simp only: length_map flip: length_0_conv)
  then have "vres_Valid (ValidateConfig ord v config rules) \<longleftrightarrow>
      filter (\<lambda>fr. \<not> field_passes v config fr) (ord rules) = []"
    using ValidateConfig_report [of ord v config rules] by blast
  also have "\<dots> \<longleftrightarrow> list_all (field_passes v config) rules"
    using mset_eq_setD [OF assms] by (simp add: filter_empty_conv list_all_iff)
  finally show ?thesis .
qed

lemma register_fold_get:
  "distinct (map vr_Name rs) \<Longrightarrow>
     GetRule (fold (\<lambda>r. RegisterRule (vr_Name r) r) rs v) nm =
       (case map_of (map (\<lambda>r. (vr_Name r, r)) rs) nm of None \<Rightarrow> GetRule v nm | Some r \<Rightarrow> Some r)"
proof (induction rs arbitrary: v)
  case (Cons r rs)
  then have "vr_Name r \<notin> vr_Name ` set rs" by simp
  then have "map_of (map (\<lambda>r. (vr_Name r, r)) rs) (vr_Name r) = None"
    by (auto simp: map_of_eq_None_iff)
  with Cons show ?case
    by (auto simp: RegisterRule_def GetRule_def gomap_simps split: option.splits)
qed simp

lemma default_names:
  "map vr_Name (default_rules lib) =
     [''string'', ''url'', ''email'', ''port'', ''duration'', ''positive_int'', ''boolean'', ''regex'',
      ''optional_string'', ''optional_positive_int'', ''optional_duration'', ''bucket_name'']"
  by (simp add: default_rules_def)

lemma GetRule_NewConfigValidator:
  "GetRule (NewConfigValidator lib) nm = map_of (map (\<lambda>r. (vr_Name r, r)) (default_rules lib)) nm"
  using register_fold_get [of "default_rules lib"
      "\<lparr>cv_rules = [], cv_StrictMode = False, cv_ValidateOnLoad = True, cv_CustomRules = []\<rparr>" nm]
  by (simp add: NewConfigValidator_def registerDefaultRules_def default_names)
     (simp add: GetRule_def split: option.splits)

lemma GetRule_default [simp]:
  "GetRule (NewConfigValidator lib) ''string'' = Some (default_rules lib ! 0)"
  "GetRule (NewConfigValidator lib) ''url'' = Some (default_rules lib ! 1)"
  "GetRule (NewConfigValidator lib) ''email'' = Some (default_rules lib ! 2)"
  "GetRule (NewConfigValidator lib) ''port'' = Some (default_rules lib ! 3)"
  "GetRule (NewConfigValidator lib) ''duration'' = Some (default_rules lib ! 4)"
  "GetRule (NewConfigValidator lib) ''positive_int'' = Some (default_rules lib ! 5)"
  "GetRule (NewConfigValidator lib) ''boolean'' = Some (default_rules lib ! 6)"
  "GetRule (NewConfigValidator lib) ''regex'' = Some (default_rules lib ! 7)"
  "GetRule (NewConfigValidator lib) ''optional_string'' = Some (default_rules lib ! 8)"
  "GetRule (NewConfigValidator lib) ''optional_positive_int'' = Some (default_rules lib ! 9)"
  "GetRule (NewConfigValidator lib) ''optional_duration'' = Some (default_rules lib ! 10)"
  "GetRule (NewConfigValidator lib) ''bucket_name'' = Some (default_rules lib ! 11)"
  by (simp_all add: GetRule_NewConfigValidator default_rules_def)

lemmas default_rule_simps = default_rules_def field_passes_def field_value_def

text \<open>A library instance for concrete inputs: every URL and expression parses, every duration is zero.\<close>

definition plain_lib :: parsers where
  "plain_lib = \<lparr>lib_urlParse = (\<lambda>s. Inr (''https'', s)), lib_regexpCompile = (\<lambda>s. None),
     lib_ParseDuration = (\<lambda>s. if s = ''0s'' then Inr 0 else Inl ''invalid''),
     lib_scan_error = (\<lambda>s. ''EOF'')\<rparr>"

text \<open>
  C32. Whatever order the loop over the rule map takes, \<open>ValidateConfig\<close> reports every field that
  fails its rule exactly once, with the rule and the value it was checked against, and no other
  field; the result is marked valid exactly if every field passes. It never has warnings and
  its time stamp is never set.
\<close>

theorem validate_config_exact:
  assumes "mset (ord rules) = mset rules"
  shows "mset (map (\<lambda>e. (ve_Field e, ve_Rule e, ve_Value e)) (vres_Errors (ValidateConfig ord v config rules))) =
           mset (map (\<lambda>(f, r). (f, r, field_value config f)) (filter (\<lambda>fr. \<not> field_passes v config fr) rules)) \<and>
         (vres_Valid (ValidateConfig ord v config rules) \<longleftrightarrow> list_all (field_passes v config) rules) \<and>
         vres_Warnings (ValidateConfig ord v config rules) = [] \<and>
         vres_Timestamp (ValidateConfig ord v config rules) = None"
  using ValidateConfig_report [of ord v config rules] ValidateConfig_valid [of ord rules v config, OF assms] assms
  by (simp only: mset_map mset_filter simp_thms)

lemma x_not_blank: "\<not> blank ''x''"
  by (rule not_blank_ascii) (simp_all add: is_space_def)

theorem validate_config_exact_witness:
  "mset (map (\<lambda>e. (ve_Field e, ve_Rule e, ve_Value e)) (vres_Errors (ValidateConfig rev (NewConfigValidator plain_lib)
     [(''port'', VInt 0), (''name'', VStr ''x'')] [(''port'', ''port''), (''name'', ''string''), (''flag'', ''boolean'')]))) =
     {#(''port'', ''port'', VInt 0), (''flag'', ''boolean'', VNil)#} \<and>
   \<not> vres_Valid (ValidateConfig rev (NewConfigValidator plain_lib)
     [(''port'', VInt 0), (''name'', VStr ''x'')] [(''port'', ''port''), (''name'', ''string''), (''flag'', ''boolean'')])"
  using validate_config_exact [of rev "[(''port'', ''port''), (''name'', ''string''), (''flag'', ''boolean'')]"
      "NewConfigValidator plain_lib" "[(''port'', VInt 0), (''name'', VStr ''x'')]"]
  by (simp add: default_rule_simps rule_port_def scan_int_def rule_string_def x_not_blank)

definition optional_text :: "gval \<Rightarrow> bool" where
  "optional_text v \<longleftrightarrow> v = VNil \<or> (\<exists>s. v = VStr s \<and> (s = [] \<or> \<not> blank s))"

lemma optional_text_rule: "v \<noteq> VNil \<Longrightarrow> rule_optional_string v = None \<longleftrightarrow> optional_text v"
  by (cases v) (auto simp: rule_optional_string_def optional_text_def)

lemma optional_int_rule: "v \<noteq> VNil \<Longrightarrow> rule_optional_positive_int v = None \<longleftrightarrow> (\<forall>n. v = VInt n \<longrightarrow> 0 \<le> n)"
  by (cases v) (auto simp: rule_optional_positive_int_def)

lemma optional_duration_rule:
  "v \<noteq> VNil \<Longrightarrow> rule_optional_duration lib v = None \<longleftrightarrow>
     (\<forall>s. v = VStr s \<longrightarrow> s = [] \<or> (\<exists>d. lib_ParseDuration lib s = Inr d))"
  by (cases v) (auto simp: rule_optional_duration_def split: sum.splits)

lemma field_passes_optional:
  "field_passes (NewConfigValidator lib) config (f, ''optional_string'') \<longleftrightarrow> optional_text (field_value config f)"
  "field_passes (NewConfigValidator lib) config (f, ''optional_positive_int'') \<longleftrightarrow>
     (\<forall>n. field_value config f = VInt n \<longrightarrow> 0 \<le> n)"
  "field_passes (NewConfigValidator lib) config (f, ''optional_duration'') \<longleftrightarrow>
     (\<forall>s. field_value config f = VStr s \<longrightarrow> s = [] \<or> (\<exists>d. lib_ParseDuration lib s = Inr d))"
  "field_passes (NewConfigValidator lib) config (f, ''bucket_name'') \<longleftrightarrow>
     (\<exists>b. field_value config f = VStr b \<and> valid_bucket b)"
  by (cases "field_value config f = VNil";
      simp add: field_passes_def default_rules_def optional_text_rule optional_int_rule optional_duration_rule
        rule_bucket_name_type; simp add: optional_text_def)+

text \<open>
  C33. A GCS configuration is accepted exactly if the bucket name follows the naming rules, project
  and credential settings are absent, empty or not blank, the maximum number of connections is
  not a negative \<^verbatim>\<open>int\<close>, and the connection timeout, if it is a non-empty string, parses as a
  duration. So a value of another type (an \<^verbatim>\<open>int64\<close>, a string where a number is meant, a number
  where a duration is meant) and a negative duration all pass.
\<close>

theorem gcs_config_accepts:
  assumes "\<forall>rules. mset (ord rules) = mset rules"
  shows "vres_Valid (ValidateGCSConfig ord (NewConfigValidator lib) config) \<longleftrightarrow>
    (\<exists>b. field_value config ''bucket_name'' = VStr b \<and> valid_bucket b) \<and>
    optional_text (field_value config ''project_id'') \<and>
    optional_text (field_value config ''credentials_file'') \<and>
    optional_text (field_value config ''credentials_config'') \<and>
    (\<forall>n. field_value config ''max_connections'' = VInt n \<longrightarrow> 0 \<le> n) \<and>
    (\<forall>s. field_value config ''connection_timeout'' = VStr s \<longrightarrow>
       s = [] \<or> (\<exists>d. lib_ParseDuration lib s = Inr d))"
  unfolding ValidateGCSConfig_def
  by (subst ValidateConfig_valid) (use assms in \<open>auto simp: field_passes_optional\<close>)

lemma no_dot_no_dotdot: "CHR ''.'' \<notin> set s \<Longrightarrow> \<not> contains_dotdot s"
  by (auto simp: contains_dotdot_iff)

lemma valid_bucket_abc: "valid_bucket ''abc''"
  unfolding valid_bucket_def contains_dotdot_iff [symmetric] ipAddressRe_iff [symmetric]
  by (simp add: bucket_char_def bucket_alnum_def ipAddressRe_def no_dot_no_dotdot)

theorem gcs_config_accepts_witness:
  "vres_Valid (ValidateGCSConfig rev (NewConfigValidator plain_lib)
     [(''bucket_name'', VStr ''abc''), (''max_connections'', VInt64 (- 5)), (''connection_timeout'', VInt 7)])"
  using gcs_config_accepts [of rev plain_lib
      "[(''bucket_name'', VStr ''abc''), (''max_connections'', VInt64 (- 5)), (''connection_timeout'', VInt 7)]"]
  by (simp add: field_value_def optional_text_def valid_bucket_abc)

subsection \<open>Numbers\<close>

lemma digit_first_not_space:
  assumes "is_digit c"
  shows "skip_space (c # s) = Some (c # s)"
proof -
  have "(of_char c :: nat) < 128" "(of_char c :: nat) \<noteq> 10" "\<not> is_space (of_char c)"
    using assms by (auto simp: is_digit_def is_space_def)
  then show ?thesis by (simp add: skip_space.simps [of "_ # _"] bytes_of_def)
qed

lemma dec_Cons: obtains c t where "dec n = c # t" and "is_digit c"
  using dec_not_Nil [of n] dec_digits [of _ n] by (cases "dec n") auto

lemma Sscanf_d_dec:
  assumes "rest = [] \<or> \<not> is_digit (hd rest)" and "int n < 2 ^ 63"
  shows "Sscanf_d (dec n @ rest) = Some (int n)"
proof -
  obtain c t where c: "dec n = c # t" "is_digit c" by (rule dec_Cons)
  then have sign: "c \<noteq> CHR ''-''" "c \<noteq> CHR ''+''" by (auto simp: is_digit_def)
  have "takeWhile is_digit (dec n @ rest) = dec n"
    using assms(1) by (cases rest) (auto simp: takeWhile_append2 dec_digits)
  moreover have "skip_space (dec n @ rest) = Some (dec n @ rest)" "hd (dec n @ rest) = c"
    using c by (simp_all add: digit_first_not_space)
  ultimately show ?thesis using sign assms(2) by (simp add: Sscanf_d_def Let_def in_i64_def)
qed

text \<open>
  The port and positive-integer rules read the number at the front of a string and ignore
  what follows it: a decimal number in the range of \<^verbatim>\<open>int\<close> with any text behind it that does not
  continue the number is accepted exactly if the number itself is in the rule's range.
\<close>

lemma number_rules_read_prefix:
  assumes "rest = [] \<or> \<not> is_digit (hd rest)" and "int n < 2 ^ 63"
  shows "(rule_port lib (VStr (dec n @ rest)) = None \<longleftrightarrow> 1 \<le> n \<and> n \<le> 65535) \<and>
         (rule_positive_int lib (VStr (dec n @ rest)) = None \<longleftrightarrow> 1 \<le> n)"
  using Sscanf_d_dec [OF assms] by (auto simp: rule_port_def rule_positive_int_def scan_int_def)

lemma number_rules_read_prefix_witness:
  "rule_port plain_lib (VStr (dec 8080 @ ''; rm'')) = None \<and>
   rule_positive_int plain_lib (VStr (dec 0 @ ''x'')) \<noteq> None"
  using number_rules_read_prefix [of "''; rm''" 8080 plain_lib] number_rules_read_prefix [of "''x''" 0 plain_lib]
  by (simp add: is_digit_def)

end
