(* ===== verification/Validation_Endpoint.thy ===== *)
theory Validation_Endpoint
  imports Validation Go_Http Build_Info
begin

section \<open>The validation endpoint\<close>

text \<open>
  Model of \<^verbatim>\<open>pkg/validation/validation_endpoint.go\<close>: provisioning, the local-only gate, the four
  endpoints and the last result they share. The clock, the state of a context, the JSON decoder
  of the request body (with the limit the body is read under) and the order of loops over maps
  are parameters. \<^verbatim>\<open>UnmarshalCaddyfile\<close> is in theory \<open>Directives\<close>. The lemmas show the gate, that the
  answers agree with the rules of theory \<open>Validation\<close>, and what the status endpoint reports.
\<close>

subsection \<open>State\<close>

datatype vjson =
    JStr string
  | JBool bool
  | JNum nat
  | JTime "int option"
  | JLabels "(string, string) gomap"
  | JResult ValidationResult
  | JObj "(string \<times> vjson) list"

datatype vbody = ResultBody ValidationResult | ObjectBody "(string, vjson) gomap" | TextBody string

record ValidationEndpointHandler =
  vh_ValidationPath :: string
  vh_EnableLive :: bool
  vh_EnableDryRun :: bool
  vh_StrictMode :: bool
  vh_ValidateOnLoad :: bool
  vh_CustomLabels :: "(string, string) gomap"
  vh_LocalOnly :: "bool option"
  vh_validator :: ConfigValidator
  vh_lastValidation :: "ValidationResult option"

record 'w vsys =
  vs_Now :: "'w \<Rightarrow> int"
  vs_RFC3339 :: "int \<Rightarrow> string"
  vs_ctxErr :: "gctx \<Rightarrow> 'w \<Rightarrow> gerror option"
  vs_HasBody :: "http_Request \<Rightarrow> bool"
  vs_Decode :: "nat \<Rightarrow> http_Request \<Rightarrow> 'w \<Rightarrow> (gerror + GCSConfig) \<times> 'w"
  vs_order :: range_order

abbreviation (input) maxValidationBodySize :: nat where
  "maxValidationBodySize \<equiv> 1048576"

abbreviation (input) validationTimeout :: duration where
  "validationTimeout \<equiv> 10000000000"

definition set_missing_label :: "string \<Rightarrow> string \<Rightarrow> (string, string) gomap \<Rightarrow> (string, string) gomap" where
  "set_missing_label k v m = (if gomap_get m k = None then gomap_set k v m else m)"

definition Provision :: "build_vars \<Rightarrow> parsers \<Rightarrow> ValidationEndpointHandler \<Rightarrow> ValidationEndpointHandler" where
  "Provision b lib v =
     v\<lparr>vh_ValidationPath := (if vh_ValidationPath v = [] then ''/validate'' else vh_ValidationPath v),
       vh_LocalOnly := (case vh_LocalOnly v of None \<Rightarrow> Some True | Some l \<Rightarrow> Some l),
       vh_CustomLabels := set_missing_label ''version'' (bv_Version b)
                            (set_missing_label ''service'' ServiceName (vh_CustomLabels v)),
       vh_validator := (NewConfigValidator lib)\<lparr>cv_StrictMode := vh_StrictMode v, cv_ValidateOnLoad := vh_ValidateOnLoad v\<rparr>\<rparr>"

subsection \<open>Endpoints\<close>

definition buildConfigMap :: "GCSConfig \<Rightarrow> (string, gval) gomap" where
  "buildConfigMap config =
     [(''project_id'', VStr (gc_ProjectID config)), (''bucket_name'', VStr (gc_BucketName config)),
      (''credentials_file'', VStr (gc_CredentialsFile config)), (''credentials_config'', VStr (gc_CredentialsConfig config)),
      (''max_connections'', VInt (gc_MaxConnections config)), (''connection_timeout'', VStr (gc_ConnectionTimeout config))]"

definition zero_config :: GCSConfig where
  "zero_config = \<lparr>gc_ProjectID = [], gc_BucketName = [], gc_CredentialsFile = [], gc_CredentialsConfig = [],
     gc_MaxConnections = 0, gc_ConnectionTimeout = []\<rparr>"

definition bad_json :: "vbody http_Response \<Rightarrow> vbody http_Response" where
  "bad_json rsp = http_Error TextBody ''Invalid JSON configuration'' 400 rsp"

text \<open>\<open>decodeJSON\<close>: the configuration, or the response it has written.\<close>

definition decodeJSON ::
  "'w vsys \<Rightarrow> http_Request \<Rightarrow> vbody http_Response \<Rightarrow> 'w \<Rightarrow> (vbody http_Response + GCSConfig) \<times> 'w" where
  "decodeJSON sys r rsp w =
     (case vs_Decode sys maxValidationBodySize r w of
        (Inl e, w1) \<Rightarrow> (Inl (bad_json rsp), w1)
      | (Inr config, w1) \<Rightarrow> (Inr config, w1))"

definition validation_labels :: "range_order \<Rightarrow> (string, string) gomap \<Rightarrow> vbody http_Response \<Rightarrow> vbody http_Response" where
  "validation_labels ord labels rsp = fold (\<lambda>(k, v). header_Set (''X-Validation-'' @ k) v) (ord labels) rsp"

definition validation_headers :: "'w vsys \<Rightarrow> ValidationEndpointHandler \<Rightarrow> vbody http_Response \<Rightarrow> vbody http_Response" where
  "validation_headers sys v rsp =
     validation_labels (vs_order sys) (vh_CustomLabels v)
       (header_Set ''Cache-Control'' ''no-cache, no-store, must-revalidate''
         (header_Set ''Content-Type'' ''application/json'' rsp))"

text \<open>The tail that validation and live validation share: remember the result, then send it.\<close>

definition send_result ::
  "'w vsys \<Rightarrow> ValidationResult \<Rightarrow> ValidationEndpointHandler \<Rightarrow> vbody http_Response
     \<Rightarrow> vbody http_Response \<times> ValidationEndpointHandler" where
  "send_result sys res v rsp =
     (let v1 = v\<lparr>vh_lastValidation := Some res\<rparr>;
          rsp1 = validation_headers sys v1 rsp;
          rsp2 = WriteHeader (if vres_Valid res then 200 else 400) rsp1
      in (write_body (ResultBody res) rsp2, v1))"

definition request_ctx :: "'w vsys \<Rightarrow> http_Request \<Rightarrow> 'w \<Rightarrow> gctx" where
  "request_ctx sys r w = context_WithTimeout (rq_ctx r) validationTimeout (vs_Now sys w)"

definition timed_out :: "vbody http_Response \<Rightarrow> vbody http_Response" where
  "timed_out rsp = http_Error TextBody ''Request timeout'' 408 rsp"

definition serveValidation ::
  "'w vsys \<Rightarrow> ValidationEndpointHandler \<Rightarrow> http_Request \<Rightarrow> vbody http_Response \<Rightarrow> 'w
     \<Rightarrow> vbody http_Response \<times> ValidationEndpointHandler \<times> 'w" where
  "serveValidation sys v r rsp w =
     (let ctx = request_ctx sys r w in
      case (if vs_HasBody sys r then
              (case vs_Decode sys maxValidationBodySize r w of
                 (Inl e, w1) \<Rightarrow> (if \<not> errors_Is e EOF then Inl (bad_json rsp) else Inr None, w1)
               | (Inr config, w1) \<Rightarrow> (Inr (Some config), w1))
            else (Inr None, w)) of
        (Inl rsp', w1) \<Rightarrow> (rsp', v, w1)
      | (Inr body, w1) \<Rightarrow>
          (if vs_ctxErr sys ctx w1 \<noteq> None then (timed_out rsp, v, w1)
           else
             let res = (case body of
                          None \<Rightarrow> \<lparr>vres_Valid = True, vres_Errors = [], vres_Warnings = [],
                                   vres_Timestamp = Some (vs_Now sys w1)\<rparr>
                        | Some config \<Rightarrow> ValidateGCSConfig (vs_order sys) (vh_validator v) (buildConfigMap config))
             in case send_result sys res v rsp of (rsp', v') \<Rightarrow> (rsp', v', w1)))"

text \<open>What live and dry-run validation share: the body, or the zero configuration without one.\<close>

definition read_config ::
  "'w vsys \<Rightarrow> http_Request \<Rightarrow> vbody http_Response \<Rightarrow> 'w \<Rightarrow> (vbody http_Response + GCSConfig) \<times> 'w" where
  "read_config sys r rsp w =
     (let ctx = request_ctx sys r w in
      case (if vs_HasBody sys r then decodeJSON sys r rsp w else (Inr zero_config, w)) of
        (Inl rsp', w1) \<Rightarrow> (Inl rsp', w1)
      | (Inr config, w1) \<Rightarrow>
          (if vs_ctxErr sys ctx w1 \<noteq> None then (Inl (timed_out rsp), w1) else (Inr config, w1)))"

definition serveLiveValidation ::
  "'w vsys \<Rightarrow> ValidationEndpointHandler \<Rightarrow> http_Request \<Rightarrow> vbody http_Response \<Rightarrow> 'w
     \<Rightarrow> vbody http_Response \<times> ValidationEndpointHandler \<times> 'w" where
  "serveLiveValidation sys v r rsp w =
     (case read_config sys r rsp w of
        (Inl rsp', w1) \<Rightarrow> (rsp', v, w1)
      | (Inr config, w1) \<Rightarrow>
          (case send_result sys (ValidateGCSConfig (vs_order sys) (vh_validator v) (buildConfigMap config)) v rsp of
             (rsp', v') \<Rightarrow> (rsp', v', w1)))"

definition serveDryRunValidation ::
  "'w vsys \<Rightarrow> ValidationEndpointHandler \<Rightarrow> http_Request \<Rightarrow> vbody http_Response \<Rightarrow> 'w
     \<Rightarrow> vbody http_Response \<times> ValidationEndpointHandler \<times> 'w" where
  "serveDryRunValidation sys v r rsp w =
     (case read_config sys r rsp w of
        (Inl rsp', w1) \<Rightarrow> (rsp', v, w1)
      | (Inr config, w1) \<Rightarrow>
          (let res = ValidateGCSConfig (vs_order sys) (vh_validator v) (buildConfigMap config);
               obj = [(''validation'', JResult res),
                      (''dry_run'', JObj [(''simulated'', JBool True),
                         (''message'', JStr ''Configuration validated in dry-run mode''),
                         (''timestamp'', JStr (vs_RFC3339 sys (vs_Now sys w1)))])];
               rsp1 = validation_headers sys v rsp;
               rsp2 = (if \<not> vres_Valid res then WriteHeader 400 rsp1 else rsp1)
           in (write_body (ObjectBody obj) rsp2, v, w1)))"

definition last_validation :: "ValidationResult \<Rightarrow> vjson" where
  "last_validation lv =
     JObj [(''timestamp'', JTime (vres_Timestamp lv)), (''valid'', JBool (vres_Valid lv)),
           (''errors'', JNum (length (vres_Errors lv))), (''warnings'', JNum (length (vres_Warnings lv)))]"

definition serveValidationStatus ::
  "'w vsys \<Rightarrow> ValidationEndpointHandler \<Rightarrow> http_Request \<Rightarrow> vbody http_Response \<Rightarrow> 'w
     \<Rightarrow> vbody http_Response \<times> ValidationEndpointHandler \<times> 'w" where
  "serveValidationStatus sys v r rsp w =
     (let status = [(''timestamp'', JStr (vs_RFC3339 sys (vs_Now sys w))), (''service'', JStr ''caddy-fs-gcs''),
            (''validator'', JObj [(''strict_mode'', JBool (cv_StrictMode (vh_validator v))),
               (''validate_on_load'', JBool (cv_ValidateOnLoad (vh_validator v))),
               (''custom_rules'', JNum (length (cv_CustomRules (vh_validator v))))]),
            (''endpoints'', JObj [(''validation'', JStr (vh_ValidationPath v)), (''live'', JBool (vh_EnableLive v)),
               (''dry_run'', JBool (vh_EnableDryRun v))]),
            (''custom_labels'', JLabels (vh_CustomLabels v))] @
            (case vh_lastValidation v of None \<Rightarrow> [] | Some lv \<Rightarrow> [(''last_validation'', last_validation lv)])
      in (write_body (ObjectBody status) (header_Set ''Content-Type'' ''application/json'' rsp), v, w))"

subsection \<open>Routing\<close>

definition isValidationRoute :: "ValidationEndpointHandler \<Rightarrow> http_Request \<Rightarrow> bool" where
  "isValidationRoute v r \<longleftrightarrow>
     rq_Path r = vh_ValidationPath v \<or> rq_Path r = vh_ValidationPath v @ ''/live'' \<or>
     rq_Path r = vh_ValidationPath v @ ''/dry-run'' \<or> rq_Path r = vh_ValidationPath v @ ''/status''"

text \<open>\<open>encErr\<close> is what the encoder returns when it writes the body; \<^verbatim>\<open>http.Error\<close> ends in \<^verbatim>\<open>nil\<close>.\<close>

definition written_by_encoder :: "vbody http_Response \<Rightarrow> bool" where
  "written_by_encoder rsp = (case last (rs_body rsp) of TextBody _ \<Rightarrow> False | _ \<Rightarrow> True)"

definition ServeHTTP ::
  "'w vsys \<Rightarrow> gerror option \<Rightarrow> (vbody, 'w) handler \<Rightarrow> ValidationEndpointHandler \<Rightarrow> http_Request
     \<Rightarrow> vbody http_Response \<Rightarrow> 'w \<Rightarrow> (gerror option \<times> vbody http_Response) \<times> ValidationEndpointHandler \<times> 'w" where
  "ServeHTTP sys encErr next v r rsp w =
     (let served = (\<lambda>(rsp', v', w'). ((if written_by_encoder rsp' then encErr else None, rsp'), v', w'));
          passed = (case next rsp w of ((err, rsp'), w') \<Rightarrow> ((err, rsp'), v, w'))
      in if \<not> isValidationRoute v r then passed
         else if (vh_LocalOnly v = None \<or> vh_LocalOnly v = Some True) \<and> \<not> request_is_loopback (rq_RemoteAddr r) then
           ((None, http_Error TextBody ''Forbidden'' 403 rsp), v, w)
         else if rq_Path r = vh_ValidationPath v then served (serveValidation sys v r rsp w)
         else if rq_Path r = vh_ValidationPath v @ ''/live'' then
           (if vh_EnableLive v then served (serveLiveValidation sys v r rsp w) else passed)
         else if rq_Path r = vh_ValidationPath v @ ''/dry-run'' then
           (if vh_EnableDryRun v then served (serveDryRunValidation sys v r rsp w) else passed)
         else if rq_Path r = vh_ValidationPath v @ ''/status'' then served (serveValidationStatus sys v r rsp w)
         else passed)"

subsection \<open>Remote clients\<close>

text \<open>A sequence of requests, each answered on a fresh response.\<close>

fun serve_all ::
  "'w vsys \<Rightarrow> gerror option \<Rightarrow> (vbody, 'w) handler \<Rightarrow> ValidationEndpointHandler \<Rightarrow> http_Request list \<Rightarrow> 'w
     \<Rightarrow> vbody http_Response list \<times> ValidationEndpointHandler \<times> 'w" where
  "serve_all sys encErr next v [] w = ([], v, w)"
| "serve_all sys encErr next v (r # rs) w =
     (case ServeHTTP sys encErr next v r no_response w of
        ((err, rsp), v1, w1) \<Rightarrow>
          (case serve_all sys encErr next v1 rs w1 of (rsps, v2, w2) \<Rightarrow> (rsp # rsps, v2, w2)))"

definition forbidden :: "vbody http_Response" where
  "forbidden = http_Error TextBody ''Forbidden'' 403 no_response"

definition remote_answer :: "(vbody, 'w) handler \<Rightarrow> ValidationEndpointHandler \<Rightarrow> http_Request \<Rightarrow> 'w \<Rightarrow> vbody http_Response \<times> 'w" where
  "remote_answer next v r w =
     (if isValidationRoute v r then (forbidden, w) else (case next no_response w of ((err, rsp), w') \<Rightarrow> (rsp, w')))"

fun remote_answers :: "(vbody, 'w) handler \<Rightarrow> ValidationEndpointHandler \<Rightarrow> http_Request list \<Rightarrow> 'w \<Rightarrow> vbody http_Response list \<times> 'w" where
  "remote_answers next v [] w = ([], w)"
| "remote_answers next v (r # rs) w =
     (case remote_answer next v r w of (rsp, w1) \<Rightarrow>
        (case remote_answers next v rs w1 of (rsps, w2) \<Rightarrow> (rsp # rsps, w2)))"

lemma ServeHTTP_remote:
  assumes "vh_LocalOnly v \<noteq> Some False" and "\<not> request_is_loopback (rq_RemoteAddr r)"
  shows "\<exists>err. ServeHTTP sys encErr next v r no_response w =
    ((err, fst (remote_answer next v r w)), v, snd (remote_answer next v r w))"
proof -
  have "vh_LocalOnly v = None \<or> vh_LocalOnly v = Some True" using assms(1) by (cases "vh_LocalOnly v") auto
  with assms(2) show ?thesis
    by (cases "isValidationRoute v r") (auto simp: ServeHTTP_def remote_answer_def forbidden_def Let_def split: prod.splits)
qed

lemma serve_all_remote:
  assumes "vh_LocalOnly v \<noteq> Some False" and "list_all (\<lambda>r. \<not> request_is_loopback (rq_RemoteAddr r)) rs"
  shows "serve_all sys encErr next v rs w =
    (fst (remote_answers next v rs w), v, snd (remote_answers next v rs w))"
  using assms(2)
proof (induction rs arbitrary: w)
  case (Cons r rs)
  then obtain err where "ServeHTTP sys encErr next v r no_response w =
      ((err, fst (remote_answer next v r w)), v, snd (remote_answer next v r w))"
    using ServeHTTP_remote [OF assms(1), of r sys encErr "next" w] by auto
  with Cons show ?case by (simp split: prod.splits)
qed simp

lemma Provision_fields [simp]:
  "vh_LocalOnly (Provision b lib v) \<noteq> Some False \<longleftrightarrow> vh_LocalOnly v \<noteq> Some False"
  "cv_rules (vh_validator (Provision b lib v)) = cv_rules (NewConfigValidator lib)"
  "vh_lastValidation (Provision b lib v) = vh_lastValidation v"
  by (auto simp: Provision_def split: option.splits)

text \<open>
  C12. Unless local-only access was switched off, clients elsewhere can do nothing with a provisioned
  validation handler: whatever they send, every validation path answers 403 with the fixed text,
  every other path answers what the next handler answers, and the handler, the last result
  included, stays as it was. The answers are those of a function that has no access to the body
  decoder, the clock, the rules or the last result.
\<close>

theorem remote_clients_refused:
  assumes "vh_LocalOnly v0 \<noteq> Some False"
    and "list_all (\<lambda>r. \<not> request_is_loopback (rq_RemoteAddr r)) rs"
  shows "serve_all sys encErr next (Provision b lib v0) rs w =
    (fst (remote_answers next (Provision b lib v0) rs w), Provision b lib v0,
     snd (remote_answers next (Provision b lib v0) rs w))"
  by (rule serve_all_remote) (use assms in simp_all)

subsection \<open>Samples\<close>

definition sample_vh :: ValidationEndpointHandler where
  "sample_vh = \<lparr>vh_ValidationPath = [], vh_EnableLive = True, vh_EnableDryRun = True, vh_StrictMode = False,
     vh_ValidateOnLoad = False, vh_CustomLabels = [], vh_LocalOnly = None,
     vh_validator = NewConfigValidator plain_lib, vh_lastValidation = None\<rparr>"

definition sample_vsys :: "nat vsys" where
  "sample_vsys = \<lparr>vs_Now = int, vs_RFC3339 = (\<lambda>t. ''now''), vs_ctxErr = (\<lambda>ctx w. None), vs_HasBody = (\<lambda>r. True),
     vs_Decode = (\<lambda>limit r w. (Inr (zero_config\<lparr>gc_BucketName := ''abc''\<rparr>), Suc w)), vs_order = id\<rparr>"

definition sample_req :: "string \<Rightarrow> string \<Rightarrow> http_Request" where
  "sample_req peer p = \<lparr>rq_Method = ''POST'', rq_Path = p, rq_RemoteAddr = peer, rq_ctx = \<lparr>ctx_deadline = None\<rparr>\<rparr>"

definition not_found :: "(vbody, nat) handler" where
  "not_found rsp w = ((None, http_Error TextBody ''404'' 404 rsp), w)"

definition sample_build :: build_vars where
  "sample_build = \<lparr>bv_Version = ''1.0.0'', bv_BuildTime = ''unknown'', bv_Commit = ''unknown''\<rparr>"

theorem remote_clients_refused_witness:
  "serve_all sample_vsys None not_found (Provision sample_build plain_lib sample_vh)
     [sample_req remote_peer ''/validate''] 0 = ([forbidden], Provision sample_build plain_lib sample_vh, 0)"
  using remote_clients_refused [of sample_vh "[sample_req remote_peer ''/validate'']"
      sample_vsys None not_found sample_build plain_lib 0]
  by (simp add: sample_vh_def sample_req_def remote_answer_def isValidationRoute_def Provision_def)

subsection \<open>What the status endpoint reports\<close>

text \<open>
  The results a response carries: as its body, or inside the object a dry run answers with.
  Those sent as the body are the ones the handler records.
\<close>

definition body_results :: "vbody \<Rightarrow> ValidationResult list" where
  "body_results b =
     (case b of
        ResultBody res \<Rightarrow> [res]
      | ObjectBody obj \<Rightarrow> (case gomap_get obj ''validation'' of Some (JResult res) \<Rightarrow> [res] | _ \<Rightarrow> [])
      | TextBody _ \<Rightarrow> [])"

definition results :: "vbody http_Response \<Rightarrow> ValidationResult list" where
  "results rsp = concat (map body_results (rs_body rsp))"

definition recorded :: "vbody http_Response \<Rightarrow> ValidationResult list" where
  "recorded rsp = concat (map (\<lambda>b. case b of ResultBody res \<Rightarrow> [res] | _ \<Rightarrow> []) (rs_body rsp))"

definition newest :: "ValidationResult option \<Rightarrow> ValidationResult list \<Rightarrow> ValidationResult option" where
  "newest old rs = (if rs = [] then old else Some (last rs))"

definition honest_code :: "vbody http_Response \<Rightarrow> bool" where
  "honest_code rsp \<longleftrightarrow> (\<forall>res \<in> set (results rsp). rs_code rsp = Some (if vres_Valid res then 200 else 400))"

text \<open>What one call may do to the handler: replace the last result by the one it sends as its body.\<close>

definition answer_ok :: "ValidationEndpointHandler \<Rightarrow> vbody http_Response \<Rightarrow> ValidationEndpointHandler \<Rightarrow> bool" where
  "answer_ok v rsp v' \<longleftrightarrow>
     v' = v\<lparr>vh_lastValidation := newest (vh_lastValidation v) (recorded rsp)\<rparr> \<and> honest_code rsp"

lemma results_simps [simp]:
  "results no_response = []"
  "results (header_Set k x rsp) = results rsp" "results (WriteHeader c rsp) = results rsp"
  "results (http_Error TextBody msg c rsp) = results rsp"
  "results (write_body b rsp) = results rsp @ body_results b"
  by (simp_all add: results_def no_response_def body_results_def)

lemma recorded_simps [simp]:
  "recorded no_response = []"
  "recorded (header_Set k x rsp) = recorded rsp" "recorded (WriteHeader c rsp) = recorded rsp"
  "recorded (http_Error TextBody msg c rsp) = recorded rsp"
  "recorded (write_body b rsp) = recorded rsp @ (case b of ResultBody res \<Rightarrow> [res] | _ \<Rightarrow> [])"
  by (simp_all add: recorded_def no_response_def)

lemma recorded_results: "results rsp = [] \<Longrightarrow> recorded rsp = []"
  unfolding results_def recorded_def by (fastforce simp: body_results_def split: vbody.splits)

lemma newest_simps [simp]:
  "newest old [] = old" "newest old (xs @ [x]) = Some x" "newest old [x] = Some x"
  "newest (newest old xs) ys = newest old (xs @ ys)"
  by (simp_all add: newest_def)

lemma validation_labels_keep [simp]:
  "rs_code (validation_labels ord labels rsp) = rs_code rsp" "results (validation_labels ord labels rsp) = results rsp"
  "recorded (validation_labels ord labels rsp) = recorded rsp"
proof -
  have "rs_code (fold (\<lambda>(k, v). header_Set (''X-Validation-'' @ k) v) kvs rsp) = rs_code rsp \<and>
      results (fold (\<lambda>(k, v). header_Set (''X-Validation-'' @ k) v) kvs rsp) = results rsp \<and>
      recorded (fold (\<lambda>(k, v). header_Set (''X-Validation-'' @ k) v) kvs rsp) = recorded rsp" for kvs
    by (induction kvs arbitrary: rsp) auto
  then show "rs_code (validation_labels ord labels rsp) = rs_code rsp"
      "results (validation_labels ord labels rsp) = results rsp"
      "recorded (validation_labels ord labels rsp) = recorded rsp"
    by (simp_all add: validation_labels_def)
qed

lemma validation_headers_keep [simp]:
  "rs_code (validation_headers sys v rsp) = rs_code rsp" "results (validation_headers sys v rsp) = results rsp"
  "recorded (validation_headers sys v rsp) = recorded rsp"
  by (simp_all add: validation_headers_def)

lemma no_response_code [simp]: "rs_code no_response = None"
  by (simp add: no_response_def)

lemma send_result_ok: "send_result sys res v no_response = (rsp, v') \<Longrightarrow> answer_ok v rsp v'"
  by (auto simp: send_result_def answer_ok_def honest_code_def body_results_def Let_def)

lemma no_result_ok: "results rsp = [] \<Longrightarrow> answer_ok v rsp v"
  by (simp add: answer_ok_def honest_code_def recorded_results)

lemma refusals_have_no_result [simp]: "results (bad_json rsp) = results rsp" "results (timed_out rsp) = results rsp"
  by (simp_all add: bad_json_def timed_out_def)

lemma read_config_refusal: "read_config sys r no_response w = (Inl rsp, w') \<Longrightarrow> results rsp = []"
  by (auto simp: read_config_def decodeJSON_def Let_def split: if_splits prod.splits sum.splits)

lemma serve_endpoints_ok:
  "serveValidation sys v r no_response w = (rsp, v', w') \<Longrightarrow> answer_ok v rsp v'"
  "serveLiveValidation sys v r no_response w = (rsp, v', w') \<Longrightarrow> answer_ok v rsp v'"
  "serveDryRunValidation sys v r no_response w = (rsp, v', w') \<Longrightarrow> answer_ok v rsp v'"
  "serveValidationStatus sys v r no_response w = (rsp, v', w') \<Longrightarrow> answer_ok v rsp v'"
proof -
  show "answer_ok v rsp v'" if "serveValidation sys v r no_response w = (rsp, v', w')"
    using that unfolding serveValidation_def Let_def
    by (auto intro: no_result_ok send_result_ok split: if_splits prod.splits sum.splits)
  show "answer_ok v rsp v'" if "serveLiveValidation sys v r no_response w = (rsp, v', w')"
    using that unfolding serveLiveValidation_def
    by (auto intro: no_result_ok send_result_ok dest: read_config_refusal split: prod.splits sum.splits)
  show "answer_ok v rsp v'" if "serveDryRunValidation sys v r no_response w = (rsp, v', w')"
    using that unfolding serveDryRunValidation_def Let_def
    by (auto dest!: read_config_refusal simp: answer_ok_def honest_code_def body_results_def recorded_results
        split: prod.splits sum.splits if_splits)
  show "answer_ok v rsp v'" if "serveValidationStatus sys v r no_response w = (rsp, v', w')"
    using that unfolding serveValidationStatus_def Let_def
    by (auto intro!: no_result_ok simp: body_results_def split: option.splits)
qed

lemma ServeHTTP_ok:
  assumes "\<forall>w. results (snd (fst (next no_response w))) = []"
    and "ServeHTTP sys encErr next v r no_response w = ((err, rsp), v', w')"
  shows "answer_ok v rsp v'"
proof -
  have "answer_ok v rsp v" if "next no_response w = ((err, rsp), w')" for err rsp w w'
    using assms(1) [rule_format, of w] that by (simp add: no_result_ok)
  then show ?thesis
    using assms(2) unfolding ServeHTTP_def Let_def
    by (auto intro: no_result_ok serve_endpoints_ok split: if_splits prod.splits)
qed

lemma serve_all_ok:
  assumes "\<forall>w. results (snd (fst (next no_response w))) = []"
    and "serve_all sys encErr next v rs w = (rsps, v', w')"
  shows "v' = v\<lparr>vh_lastValidation := newest (vh_lastValidation v) (concat (map recorded rsps))\<rparr> \<and> list_all honest_code rsps"
  using assms(2)
proof (induction rs arbitrary: v w rsps)
  case (Cons r rs)
  then obtain err rsp v1 w1 rsps1 where one: "ServeHTTP sys encErr next v r no_response w = ((err, rsp), v1, w1)"
      and rest: "serve_all sys encErr next v1 rs w1 = (rsps1, v', w')" and rsps: "rsps = rsp # rsps1"
    by (auto split: prod.splits)
  from ServeHTTP_ok [OF assms(1) one] Cons.IH [OF rest] rsps show ?case by (simp add: answer_ok_def)
qed simp

text \<open>
  C13. Whatever sequence of requests a handler serves in front of a handler that sends no validation
  results of its own, every result it sent, those inside the objects of dry runs included, came
  with status 200 if it was valid and 400 if not. The handler remembers the last result that
  the validation or the live endpoint sent; dry runs leave no trace and nothing else of it has
  changed. The status endpoint then answers 200 and reports exactly that result, or none if
  there has been none.
\<close>

theorem status_reports_last_result:
  assumes "\<forall>w. results (snd (fst (next no_response w))) = []"
    and "serve_all sys encErr next v rs w = (rsps, v', w')"
  shows "v' = v\<lparr>vh_lastValidation := newest (vh_lastValidation v) (concat (map recorded rsps))\<rparr> \<and>
    list_all honest_code rsps \<and>
    (\<exists>obj. fst (serveValidationStatus sys v' r no_response w') =
        Response [(''Content-Type'', ''application/json'')] (Some 200) [ObjectBody obj] \<and>
      gomap_get obj ''last_validation'' =
        map_option last_validation (newest (vh_lastValidation v) (concat (map recorded rsps))))"
  using serve_all_ok [OF assms]
  by (auto simp: serveValidationStatus_def no_response_def header_Set_def write_body_def WriteHeader_def
      CanonicalHeaderKey_def validHeaderFieldByte_def is_upper_def is_lower_def to_upper_def to_lower_def Let_def
      split: option.splits)

lemma sample_run:
  "\<exists>rsp v' w'. serve_all sample_vsys None not_found (Provision sample_build plain_lib sample_vh)
       [sample_req local_peer ''/validate''] 0 = ([rsp], v', w') \<and> length (recorded rsp) = 1"
  by (simp add: sample_req_def sample_vh_def sample_vsys_def Provision_def ServeHTTP_def isValidationRoute_def
      serveValidation_def send_result_def validation_headers_def Let_def)

theorem status_reports_last_result_witness:
  "\<exists>rsp v' w' obj. serve_all sample_vsys None not_found (Provision sample_build plain_lib sample_vh)
       [sample_req local_peer ''/validate''] 0 = ([rsp], v', w') \<and>
     fst (serveValidationStatus sample_vsys v' (sample_req local_peer ''/validate/status'') no_response w') =
       Response [(''Content-Type'', ''application/json'')] (Some 200) [ObjectBody obj] \<and>
     gomap_get obj ''last_validation'' = Some (last_validation (hd (recorded rsp)))"
proof -
  obtain rsp v' w' where run: "serve_all sample_vsys None not_found (Provision sample_build plain_lib sample_vh)
       [sample_req local_peer ''/validate''] 0 = ([rsp], v', w')" and one: "length (recorded rsp) = 1"
    using sample_run by blast
  have "\<forall>w. results (snd (fst (not_found no_response w))) = []" by (simp add: not_found_def)
  from status_reports_last_result [OF this run, of "sample_req local_peer ''/validate/status''"] run one
  show ?thesis by (auto simp: newest_def length_Suc_conv)
qed

end
