(* ===== verification/Metrics.thy ===== *)
theory Metrics
  imports Go_Http Go_Net
begin

section \<open>Metrics\<close>

text \<open>
  Model of \<^verbatim>\<open>pkg/observability/metrics/metrics.go\<close>: the set-up of the OpenTelemetry instruments
  behind a \<^verbatim>\<open>sync.Once\<close>, the recording helpers, the route label and the middleware with the
  response writer that counts status and size. The OpenTelemetry SDK is the parameter
  \<open>otel\<close>; what is handed to an instrument is kept in a log. A call of a method on a \<^verbatim>\<open>nil\<close>
  instrument, and unlocking a mutex that is not locked, ends the process: \<^const>\<open>None\<close>.
  \<^verbatim>\<open>UnmarshalCaddyfile\<close> is in theory \<open>Directives\<close>.
\<close>

subsection \<open>The Once of package sync\<close>

record once =
  o_done :: bool
  o_locked :: bool

definition new_once :: once where
  "new_once = \<lparr>o_done = False, o_locked = False\<rparr>"

text \<open>
  \<^verbatim>\<open>(*Once).Do\<close> on the variable that \<open>get\<close> reads and \<open>put\<close> writes: the mutex is locked, \<open>f\<close>
  runs and may overwrite the variable itself, the flag is set, the mutex is unlocked.
\<close>

definition once_Do :: "('s \<Rightarrow> once) \<Rightarrow> (once \<Rightarrow> 's \<Rightarrow> 's) \<Rightarrow> ('s \<Rightarrow> 'r \<times> 's) \<Rightarrow> 'r \<Rightarrow> 's \<Rightarrow> ('r \<times> 's) option" where
  "once_Do get put f r0 s =
     (if o_done (get s) then Some (r0, s)
      else if o_locked (get s) then None
      else
        case f (put ((get s)\<lparr>o_locked := True\<rparr>) s) of
          (r, s1) \<Rightarrow>
            (let s2 = put ((get s1)\<lparr>o_done := True\<rparr>) s1 in
             if o_locked (get s2) then Some (r, put ((get s2)\<lparr>o_locked := False\<rparr>) s2) else None))"

subsection \<open>Instruments\<close>

datatype instrument =
    httpRequestDuration | httpRequestTotal | httpRequestErrors | httpResponseSize
  | gcsOperationDuration | gcsOperationsTotal | gcsOperationErrors | gcsCacheHits | gcsCacheMisses
  | gcsStreamingBytes | gcsConcurrentReqs

datatype attribute = AString string string | AInt string int

datatype mvalue = MInt int | MSeconds duration | MFloat int

record measurement =
  me_instrument :: instrument
  me_value :: mvalue
  me_attrs :: "attribute list"

record ('w, 'p) otel =
  ot_NewExporter :: "'w \<Rightarrow> gerror option \<times> 'w"
  ot_NewMeterProvider :: "'w \<Rightarrow> 'p \<times> 'w"
  ot_Create :: "'p \<Rightarrow> string \<Rightarrow> 'w \<Rightarrow> (bool \<times> gerror option) \<times> 'w" \<comment> \<open>whether the instrument is not \<^verbatim>\<open>nil\<close>\<close>
  ot_Shutdown :: "'p \<Rightarrow> 'w \<Rightarrow> gerror option \<times> 'w"

text \<open>The package variables; \<open>ms_inst\<close> says which instrument variables are not \<^verbatim>\<open>nil\<close>.\<close>

record ('w, 'p) metrics_state =
  ms_initOnce :: once
  ms_meterProvider :: "'p option"
  ms_inst :: "instrument \<Rightarrow> bool"
  ms_log :: "measurement list"
  ms_world :: 'w

definition metrics_start :: "'w \<Rightarrow> ('w, 'p) metrics_state" where
  "metrics_start w = \<lparr>ms_initOnce = new_once, ms_meterProvider = None, ms_inst = (\<lambda>_. False), ms_log = [], ms_world = w\<rparr>"

text \<open>The names, in the order of \<open>createInstruments\<close>.\<close>

definition instrument_names :: "(instrument \<times> string) list" where
  "instrument_names =
     [(httpRequestDuration, ''http.server.request.duration''), (httpRequestTotal, ''http.server.request.total''),
      (httpRequestErrors, ''http.server.request.errors''), (httpResponseSize, ''http.server.response.size''),
      (gcsOperationDuration, ''gcs.operation.duration''), (gcsOperationsTotal, ''gcs.operation.total''),
      (gcsOperationErrors, ''gcs.operation.errors''), (gcsCacheHits, ''gcs.cache.hits''),
      (gcsCacheMisses, ''gcs.cache.misses''), (gcsStreamingBytes, ''gcs.streaming.bytes''),
      (gcsConcurrentReqs, ''gcs.concurrent.requests'')]"

fun create_loop ::
  "('w, 'p) otel \<Rightarrow> 'p \<Rightarrow> (instrument \<times> string) list \<Rightarrow> ('w, 'p) metrics_state \<Rightarrow> gerror option \<times> ('w, 'p) metrics_state" where
  "create_loop otel p [] s = (None, s)"
| "create_loop otel p ((i, nm) # rest) s =
     (case ot_Create otel p nm (ms_world s) of
        ((made, err), w) \<Rightarrow>
          (let s1 = s\<lparr>ms_inst := (ms_inst s)(i := made), ms_world := w\<rparr> in
           case err of
             Some e \<Rightarrow> (Some (WrapError (''create '' @ nm) [e]), s1)
           | None \<Rightarrow> create_loop otel p rest s1))"

definition createInstruments :: "('w, 'p) otel \<Rightarrow> 'p \<Rightarrow> ('w, 'p) metrics_state \<Rightarrow> gerror option \<times> ('w, 'p) metrics_state" where
  "createInstruments otel p s = create_loop otel p instrument_names s"

definition init_body :: "('w, 'p) otel \<Rightarrow> ('w, 'p) metrics_state \<Rightarrow> gerror option \<times> ('w, 'p) metrics_state" where
  "init_body otel s =
     (case ot_NewExporter otel (ms_world s) of
        (Some e, w) \<Rightarrow>
          (Some (WrapError ''create prometheus exporter'' [e]), s\<lparr>ms_initOnce := new_once, ms_world := w\<rparr>)
      | (None, w) \<Rightarrow>
          (case ot_NewMeterProvider otel w of
             (p, w1) \<Rightarrow> createInstruments otel p (s\<lparr>ms_meterProvider := Some p, ms_world := w1\<rparr>)))"

definition Init :: "('w, 'p) otel \<Rightarrow> ('w, 'p) metrics_state \<Rightarrow> (gerror option \<times> ('w, 'p) metrics_state) option" where
  "Init otel s = once_Do ms_initOnce (\<lambda>v s. s\<lparr>ms_initOnce := v\<rparr>) (init_body otel) None s"

definition Shutdown :: "('w, 'p) otel \<Rightarrow> ('w, 'p) metrics_state \<Rightarrow> gerror option \<times> ('w, 'p) metrics_state" where
  "Shutdown otel s =
     (case ms_meterProvider s of
        Some p \<Rightarrow>
          (case ot_Shutdown otel p (ms_world s) of
             (Some e, w) \<Rightarrow> (Some (WrapError ''shutdown meter provider'' [e]), s\<lparr>ms_world := w\<rparr>)
           | (None, w) \<Rightarrow> (None, s\<lparr>ms_meterProvider := None, ms_initOnce := new_once, ms_world := w\<rparr>))
      | None \<Rightarrow> (None, s\<lparr>ms_initOnce := new_once\<rparr>))"

subsection \<open>Recording\<close>

definition record_value :: "instrument \<Rightarrow> mvalue \<Rightarrow> attribute list \<Rightarrow> ('w, 'p) metrics_state \<Rightarrow> ('w, 'p) metrics_state option" where
  "record_value i v as s =
     (if ms_inst s i then Some (s\<lparr>ms_log := ms_log s @ [\<lparr>me_instrument = i, me_value = v, me_attrs = as\<rparr>]\<rparr>)
      else None)"

definition strings_Cut :: "string \<Rightarrow> char \<Rightarrow> (string \<times> string) option" where
  "strings_Cut s c = (case index_byte c s of None \<Rightarrow> None | Some i \<Rightarrow> Some (take i s, drop (i + 1) s))"

definition NormalizeRoute :: "string \<Rightarrow> string" where
  "NormalizeRoute rawPath =
     (if rawPath = [] \<or> rawPath = ''/'' then ''/''
      else
        let trimmed = TrimPrefix rawPath ''/'' in
        case strings_Cut trimmed CHR ''/'' of
          Some (before, _) \<Rightarrow> ''/'' @ before @ ''/''
        | None \<Rightarrow> ''/'' @ trimmed)"

definition RecordHTTPRequest ::
  "string \<Rightarrow> string \<Rightarrow> int \<Rightarrow> duration \<Rightarrow> int \<Rightarrow> ('w, 'p) metrics_state \<Rightarrow> ('w, 'p) metrics_state option" where
  "RecordHTTPRequest method path statusCode dur respSize s =
     (if \<not> ms_inst s httpRequestTotal then Some s
      else
        let as = [AString ''http.method'' method, AString ''http.route'' (NormalizeRoute path), AInt ''http.status_code'' statusCode] in
        Option.bind (record_value httpRequestTotal (MInt 1) as s) (\<lambda>s1.
        Option.bind (record_value httpRequestDuration (MSeconds dur) as s1) (\<lambda>s2.
        Option.bind (record_value httpResponseSize (MFloat respSize) as s2) (\<lambda>s3.
        if statusCode \<ge> 400 then record_value httpRequestErrors (MInt 1) as s3 else Some s3))))"

definition RecordGCSOperation ::
  "string \<Rightarrow> string \<Rightarrow> string \<Rightarrow> duration \<Rightarrow> ('w, 'p) metrics_state \<Rightarrow> ('w, 'p) metrics_state option" where
  "RecordGCSOperation operation bucket status dur s =
     (if \<not> ms_inst s gcsOperationsTotal then Some s
      else
        let as = [AString ''gcs.operation'' operation, AString ''gcs.bucket'' bucket, AString ''gcs.status'' status] in
        Option.bind (record_value gcsOperationsTotal (MInt 1) as s) (record_value gcsOperationDuration (MSeconds dur) as))"

text \<open>The helpers with one instrument.\<close>

definition record_if :: "instrument \<Rightarrow> mvalue \<Rightarrow> attribute list \<Rightarrow> ('w, 'p) metrics_state \<Rightarrow> ('w, 'p) metrics_state option" where
  "record_if i v as s = (if \<not> ms_inst s i then Some s else record_value i v as s)"

definition RecordGCSError :: "string \<Rightarrow> string \<Rightarrow> string \<Rightarrow> ('w, 'p) metrics_state \<Rightarrow> ('w, 'p) metrics_state option" where
  "RecordGCSError operation bucket errorType =
     record_if gcsOperationErrors (MInt 1)
       [AString ''gcs.operation'' operation, AString ''gcs.bucket'' bucket, AString ''gcs.error_type'' errorType]"

definition RecordCacheHit :: "string \<Rightarrow> string \<Rightarrow> ('w, 'p) metrics_state \<Rightarrow> ('w, 'p) metrics_state option" where
  "RecordCacheHit bucket cacheType =
     record_if gcsCacheHits (MInt 1) [AString ''gcs.bucket'' bucket, AString ''cache.type'' cacheType]"

definition RecordCacheMiss :: "string \<Rightarrow> string \<Rightarrow> ('w, 'p) metrics_state \<Rightarrow> ('w, 'p) metrics_state option" where
  "RecordCacheMiss bucket cacheType =
     record_if gcsCacheMisses (MInt 1) [AString ''gcs.bucket'' bucket, AString ''cache.type'' cacheType]"

definition RecordStreamingBytes :: "string \<Rightarrow> int \<Rightarrow> ('w, 'p) metrics_state \<Rightarrow> ('w, 'p) metrics_state option" where
  "RecordStreamingBytes bucket bytes = record_if gcsStreamingBytes (MInt bytes) [AString ''gcs.bucket'' bucket]"

definition IncConcurrentRequests :: "string \<Rightarrow> ('w, 'p) metrics_state \<Rightarrow> ('w, 'p) metrics_state option" where
  "IncConcurrentRequests bucket = record_if gcsConcurrentReqs (MInt 1) [AString ''gcs.bucket'' bucket]"

definition DecConcurrentRequests :: "string \<Rightarrow> ('w, 'p) metrics_state \<Rightarrow> ('w, 'p) metrics_state option" where
  "DecConcurrentRequests bucket = record_if gcsConcurrentReqs (MInt (- 1)) [AString ''gcs.bucket'' bucket]"

subsection \<open>The response writer\<close>

text \<open>
  The writer of the server below: the first final status is sent, informational ones go out at
  once and decide nothing, a write without a status sends 200. What a handler does with its
  writer is a list of calls; \<open>CWrite n a\<close> offers \<open>n\<close> bytes of which \<open>a\<close> are accepted, \<open>CReadFrom a\<close>
  copies \<open>a\<close> bytes from a reader.
\<close>

record net_writer =
  nw_code :: "int option"
  nw_bytes :: nat

datatype rw_call = CWriteHeader int | CWrite nat nat | CReadFrom nat | CFlush

definition informational :: "int \<Rightarrow> bool" where
  "informational c \<longleftrightarrow> 100 \<le> c \<and> c < 200 \<and> c \<noteq> 101"

definition net_implicit :: "net_writer \<Rightarrow> net_writer" where
  "net_implicit w = (if nw_code w = None then w\<lparr>nw_code := Some 200\<rparr> else w)"

fun net_call :: "rw_call \<Rightarrow> net_writer \<Rightarrow> net_writer" where
  "net_call (CWriteHeader c) w = (if nw_code w \<noteq> None \<or> informational c then w else w\<lparr>nw_code := Some c\<rparr>)"
| "net_call (CWrite n a) w = (let w1 = net_implicit w in w1\<lparr>nw_bytes := nw_bytes w1 + a\<rparr>)"
| "net_call (CReadFrom a) w = (if a = 0 then w else let w1 = net_implicit w in w1\<lparr>nw_bytes := nw_bytes w1 + a\<rparr>)"
| "net_call CFlush w = net_implicit w"

record responseWriter =
  rw_statusCode :: int
  rw_size :: int

definition rw_WriteHeader :: "int \<Rightarrow> responseWriter \<Rightarrow> responseWriter" where
  "rw_WriteHeader statusCode w = w\<lparr>rw_statusCode := statusCode\<rparr>"

definition rw_Write :: "nat \<Rightarrow> responseWriter \<Rightarrow> responseWriter" where
  "rw_Write len w =
     (let w1 = (if rw_statusCode w = 0 then w\<lparr>rw_statusCode := 200\<rparr> else w)
      in w1\<lparr>rw_size := wrap64 (rw_size w1 + int len)\<rparr>)"

definition rw_ReadFrom :: "nat \<Rightarrow> responseWriter \<Rightarrow> responseWriter" where
  "rw_ReadFrom n w =
     (let w1 = (if rw_statusCode w = 0 then w\<lparr>rw_statusCode := 200\<rparr> else w)
      in w1\<lparr>rw_size := wrap64 (rw_size w1 + int n)\<rparr>)"

text \<open>\<open>Flush\<close> only passes on to the writer below.\<close>

definition rw_Flush :: "responseWriter \<Rightarrow> responseWriter" where
  "rw_Flush w = w"

fun rw_step :: "rw_call \<Rightarrow> responseWriter \<times> net_writer \<Rightarrow> responseWriter \<times> net_writer" where
  "rw_step (CWriteHeader c) (w, u) = (rw_WriteHeader c w, net_call (CWriteHeader c) u)"
| "rw_step (CWrite n a) (w, u) = (rw_Write n w, net_call (CWrite n a) u)"
| "rw_step (CReadFrom a) (w, u) = (rw_ReadFrom a w, net_call (CReadFrom a) u)"
| "rw_step CFlush (w, u) = (rw_Flush w, net_call CFlush u)"

subsection \<open>The middleware\<close>

record MetricsHandler =
  mh_MetricsPath :: string

definition Provision ::
  "('w, 'p) otel \<Rightarrow> MetricsHandler \<Rightarrow> ('w, 'p) metrics_state \<Rightarrow> (gerror option \<times> MetricsHandler \<times> ('w, 'p) metrics_state) option" where
  "Provision otel m s =
     map_option (\<lambda>(err, s'). (err, m\<lparr>mh_MetricsPath := (if mh_MetricsPath m = [] then ''/metrics'' else mh_MetricsPath m)\<rparr>, s'))
       (Init otel s)"

text \<open>
  \<open>old\<close> is the wrapper the pool hands out, left by any earlier request; \<open>next\<close> yields the calls the
  next handler makes on its writer and the error it returns; \<open>clock\<close> reads the time.
\<close>

definition ServeHTTP ::
  "('w \<Rightarrow> int) \<Rightarrow> (http_Request \<Rightarrow> 'w \<Rightarrow> rw_call list \<times> gerror option \<times> 'w) \<Rightarrow> responseWriter \<Rightarrow> http_Request
     \<Rightarrow> net_writer \<Rightarrow> ('w, 'p) metrics_state \<Rightarrow> (gerror option \<times> net_writer \<times> ('w, 'p) metrics_state) option" where
  "ServeHTTP clock next old r u s =
     (let start = clock (ms_world s);
          wrapped = old\<lparr>rw_statusCode := 0, rw_size := 0\<rparr>
      in case next r (ms_world s) of
           (calls, err, w1) \<Rightarrow>
             (case fold rw_step calls (wrapped, u) of
                (wrapped1, u1) \<Rightarrow>
                  (let code = (if rw_statusCode wrapped1 = 0 then (if err \<noteq> None then 500 else 200) else rw_statusCode wrapped1)
                   in map_option (\<lambda>s'. (err, u1, s'))
                        (RecordHTTPRequest (rq_Method r) (rq_Path r) code (clock w1 - start) (rw_size wrapped1)
                           (s\<lparr>ms_world := w1\<rparr>)))))"

subsection \<open>Initialisation\<close>

text \<open>What the SDK promises: an instrument made without an error is there.\<close>

definition otel_sound :: "('w, 'p) otel \<Rightarrow> bool" where
  "otel_sound otel \<longleftrightarrow> (\<forall>p nm w made w'. ot_Create otel p nm w = ((made, None), w') \<longrightarrow> made)"

definition all_made :: "('w, 'p) metrics_state \<Rightarrow> bool" where
  "all_made s \<longleftrightarrow> (\<forall>i. ms_inst s i)"

definition none_made :: "('w, 'p) metrics_state \<Rightarrow> bool" where
  "none_made s \<longleftrightarrow> (\<forall>i. \<not> ms_inst s i)"

lemma instrument_names_all: "i \<in> fst ` set instrument_names"
  by (cases i) (simp_all add: instrument_names_def)

lemma create_loop_frame:
  "create_loop otel p ins s = (err, s') \<Longrightarrow>
     ms_initOnce s' = ms_initOnce s \<and> ms_meterProvider s' = ms_meterProvider s \<and> ms_log s' = ms_log s"
proof (induction ins arbitrary: s)
  case (Cons x ins)
  then show ?case by (cases x) (auto simp: Let_def split: prod.splits option.splits; fastforce)
qed simp

lemma create_loop_made:
  assumes "otel_sound otel"
  shows "create_loop otel p ins s = (None, s') \<Longrightarrow> ms_inst s' i \<longleftrightarrow> i \<in> fst ` set ins \<or> ms_inst s i"
proof (induction ins arbitrary: s)
  case (Cons x ins)
  obtain j nm where x: "x = (j, nm)" by force
  obtain made w where c: "ot_Create otel p nm (ms_world s) = ((made, None), w)"
    and rest: "create_loop otel p ins (s\<lparr>ms_inst := (ms_inst s)(j := made), ms_world := w\<rparr>) = (None, s')"
    using Cons.prems x by (auto simp: Let_def split: prod.splits option.splits)
  from assms c have made unfolding otel_sound_def by blast
  with Cons.IH [OF rest] x show ?case by auto
qed simp

lemma createInstruments_made:
  assumes "otel_sound otel" and "createInstruments otel p s = (None, s')"
  shows "all_made s'"
  unfolding all_made_def
proof
  fix i
  show "ms_inst s' i"
    using create_loop_made [OF assms(1), of p instrument_names s s' i] assms(2) instrument_names_all [of i]
    by (simp add: createInstruments_def)
qed

lemma createInstruments_frame:
  "createInstruments otel p s = (err, s') \<Longrightarrow>
     ms_initOnce s' = ms_initOnce s \<and> ms_meterProvider s' = ms_meterProvider s \<and> ms_log s' = ms_log s"
  unfolding createInstruments_def by (rule create_loop_frame)

lemma Init_done: "o_done (ms_initOnce s) \<Longrightarrow> Init otel s = Some (None, s)"
  by (simp add: Init_def once_Do_def)

lemma Init_exporter_fails:
  assumes "ms_initOnce s = new_once" and "ot_NewExporter otel (ms_world s) = (Some e, w)"
  shows "Init otel s = None"
  using assms by (simp add: Init_def once_Do_def init_body_def new_once_def Let_def)

lemma Init_exporter_works:
  assumes "ms_initOnce s = new_once" and "ot_NewExporter otel (ms_world s) = (None, w)"
  obtains err s' p w1 s1 where "Init otel s = Some (err, s')" "ot_NewMeterProvider otel w = (p, w1)"
    "createInstruments otel p (s\<lparr>ms_initOnce := \<lparr>o_done = False, o_locked = True\<rparr>, ms_meterProvider := Some p, ms_world := w1\<rparr>) = (err, s1)"
    "s' = s1\<lparr>ms_initOnce := \<lparr>o_done = True, o_locked = False\<rparr>\<rparr>"
proof -
  obtain p w1 where p: "ot_NewMeterProvider otel w = (p, w1)" by force
  let ?s0 = "s\<lparr>ms_initOnce := \<lparr>o_done = False, o_locked = True\<rparr>, ms_meterProvider := Some p, ms_world := w1\<rparr>"
  obtain err s1 where c: "createInstruments otel p ?s0 = (err, s1)" by force
  have "ms_initOnce s1 = \<lparr>o_done = False, o_locked = True\<rparr>" using createInstruments_frame [OF c] by simp
  with assms p c have "Init otel s = Some (err, s1\<lparr>ms_initOnce := \<lparr>o_done = True, o_locked = False\<rparr>\<rparr>)"
    by (simp add: Init_def once_Do_def init_body_def new_once_def Let_def)
  with p c that show thesis by blast
qed

text \<open>
  C15. What the first \<open>Init\<close> does. If the exporter cannot be made, the process dies: the body
  of the \<^verbatim>\<open>Once\<close> overwrites the \<^verbatim>\<open>Once\<close> while its mutex is held, and unlocking the fresh mutex is
  fatal, where the comment wants the next call to retry. If the exporter is made, \<open>Init\<close> returns;
  without an error every instrument is there; but after an error in making instruments, the next
  call reports success with instruments missing.
\<close>

theorem init_outcomes:
  assumes "otel_sound otel" and "ms_initOnce s = new_once"
  shows "(\<forall>e w. ot_NewExporter otel (ms_world s) = (Some e, w) \<longrightarrow> Init otel s = None) \<and>
    (\<forall>w. ot_NewExporter otel (ms_world s) = (None, w) \<longrightarrow>
      (\<exists>err s'. Init otel s = Some (err, s') \<and> (err = None \<longrightarrow> all_made s') \<and> Init otel s' = Some (None, s')))"
proof (intro conjI allI impI)
  show "Init otel s = None" if "ot_NewExporter otel (ms_world s) = (Some e, w)" for e w
    using Init_exporter_fails [OF assms(2) that] .
  show "\<exists>err s'. Init otel s = Some (err, s') \<and> (err = None \<longrightarrow> all_made s') \<and> Init otel s' = Some (None, s')"
    if "ot_NewExporter otel (ms_world s) = (None, w)" for w
  proof (rule Init_exporter_works [OF assms(2) that], goal_cases)
    case (1 err s' p w1 s1)
    then have "err = None \<longrightarrow> all_made s'" using createInstruments_made [OF assms(1)] by (auto simp: all_made_def)
    moreover have "Init otel s' = Some (None, s')" using 1 by (intro Init_done) simp
    ultimately show ?case using 1 by blast
  qed
qed

definition working_otel :: "(nat, unit) otel" where
  "working_otel = \<lparr>ot_NewExporter = (\<lambda>w. (None, Suc w)), ot_NewMeterProvider = (\<lambda>w. ((), w)),
     ot_Create = (\<lambda>p nm w. ((True, None), Suc w)), ot_Shutdown = (\<lambda>p w. (None, Suc w))\<rparr>"

definition broken_otel :: "(nat, unit) otel" where
  "broken_otel = working_otel\<lparr>ot_NewExporter := (\<lambda>w. (Some (OtherError ''duplicate collector''), w))\<rparr>"

theorem init_outcomes_witness:
  "Init broken_otel (metrics_start 0) = None \<and>
   (\<exists>err s'. Init working_otel (metrics_start 0) = Some (err, s') \<and> (err = None \<longrightarrow> all_made s') \<and>
      Init working_otel s' = Some (None, s'))"
  using init_outcomes [of broken_otel "metrics_start 0"] init_outcomes [of working_otel "metrics_start 0"]
  by (simp add: otel_sound_def broken_otel_def working_otel_def metrics_start_def)

subsection \<open>Recording never panics\<close>

datatype mop =
    MInit
  | MShutdown
  | MHTTPRequest string string int duration int
  | MGCSOperation string string string duration
  | MGCSError string string string
  | MCacheHit string string
  | MCacheMiss string string
  | MStreamingBytes string int
  | MIncConcurrent string
  | MDecConcurrent string

fun metrics_exec :: "('w, 'p) otel \<Rightarrow> mop \<Rightarrow> ('w, 'p) metrics_state \<Rightarrow> ('w, 'p) metrics_state option" where
  "metrics_exec otel MInit s = map_option snd (Init otel s)"
| "metrics_exec otel MShutdown s = Some (snd (Shutdown otel s))"
| "metrics_exec otel (MHTTPRequest m p c d n) s = RecordHTTPRequest m p c d n s"
| "metrics_exec otel (MGCSOperation op b st d) s = RecordGCSOperation op b st d s"
| "metrics_exec otel (MGCSError op b e) s = RecordGCSError op b e s"
| "metrics_exec otel (MCacheHit b t) s = RecordCacheHit b t s"
| "metrics_exec otel (MCacheMiss b t) s = RecordCacheMiss b t s"
| "metrics_exec otel (MStreamingBytes b n) s = RecordStreamingBytes b n s"
| "metrics_exec otel (MIncConcurrent b) s = IncConcurrentRequests b s"
| "metrics_exec otel (MDecConcurrent b) s = DecConcurrentRequests b s"

fun metrics_run :: "('w, 'p) otel \<Rightarrow> mop list \<Rightarrow> ('w, 'p) metrics_state \<Rightarrow> ('w, 'p) metrics_state option" where
  "metrics_run otel [] s = Some s"
| "metrics_run otel (x # xs) s = Option.bind (metrics_exec otel x s) (metrics_run otel xs)"

text \<open>The once is either fresh or used up, and the instruments are there together or not at all.\<close>

definition metrics_inv :: "('w, 'p) metrics_state \<Rightarrow> bool" where
  "metrics_inv s \<longleftrightarrow> \<not> o_locked (ms_initOnce s) \<and> (all_made s \<or> none_made s) \<and> (o_done (ms_initOnce s) \<longrightarrow> all_made s)"

definition otel_reliable :: "('w, 'p) otel \<Rightarrow> bool" where
  "otel_reliable otel \<longleftrightarrow> (\<forall>w. fst (ot_NewExporter otel w) = None) \<and> (\<forall>p nm w. fst (ot_Create otel p nm w) = (True, None))"

lemma create_loop_reliable:
  assumes "otel_reliable otel"
  shows "fst (create_loop otel p ins s) = None"
proof (induction ins arbitrary: s)
  case (Cons x ins)
  obtain j nm where x: "x = (j, nm)" by force
  have "fst (ot_Create otel p nm (ms_world s)) = (True, None)" using assms by (simp add: otel_reliable_def)
  then obtain w where "ot_Create otel p nm (ms_world s) = ((True, None), w)" by (metis prod.collapse)
  with Cons x show ?case by (simp add: Let_def)
qed simp

lemma otel_reliable_sound: "otel_reliable otel \<Longrightarrow> otel_sound otel"
  unfolding otel_reliable_def otel_sound_def by (metis fst_conv)

lemma fresh_once: "\<not> o_done x \<Longrightarrow> \<not> o_locked x \<Longrightarrow> x = new_once"
  by (simp add: new_once_def)

lemma Init_inv:
  assumes "otel_reliable otel" and "metrics_inv s"
  obtains s' where "Init otel s = Some (None, s')" "metrics_inv s'" "all_made s'" "ms_log s' = ms_log s"
proof (cases "o_done (ms_initOnce s)")
  case True
  with assms(2) that [of s] Init_done show thesis by (auto simp: metrics_inv_def)
next
  case False
  with assms(2) have fresh: "ms_initOnce s = new_once" by (intro fresh_once) (auto simp: metrics_inv_def)
  obtain w where w: "ot_NewExporter otel (ms_world s) = (None, w)"
    using assms(1) unfolding otel_reliable_def by (metis prod.collapse)
  show thesis
  proof (rule Init_exporter_works [OF fresh w], goal_cases)
    case (1 err s' p w1 s1)
    have "err = None"
      using create_loop_reliable [OF assms(1)] 1(3) unfolding createInstruments_def by (metis fst_conv)
    with 1 have "all_made s1" using createInstruments_made [OF otel_reliable_sound [OF assms(1)]] by blast
    with 1 \<open>err = None\<close> createInstruments_frame [OF 1(3)] show ?case
      by (intro that [of s']) (auto simp: metrics_inv_def all_made_def)
  qed
qed

lemma Shutdown_inv:
  "metrics_inv s \<Longrightarrow> metrics_inv (snd (Shutdown otel s)) \<and> ms_log (snd (Shutdown otel s)) = ms_log s"
  by (auto simp: Shutdown_def metrics_inv_def all_made_def none_made_def new_once_def split: option.splits prod.splits)

text \<open>A recording helper returns, keeps the state and only appends to the log.\<close>

definition records :: "(('w, 'p) metrics_state \<Rightarrow> ('w, 'p) metrics_state option) \<Rightarrow> bool" where
  "records f \<longleftrightarrow> (\<forall>s. all_made s \<or> none_made s \<longrightarrow> (\<exists>l. f s = Some (s\<lparr>ms_log := ms_log s @ l\<rparr>)))"

lemma record_value_made: "ms_inst s i \<Longrightarrow> record_value i v as s = Some (s\<lparr>ms_log := ms_log s @ [\<lparr>me_instrument = i, me_value = v, me_attrs = as\<rparr>]\<rparr>)"
  by (simp add: record_value_def)

lemma records_if: "records (record_if i v as)"
  unfolding records_def
proof (intro allI impI)
  fix s :: "('w, 'p) metrics_state"
  show "\<exists>l. record_if i v as s = Some (s\<lparr>ms_log := ms_log s @ l\<rparr>)"
    by (cases "ms_inst s i") (auto simp: record_if_def record_value_made intro: exI [of _ "[]"])
qed

lemma records_http: "records (RecordHTTPRequest m p c d n)"
  unfolding records_def
proof (intro allI impI)
  fix s :: "('w, 'p) metrics_state" assume "all_made s \<or> none_made s"
  then show "\<exists>l. RecordHTTPRequest m p c d n s = Some (s\<lparr>ms_log := ms_log s @ l\<rparr>)"
    by (auto simp: RecordHTTPRequest_def record_value_made all_made_def none_made_def Let_def intro: exI [of _ "[]"])
qed

lemma records_gcs: "records (RecordGCSOperation op b st d)"
  unfolding records_def
proof (intro allI impI)
  fix s :: "('w, 'p) metrics_state" assume "all_made s \<or> none_made s"
  then show "\<exists>l. RecordGCSOperation op b st d s = Some (s\<lparr>ms_log := ms_log s @ l\<rparr>)"
    by (auto simp: RecordGCSOperation_def record_value_made all_made_def none_made_def Let_def intro: exI [of _ "[]"])
qed

lemmas recorders = records_if records_http records_gcs

lemma records_exec:
  assumes "x \<noteq> MInit" "x \<noteq> MShutdown"
  shows "records (metrics_exec otel x)"
  using assms recorders
  by (cases x) (simp_all add: records_def RecordGCSError_def RecordCacheHit_def RecordCacheMiss_def
      RecordStreamingBytes_def IncConcurrentRequests_def DecConcurrentRequests_def)

lemma metrics_exec_inv:
  assumes "otel_reliable otel" and "metrics_inv s"
  shows "\<exists>s' l. metrics_exec otel x s = Some s' \<and> metrics_inv s' \<and> ms_log s' = ms_log s @ l"
proof -
  consider "x = MInit" | "x = MShutdown" | "x \<noteq> MInit" "x \<noteq> MShutdown" by blast
  then show ?thesis
  proof cases
    case 1
    show ?thesis by (rule Init_inv [OF assms]) (simp add: 1)
  next
    case 2
    with Shutdown_inv [OF assms(2), of otel] show ?thesis by auto
  next
    case 3
    have "all_made s \<or> none_made s" using assms(2) by (simp add: metrics_inv_def)
    with records_exec [OF 3, of otel] obtain l where "metrics_exec otel x s = Some (s\<lparr>ms_log := ms_log s @ l\<rparr>)"
      unfolding records_def by blast
    with assms(2) show ?thesis by (auto simp: metrics_inv_def all_made_def none_made_def)
  qed
qed

text \<open>
  C14. As long as the SDK makes what it is asked for, no sequence of initialisations, shutdowns and
  recordings, in any order, panics; the instruments are there all together or not at all, and no
  call takes back a value handed to the instruments before it. (The log of the model is what was
  handed over; what the SDK keeps of it after a shutdown is outside the model.)
\<close>

theorem metrics_never_panic:
  assumes "otel_reliable otel" and "metrics_inv s"
  shows "\<exists>s' l. metrics_run otel xs s = Some s' \<and> metrics_inv s' \<and> ms_log s' = ms_log s @ l"
  using assms(2)
proof (induction xs arbitrary: s)
  case (Cons x xs)
  obtain s1 l where "metrics_exec otel x s = Some s1" "metrics_inv s1" "ms_log s1 = ms_log s @ l"
    using metrics_exec_inv [OF assms(1) Cons.prems] by blast
  with Cons.IH [of s1] show ?case by auto
qed simp

theorem metrics_never_panic_witness:
  "\<exists>s' l. metrics_run working_otel [MCacheHit ''b'' ''attr'', MInit, MShutdown, MHTTPRequest ''GET'' ''/a'' 404 5 0] (metrics_start 0) = Some s' \<and>
     metrics_inv s' \<and> ms_log s' = ms_log (metrics_start 0 :: (nat, unit) metrics_state) @ l"
  by (rule metrics_never_panic)
     (simp_all add: otel_reliable_def working_otel_def metrics_inv_def none_made_def metrics_start_def new_once_def)

subsection \<open>What the middleware records\<close>

abbreviation fresh_writer :: net_writer where
  "fresh_writer \<equiv> \<lparr>nw_code = None, nw_bytes = 0\<rparr>"

definition client_code :: "net_writer \<Rightarrow> int" where
  "client_code u = (case nw_code u of None \<Rightarrow> 200 | Some c \<Rightarrow> c)"

text \<open>
  A handler that keeps the rules of \<^verbatim>\<open>net/http\<close>: a status is sent at most once, before the body,
  and is a final one; and a connection that takes all that is written.
\<close>

fun polite :: "rw_call list \<Rightarrow> net_writer \<Rightarrow> bool" where
  "polite [] u = True"
| "polite (CWriteHeader c # xs) u \<longleftrightarrow>
     nw_code u = None \<and> \<not> informational c \<and> c \<noteq> 0 \<and> polite xs (net_call (CWriteHeader c) u)"
| "polite (CWrite n a # xs) u \<longleftrightarrow> a = n \<and> polite xs (net_call (CWrite n a) u)"
| "polite (x # xs) u \<longleftrightarrow> polite xs (net_call x u)"

definition tracks :: "responseWriter \<Rightarrow> net_writer \<Rightarrow> bool" where
  "tracks w u \<longleftrightarrow> (rw_statusCode w = 0 \<or> rw_statusCode w = client_code u) \<and>
     (rw_statusCode w = 0 \<longrightarrow> client_code u = 200) \<and> rw_size w = wrap64 (int (nw_bytes u))"

lemma tracks_step:
  assumes "tracks w u" and "polite [x] u"
  shows "tracks (fst (rw_step x (w, u))) (net_call x u) \<and> snd (rw_step x (w, u)) = net_call x u"
proof (cases x)
  case (CWriteHeader c)
  with assms show ?thesis by (auto simp: tracks_def rw_WriteHeader_def client_code_def)
next
  case (CWrite n a)
  with assms show ?thesis
    by (auto simp: tracks_def rw_Write_def client_code_def net_implicit_def Let_def wrap64_add_left split: option.splits)
next
  case (CReadFrom a)
  with assms show ?thesis
    by (auto simp: tracks_def rw_ReadFrom_def client_code_def net_implicit_def Let_def wrap64_add_left split: option.splits)
next
  case CFlush
  with assms show ?thesis by (auto simp: tracks_def rw_Flush_def client_code_def net_implicit_def)
qed

lemma polite_Cons: "polite (x # xs) u \<longleftrightarrow> polite [x] u \<and> polite xs (net_call x u)"
  by (cases x) auto

lemma tracks_fold:
  assumes "tracks w u" and "polite xs u"
  shows "\<exists>w'. fold rw_step xs (w, u) = (w', fold net_call xs u) \<and> tracks w' (fold net_call xs u)"
  using assms
proof (induction xs arbitrary: w u)
  case (Cons x xs)
  then have p: "polite [x] u" "polite xs (net_call x u)" by (simp_all only: polite_Cons [of x xs])
  from tracks_step [OF Cons.prems(1) p(1)]
  have "rw_step x (w, u) = (fst (rw_step x (w, u)), net_call x u)" "tracks (fst (rw_step x (w, u))) (net_call x u)"
    by (metis prod.collapse)+
  with Cons.IH [OF _ p(2)] show ?case by (metis fold_simps(2))
qed auto

definition request_measurements :: "http_Request \<Rightarrow> int \<Rightarrow> duration \<Rightarrow> int \<Rightarrow> measurement list" where
  "request_measurements r code dur n =
     (let as = [AString ''http.method'' (rq_Method r), AString ''http.route'' (NormalizeRoute (rq_Path r)), AInt ''http.status_code'' code] in
      [\<lparr>me_instrument = httpRequestTotal, me_value = MInt 1, me_attrs = as\<rparr>,
       \<lparr>me_instrument = httpRequestDuration, me_value = MSeconds dur, me_attrs = as\<rparr>,
       \<lparr>me_instrument = httpResponseSize, me_value = MFloat n, me_attrs = as\<rparr>] @
      (if code \<ge> 400 then [\<lparr>me_instrument = httpRequestErrors, me_value = MInt 1, me_attrs = as\<rparr>] else []))"

lemma RecordHTTPRequest_log:
  "all_made s \<Longrightarrow> RecordHTTPRequest (rq_Method r) (rq_Path r) code dur n s =
     Some (s\<lparr>ms_log := ms_log s @ request_measurements r code dur n\<rparr>)"
  by (simp add: RecordHTTPRequest_def request_measurements_def record_value_made all_made_def Let_def)

text \<open>
  C16. The middleware is transparent and truthful: the client gets exactly what the next handler
  wrote, and for a handler that succeeds and keeps the rules of \<^verbatim>\<open>net/http\<close> one request is recorded
  with the status and the number of body bytes the client got (an error is counted exactly for
  status 400 and above), whatever the recycled writer from the pool held before.
\<close>

theorem middleware_records_response:
  assumes "all_made s" and "next r (ms_world s) = (calls, None, w1)" and "polite calls fresh_writer"
    and "nw_bytes (fold net_call calls fresh_writer) < 2 ^ 63"
  shows "ServeHTTP clock next old r fresh_writer s =
    Some (None, fold net_call calls fresh_writer,
      s\<lparr>ms_world := w1,
        ms_log := ms_log s @ request_measurements r (client_code (fold net_call calls fresh_writer))
          (clock w1 - clock (ms_world s)) (int (nw_bytes (fold net_call calls fresh_writer)))\<rparr>)"
proof -
  let ?u = "fold net_call calls fresh_writer"
  have "tracks (old\<lparr>rw_statusCode := 0, rw_size := 0\<rparr>) fresh_writer"
    by (simp add: tracks_def client_code_def wrap64_def)
  from tracks_fold [OF this assms(3)] obtain w' where
    w': "fold rw_step calls (old\<lparr>rw_statusCode := 0, rw_size := 0\<rparr>, fresh_writer) = (w', ?u)" "tracks w' ?u" by blast
  have size: "rw_size w' = int (nw_bytes ?u)"
    using w'(2) assms(4) by (simp add: tracks_def wrap64_nonneg_id)
  have code: "(if rw_statusCode w' = 0 then 200 else rw_statusCode w') = client_code ?u"
    using w'(2) by (auto simp: tracks_def)
  have "all_made (s\<lparr>ms_world := w1\<rparr>)" using assms(1) by (simp add: all_made_def)
  with assms(2) w'(1) size code show ?thesis
    by (simp add: ServeHTTP_def Let_def RecordHTTPRequest_log [of "s\<lparr>ms_world := w1\<rparr>"] split: if_splits)
qed

definition made_state :: "(nat, unit) metrics_state" where
  "made_state = (metrics_start 0)\<lparr>ms_inst := (\<lambda>_. True)\<rparr>"

definition not_found_calls :: "http_Request \<Rightarrow> nat \<Rightarrow> rw_call list \<times> gerror option \<times> nat" where
  "not_found_calls r w = ([CWriteHeader 404, CWrite 9 9, CFlush], None, Suc w)"

definition get_request :: http_Request where
  "get_request = \<lparr>rq_Method = ''GET'', rq_Path = ''/css/a.css'', rq_RemoteAddr = [], rq_ctx = \<lparr>ctx_deadline = None\<rparr>\<rparr>"

theorem middleware_records_response_witness:
  "ServeHTTP int not_found_calls \<lparr>rw_statusCode = 500, rw_size = 77\<rparr> get_request fresh_writer made_state =
     Some (None, \<lparr>nw_code = Some 404, nw_bytes = 9\<rparr>,
       made_state\<lparr>ms_world := 1, ms_log := request_measurements get_request 404 1 9\<rparr>)"
  using middleware_records_response [of made_state not_found_calls get_request "[CWriteHeader 404, CWrite 9 9, CFlush]" 1
      int "\<lparr>rw_statusCode = 500, rw_size = 77\<rparr>"]
  by (simp add: made_state_def metrics_start_def all_made_def not_found_calls_def informational_def net_implicit_def client_code_def)

text \<open>
  Outside those rules the numbers can be wrong: an informational status before a body is recorded
  as the status of the response, and bytes the connection refused are counted as sent.
\<close>

lemma early_hints_recorded:
  "fold rw_step [CWriteHeader 103, CWrite 5 0] (\<lparr>rw_statusCode = 0, rw_size = 0\<rparr>, fresh_writer) =
     (\<lparr>rw_statusCode = 103, rw_size = 5\<rparr>, \<lparr>nw_code = Some 200, nw_bytes = 0\<rparr>)"
  by (simp add: rw_WriteHeader_def rw_Write_def informational_def net_implicit_def wrap64_def)

subsection \<open>Route labels\<close>

lemma index_byte_None: "index_byte c s = None \<longleftrightarrow> c \<notin> set s"
  by (induction s) auto

lemma index_byte_Some: "index_byte c s = Some i \<Longrightarrow> i < length s \<and> s ! i = c \<and> c \<notin> set (take i s)"
  by (induction s arbitrary: i) (auto split: if_splits)

lemma NormalizeRoute_segment:
  assumes "CHR ''/'' \<notin> set seg" and "seg \<noteq> []"
  shows "NormalizeRoute (''/'' @ seg) = ''/'' @ seg"
    and "NormalizeRoute (''/'' @ seg @ ''/'' @ rest) = ''/'' @ seg @ ''/''"
proof -
  show "NormalizeRoute (''/'' @ seg) = ''/'' @ seg"
    using assms index_byte_None [of "CHR ''/''" seg] by (simp add: NormalizeRoute_def TrimPrefix_def strings_Cut_def)
  have "index_byte CHR ''/'' (seg @ CHR ''/'' # rest) = Some (length seg)"
    using assms(1) by (induction seg) auto
  then show "NormalizeRoute (''/'' @ seg @ ''/'' @ rest) = ''/'' @ seg @ ''/''"
    using assms by (simp add: NormalizeRoute_def TrimPrefix_def strings_Cut_def)
qed

text \<open>
  A route label never carries more than the first segment of the path: paths that agree in it
  have the same label. But the first segment itself is not bounded, although the comment says
  that crafted paths cannot blow up the number of labels: every single-segment path is its own
  label, so there are infinitely many.
\<close>

lemma route_labels_unbounded:
  "(CHR ''/'' \<notin> set seg \<and> seg \<noteq> [] \<longrightarrow>
      NormalizeRoute (''/'' @ seg @ ''/'' @ rest) = NormalizeRoute (''/'' @ seg @ ''/'' @ rest')) \<and>
   inj (\<lambda>n. NormalizeRoute (''/'' @ dec n)) \<and> infinite (range NormalizeRoute)"
proof (intro conjI impI)
  show "NormalizeRoute (''/'' @ seg @ ''/'' @ rest) = NormalizeRoute (''/'' @ seg @ ''/'' @ rest')"
    if "CHR ''/'' \<notin> set seg \<and> seg \<noteq> []"
    using that by (metis NormalizeRoute_segment(2))
  have "CHR ''/'' \<notin> set (dec n)" for n using dec_digits [of "CHR ''/''" n] by (auto simp: is_digit_def)
  then have "NormalizeRoute (''/'' @ dec n) = ''/'' @ dec n" for n by (intro NormalizeRoute_segment(1)) simp_all
  then show inj: "inj (\<lambda>n. NormalizeRoute (''/'' @ dec n))" by (auto simp: inj_def dec_inject)
  have "range (\<lambda>n. NormalizeRoute (''/'' @ dec n)) \<subseteq> range NormalizeRoute" by auto
  moreover have "infinite (range (\<lambda>n. NormalizeRoute (''/'' @ dec n)))"
    using finite_imageD [OF _ inj] infinite_UNIV_nat by blast
  ultimately show "infinite (range NormalizeRoute)" by (rule infinite_super)
qed

lemma route_labels_unbounded_witness:
  "NormalizeRoute ''/css/a'' = NormalizeRoute ''/css/b/c'' \<and> infinite (range NormalizeRoute)"
  using route_labels_unbounded [of "''css''" "''a''" "''b/c''"] by simp

end
