(* ===== verification/Module.thy ===== *)
theory Module
  imports Gcs_Fs Metrics
begin

section \<open>The Caddy filesystem module\<close>

text \<open>
  Model of \<^verbatim>\<open>pkg/gcs/fs/module.go\<close>: the configuration of a \<^verbatim>\<open>gcs\<close> filesystem, its provisioning (client
  from the shared pool, attribute cache, callbacks for events and metrics, path prefix), its
  clean-up and the labels of errors. The storage package, the pool, the replacer and the process
  environment are the parameter \<open>env\<close>; what the pool promises is \<open>pool_contract\<close>.
  \<^verbatim>\<open>UnmarshalCaddyfile\<close> is in theory \<open>Directives\<close>. Shown: when provisioning succeeds and what it
  yields, that a pooled client outlives every filesystem that uses it and no longer, which
  filesystems share a client, and that the exported cache metrics agree with the cache.
\<close>

subsection \<open>State\<close>

datatype client_option =
    WithoutAuthentication
  | WithExternalAccount string
  | WithServiceAccountKey string
  | WithTokenSource string \<comment> \<open>of the impersonated account\<close>

text \<open>The world of the program: the metrics package and everything else.\<close>

record ('x, 'p) gworld =
  gw_metrics :: "(unit, 'p) metrics_state"
  gw_ext :: 'x

datatype 'w app_result = AppPanics | AppError gerror | AppOther | AppEvents "string \<Rightarrow> (string, string) gomap \<Rightarrow> 'w \<Rightarrow> 'w"

record ('w, 'c) module_env =
  mo_ReplaceAll :: "string \<Rightarrow> string"
  mo_Getenv :: "string \<Rightarrow> string"
  mo_TokenSource :: "string \<Rightarrow> 'w \<Rightarrow> gerror option \<times> 'w"
  mo_NewClient :: "client_option list \<Rightarrow> 'w \<Rightarrow> (gerror + 'c) \<times> 'w"
  mo_CloseClient :: "'c \<Rightarrow> 'w \<Rightarrow> gerror option \<times> 'w"
  mo_LoadOrNew :: "string \<Rightarrow> ('w \<Rightarrow> (gerror + 'c) \<times> 'w) \<Rightarrow> 'w \<Rightarrow> (gerror + 'c) \<times> 'w"
  mo_Delete :: "string \<Rightarrow> 'w \<Rightarrow> gerror option \<times> 'w"
  mo_App :: "'w app_result"

record ('w, 'c) GCSFS =
  g_StatFS :: "'w gcsFS option"
  g_cache :: "attrCache option" \<comment> \<open>the cache its filesystem starts with\<close>
  g_BucketName :: string
  g_PathPrefix :: string
  g_ProjectID :: string
  g_CredentialsFile :: string
  g_CredentialsConfig :: string
  g_ServiceAccount :: string
  g_UseWorkloadIdentity :: bool
  g_CacheTTL :: duration
  g_cacheTTLSet :: bool
  g_CacheMaxEntries :: int
  g_cacheMaxEntriesSet :: bool
  g_client :: "'c option"
  g_poolKey :: string

abbreviation (input) defaultCacheTTL :: duration where
  "defaultCacheTTL \<equiv> 300000000000"

abbreviation (input) defaultCacheMaxEntries :: int where
  "defaultCacheMaxEntries \<equiv> 10000"

subsection \<open>Helpers\<close>

definition clientPoolKey :: "('w, 'c) module_env \<Rightarrow> ('w, 'c) GCSFS \<Rightarrow> string" where
  "clientPoolKey env f =
     (let emulatorHost = mo_Getenv env ''STORAGE_EMULATOR_HOST'' in
      if emulatorHost \<noteq> [] then ''emulator:'' @ emulatorHost
      else if g_CredentialsConfig f \<noteq> [] then ''wif:'' @ g_CredentialsConfig f
      else if g_CredentialsFile f \<noteq> [] then ''sa:'' @ g_CredentialsFile f
      else ''adc'' @ (if g_ServiceAccount f \<noteq> [] then ''|impersonate:'' @ g_ServiceAccount f else []))"

definition loadEventsApp :: "('w, 'c) module_env \<Rightarrow> (string \<Rightarrow> (string, string) gomap \<Rightarrow> 'w \<Rightarrow> 'w) option" where
  "loadEventsApp env = (case mo_App env of AppEvents emit \<Rightarrow> Some emit | _ \<Rightarrow> None)"

definition classifyGCSError :: "gerror option \<Rightarrow> string" where
  "classifyGCSError err =
     (case err of
        None \<Rightarrow> ''none''
      | Some e \<Rightarrow>
          (if errors_Is e ErrObjectNotExist then ''not_found''
           else if errors_Is e ErrBucketNotExist then ''bucket_not_found''
           else if errors_Is e DeadlineExceeded then ''timeout''
           else if errors_Is e Canceled then ''canceled''
           else ''unknown''))"

text \<open>The constructor handed to the pool. (The account is quoted in the message; the quotes are left out.)\<close>

definition new_client :: "('w, 'c) module_env \<Rightarrow> ('w, 'c) GCSFS \<Rightarrow> 'w \<Rightarrow> (gerror + 'c) \<times> 'w" where
  "new_client env f w =
     (let emulator = mo_Getenv env ''STORAGE_EMULATOR_HOST'' \<noteq> [];
          opts = (if emulator then [WithoutAuthentication]
                  else if g_CredentialsConfig f \<noteq> [] then [WithExternalAccount (g_CredentialsConfig f)]
                  else if g_CredentialsFile f \<noteq> [] then [WithServiceAccountKey (g_CredentialsFile f)]
                  else [])
      in case (if g_ServiceAccount f \<noteq> [] \<and> \<not> emulator then
                 (case mo_TokenSource env (g_ServiceAccount f) w of
                    (Some e, w1) \<Rightarrow> (Inl (WrapError (''impersonate service account '' @ g_ServiceAccount f) [e]), w1)
                  | (None, w1) \<Rightarrow> (Inr (opts @ [WithTokenSource (g_ServiceAccount f)]), w1))
               else (Inr opts, w)) of
           (Inl e, w1) \<Rightarrow> (Inl e, w1)
         | (Inr opts', w1) \<Rightarrow> mo_NewClient env opts' w1)"

text \<open>What the pool runs on a client when its last reference is dropped.\<close>

definition Destruct :: "('w, 'c) module_env \<Rightarrow> 'c \<Rightarrow> 'w \<Rightarrow> gerror option \<times> 'w" where
  "Destruct env client w = mo_CloseClient env client w"

text \<open>
  The metrics callbacks. The helpers they call do not panic once the instruments were made
  together or not at all (theory \<open>Metrics\<close>); a callback has no result to report it in.
\<close>

definition in_metrics ::
  "((unit, 'p) metrics_state \<Rightarrow> (unit, 'p) metrics_state option) \<Rightarrow> ('x, 'p) gworld \<Rightarrow> ('x, 'p) gworld" where
  "in_metrics rec w = (case rec (gw_metrics w) of None \<Rightarrow> w | Some m \<Rightarrow> w\<lparr>gw_metrics := m\<rparr>)"

definition on_gcs_op :: "string \<Rightarrow> string \<Rightarrow> duration \<Rightarrow> gerror option \<Rightarrow> ('x, 'p) gworld \<Rightarrow> ('x, 'p) gworld" where
  "on_gcs_op bucket op dur err w =
     (let w1 = (if err \<noteq> None then in_metrics (RecordGCSError op bucket (classifyGCSError err)) w else w);
          status = (if err \<noteq> None then ''error'' else ''success'')
      in in_metrics (RecordGCSOperation op bucket status dur) w1)"

definition wire_callbacks ::
  "(('x, 'p) gworld, 'c) module_env \<Rightarrow> string \<Rightarrow> ('x, 'p) gworld gcsFS \<Rightarrow> ('x, 'p) gworld gcsFS" where
  "wire_callbacks env bucket fsys =
     fsys\<lparr>fs_onEvent := (case loadEventsApp env of Some emit \<Rightarrow> Some emit | None \<Rightarrow> fs_onEvent fsys),
          fs_onCacheHit := Some (in_metrics (RecordCacheHit bucket ''attr'')),
          fs_onCacheMiss := Some (in_metrics (RecordCacheMiss bucket ''attr'')),
          fs_onGCSOp := Some (on_gcs_op bucket),
          fs_onStreamBytes := Some (\<lambda>n. in_metrics (RecordStreamingBytes bucket n))\<rparr>"

subsection \<open>Provisioning and clean-up\<close>

definition expand_config :: "('w, 'c) module_env \<Rightarrow> ('w, 'c) GCSFS \<Rightarrow> ('w, 'c) GCSFS" where
  "expand_config env f =
     (let f1 = f\<lparr>g_BucketName := mo_ReplaceAll env (g_BucketName f), g_PathPrefix := mo_ReplaceAll env (g_PathPrefix f),
                 g_CredentialsFile := mo_ReplaceAll env (g_CredentialsFile f),
                 g_CredentialsConfig := mo_ReplaceAll env (g_CredentialsConfig f),
                 g_ServiceAccount := mo_ReplaceAll env (g_ServiceAccount f)\<rparr>;
          f2 = (if g_BucketName f1 = [] then f1\<lparr>g_BucketName := mo_Getenv env ''GCS_BUCKET''\<rparr> else f1)
      in if g_CredentialsFile f2 = [] then f2\<lparr>g_CredentialsFile := mo_Getenv env ''GCS_CREDENTIALS_FILE''\<rparr> else f2)"

definition effective_ttl :: "('w, 'c) GCSFS \<Rightarrow> duration" where
  "effective_ttl f = (if \<not> g_cacheTTLSet f \<and> g_CacheTTL f = 0 then defaultCacheTTL else g_CacheTTL f)"

definition effective_max :: "('w, 'c) GCSFS \<Rightarrow> int" where
  "effective_max f = (if \<not> g_cacheMaxEntriesSet f \<and> g_CacheMaxEntries f = 0 then defaultCacheMaxEntries else g_CacheMaxEntries f)"

definition background :: gctx where
  "background = \<lparr>ctx_deadline = None\<rparr>"

text \<open>
  The result is \<^const>\<open>None\<close> if making the cache panics. \<open>Sub\<close> of the filesystem never fails, so
  the branch that would release the client again cannot be taken and has no counterpart.
\<close>

definition Provision ::
  "(('x, 'p) gworld, 'c) module_env \<Rightarrow> (('x, 'p) gworld, 'c) GCSFS \<Rightarrow> ('x, 'p) gworld
     \<Rightarrow> (gerror option \<times> (('x, 'p) gworld, 'c) GCSFS \<times> ('x, 'p) gworld) option" where
  "Provision env f0 w =
     (let f = expand_config env f0 in
      if g_BucketName f = [] then Some (Some (OtherError ''caddy.fs.gcs: bucket_name is required''), f, w)
      else
        let key = clientPoolKey env f in
        case mo_LoadOrNew env key (new_client env f) w of
          (Inl e, w1) \<Rightarrow> Some (Some e, f, w1)
        | (Inr c, w1) \<Rightarrow>
            (let f1 = f\<lparr>g_poolKey := key, g_client := Some c\<rparr>;
                 fsys = wire_callbacks env (g_BucketName f) (newGCSFS background (g_BucketName f));
                 prefix = TrimSuffix (TrimPrefix (g_PathPrefix f) ''/'') ''/'';
                 statfs = (if g_PathPrefix f \<noteq> [] then fs_Sub fsys prefix else fsys)
             in map_option (\<lambda>cache. (None, f1\<lparr>g_cache := cache, g_StatFS := Some statfs\<rparr>, w1))
                  (if effective_ttl f > 0 then map_option Some (newAttrCache (effective_ttl f) (effective_max f)) else Some None)))"

definition Cleanup :: "('w, 'c) module_env \<Rightarrow> ('w, 'c) GCSFS \<Rightarrow> 'w \<Rightarrow> gerror option \<times> 'w" where
  "Cleanup env f w =
     (if g_poolKey f \<noteq> [] then mo_Delete env (g_poolKey f) w
      else case g_client f of
             Some c \<Rightarrow> mo_CloseClient env c w
           | None \<Rightarrow> (None, w))"

text \<open>The cache as it is when the statistics are read is passed in; without one the counts are zero.\<close>

definition CacheStats :: "('w, 'c) GCSFS \<Rightarrow> attrCache option \<Rightarrow> int \<times> int" where
  "CacheStats f cache =
     (case (g_StatFS f, cache) of
        (Some _, Some c) \<Rightarrow> cache_stats c
      | _ \<Rightarrow> (0, 0))"

subsection \<open>The client pool\<close>

text \<open>
  What the pool of the Caddy library promises, in terms of the number of references to a key and
  the value pooled under it: a pooled value is shared and not made again, a new one is made by
  the constructor, a failed constructor leaves no trace, and deleting drops one reference.
\<close>

definition pool_contract :: "('w, 'c) module_env \<Rightarrow> ('w \<Rightarrow> string \<Rightarrow> nat) \<Rightarrow> ('w \<Rightarrow> string \<Rightarrow> 'c) \<Rightarrow> bool" where
  "pool_contract env refs val \<longleftrightarrow>
     (\<forall>key mk w. 0 < refs w key \<longrightarrow>
        (\<exists>w'. mo_LoadOrNew env key mk w = (Inr (val w key), w') \<and>
              refs w' = (refs w)(key := refs w key + 1) \<and> val w' = val w)) \<and>
     (\<forall>key mk w e w1. refs w key = 0 \<longrightarrow> mk w = (Inl e, w1) \<longrightarrow>
        (\<exists>w'. mo_LoadOrNew env key mk w = (Inl e, w') \<and> refs w' = refs w \<and> val w' = val w)) \<and>
     (\<forall>key mk w c w1. refs w key = 0 \<longrightarrow> mk w = (Inr c, w1) \<longrightarrow>
        (\<exists>w'. mo_LoadOrNew env key mk w = (Inr c, w') \<and>
              refs w' = (refs w)(key := 1) \<and> val w' = (val w)(key := c))) \<and>
     (\<forall>key w. 0 < refs w key \<longrightarrow>
        (\<exists>e w'. mo_Delete env key w = (e, w') \<and>
              refs w' = (refs w)(key := refs w key - 1) \<and> val w' = val w))"

text \<open>Loading either shares or makes; in both cases the caller holds one more reference to what is pooled.\<close>

lemma pool_load:
  assumes "pool_contract env refs val" and "mo_LoadOrNew env key mk w = (Inr c, w')"
  shows "refs w' = (refs w)(key := refs w key + 1)" and "val w' key = c"
    and "val w' = (if 0 < refs w key then val w else (val w)(key := c))"
    and "0 < refs w key \<Longrightarrow> c = val w key"
proof -
  have "refs w' = (refs w)(key := refs w key + 1) \<and> val w' key = c \<and>
      val w' = (if 0 < refs w key then val w else (val w)(key := c)) \<and> (0 < refs w key \<longrightarrow> c = val w key)"
  proof (cases "0 < refs w key")
    case True
    with assms show ?thesis unfolding pool_contract_def by (metis Inr_inject prod.inject)
  next
    case False
    then have z: "refs w key = 0" by simp
    obtain r w1 where mk: "mk w = (r, w1)" by force
    show ?thesis
    proof (cases r)
      case (Inl e)
      with z mk assms show ?thesis unfolding pool_contract_def by (metis Inl_Inr_False prod.inject)
    next
      case (Inr c0)
      with z mk assms have "c0 = c" "refs w' = (refs w)(key := 1)" "val w' = (val w)(key := c)"
        unfolding pool_contract_def by (metis Inr_inject prod.inject)+
      with z show ?thesis by simp
    qed
  qed
  then show "refs w' = (refs w)(key := refs w key + 1)" "val w' key = c"
    "val w' = (if 0 < refs w key then val w else (val w)(key := c))"
    "0 < refs w key \<Longrightarrow> c = val w key" by auto
qed

lemma pool_load_fails:
  assumes "pool_contract env refs val" and "mo_LoadOrNew env key mk w = (Inl e, w')"
  shows "refs w' = refs w" and "val w' = val w" and "refs w key = 0"
proof -
  have z: "refs w key = 0"
    using assms unfolding pool_contract_def by (metis Inl_Inr_False gr0I prod.inject)
  obtain r w1 where mk: "mk w = (r, w1)" by force
  have "\<exists>e0. r = Inl e0"
  proof (cases r)
    case (Inr c)
    with z mk assms show ?thesis unfolding pool_contract_def by (metis Inl_Inr_False prod.inject)
  qed simp
  with z mk assms have "refs w' = refs w \<and> val w' = val w" unfolding pool_contract_def by (metis prod.inject)
  then show "refs w' = refs w" "val w' = val w" "refs w key = 0" using z by simp_all
qed

lemma pool_delete:
  assumes "pool_contract env refs val" and "0 < refs w key" and "mo_Delete env key w = (e, w')"
  shows "refs w' = (refs w)(key := refs w key - 1)" and "val w' = val w"
  using assms unfolding pool_contract_def by (metis prod.inject)+

lemma expand_pool_fields [simp]:
  "g_poolKey (expand_config env f) = g_poolKey f" "g_client (expand_config env f) = g_client f"
  by (simp_all add: expand_config_def Let_def)

lemma clientPoolKey_not_Nil [simp]: "clientPoolKey env f \<noteq> []"
  by (simp add: clientPoolKey_def Let_def)

lemma Provision_success:
  assumes "Provision env f w = Some (None, f', w')"
  shows "g_poolKey f' = clientPoolKey env (expand_config env f)"
    and "\<exists>c. mo_LoadOrNew env (clientPoolKey env (expand_config env f)) (new_client env (expand_config env f)) w = (Inr c, w') \<and>
             g_client f' = Some c"
  using assms by (auto simp: Provision_def Let_def split: if_splits prod.splits sum.splits)

lemma Provision_error:
  assumes "Provision env f w = Some (Some e, f', w')"
  shows "w' = w \<or> mo_LoadOrNew env (clientPoolKey env (expand_config env f)) (new_client env (expand_config env f)) w = (Inl e, w')"
  using assms by (auto simp: Provision_def Let_def split: if_splits prod.splits sum.splits)

text \<open>Filesystems come and go: \<open>live\<close> are those provisioned and not yet cleaned up.\<close>

inductive pool_reach ::
  "(('x, 'p) gworld, 'c) module_env \<Rightarrow> ('x, 'p) gworld \<Rightarrow> (('x, 'p) gworld, 'c) GCSFS list \<Rightarrow> ('x, 'p) gworld \<Rightarrow> bool"
  for env w0 where
  start: "pool_reach env w0 [] w0"
| provision: "pool_reach env w0 live w \<Longrightarrow> Provision env f w = Some (None, f', w') \<Longrightarrow> pool_reach env w0 (f' # live) w'"
| refuse: "pool_reach env w0 live w \<Longrightarrow> Provision env f w = Some (Some e, f', w') \<Longrightarrow> pool_reach env w0 live w'"
| cleanup: "pool_reach env w0 live w \<Longrightarrow> f \<in> set live \<Longrightarrow> Cleanup env f w = (e, w') \<Longrightarrow> pool_reach env w0 (remove1 f live) w'"

definition users :: "string \<Rightarrow> ('w, 'c) GCSFS list \<Rightarrow> nat" where
  "users key live = length (filter (\<lambda>f. g_poolKey f = key) live)"

lemma users_simps [simp]:
  "users key [] = 0" "users key (f # live) = (if g_poolKey f = key then 1 else 0) + users key live"
  by (simp_all add: users_def)

lemma users_pos: "f \<in> set live \<Longrightarrow> 0 < users (g_poolKey f) live"
  by (auto simp: users_def filter_empty_conv)

lemma users_remove1:
  "f \<in> set live \<Longrightarrow> users key (remove1 f live) = users key live - (if g_poolKey f = key then 1 else 0)"
proof (induction live)
  case (Cons g live)
  show ?case
  proof (cases "g = f")
    case False
    with Cons.prems have "f \<in> set live" by simp
    with Cons.IH users_pos [of f live] False show ?thesis by auto
  qed simp
qed simp

definition pool_inv ::
  "('w \<Rightarrow> string \<Rightarrow> nat) \<Rightarrow> ('w \<Rightarrow> string \<Rightarrow> 'c) \<Rightarrow> ('w, 'c) GCSFS list \<Rightarrow> 'w \<Rightarrow> bool" where
  "pool_inv refs val live w \<longleftrightarrow>
     (\<forall>key. refs w key = users key live) \<and>
     (\<forall>f \<in> set live. g_poolKey f \<noteq> [] \<and> g_client f = Some (val w (g_poolKey f)))"

lemma pool_inv_provision:
  assumes "pool_contract env refs val" and "pool_inv refs val live w" and "Provision env f w = Some (None, f', w')"
  shows "pool_inv refs val (f' # live) w'"
proof -
  let ?key = "clientPoolKey env (expand_config env f)"
  obtain c where c: "mo_LoadOrNew env ?key (new_client env (expand_config env f)) w = (Inr c, w')" "g_client f' = Some c"
    using Provision_success(2) [OF assms(3)] by blast
  note load = pool_load [OF assms(1) c(1)]
  have key: "g_poolKey f' = ?key" by (rule Provision_success(1) [OF assms(3)])
  have "g_client g = Some (val w' (g_poolKey g))" if g: "g \<in> set live" for g
  proof -
    have "0 < refs w (g_poolKey g)" using users_pos [OF g] assms(2) by (simp add: pool_inv_def)
    with load(3) have "val w' (g_poolKey g) = val w (g_poolKey g)" by (cases "g_poolKey g = ?key") auto
    with assms(2) g show ?thesis by (simp add: pool_inv_def)
  qed
  with assms(2) c(2) key load(1,2) show ?thesis by (simp add: pool_inv_def)
qed

lemma pool_inv_refuse:
  assumes "pool_contract env refs val" and "pool_inv refs val live w" and "Provision env f w = Some (Some e, f', w')"
  shows "pool_inv refs val live w'"
  using Provision_error [OF assms(3)]
proof
  assume "mo_LoadOrNew env (clientPoolKey env (expand_config env f)) (new_client env (expand_config env f)) w = (Inl e, w')"
  from pool_load_fails(1,2) [OF assms(1) this] assms(2) show ?thesis by (simp add: pool_inv_def)
qed (use assms(2) in simp)

lemma pool_inv_cleanup:
  assumes "pool_contract env refs val" and "pool_inv refs val live w" and "f \<in> set live" and "Cleanup env f w = (e, w')"
  shows "pool_inv refs val (remove1 f live) w'"
proof -
  have "g_poolKey f \<noteq> []" using assms(2,3) by (simp add: pool_inv_def)
  with assms(4) have del: "mo_Delete env (g_poolKey f) w = (e, w')" by (simp add: Cleanup_def)
  have "0 < refs w (g_poolKey f)" using users_pos [OF assms(3)] assms(2) by (simp add: pool_inv_def)
  note del = pool_delete [OF assms(1) this del]
  show ?thesis
    using assms(2,3) del set_remove1_subset [of f live] by (auto simp: pool_inv_def users_remove1)
qed

lemma pool_inv_reach:
  assumes "pool_contract env refs val" and "refs w0 = (\<lambda>_. 0)" and "pool_reach env w0 live w"
  shows "pool_inv refs val live w"
  using assms(3)
proof (induction rule: pool_reach.induct)
  case start
  show ?case using assms(2) by (simp add: pool_inv_def)
qed (auto intro: pool_inv_provision [OF assms(1)] pool_inv_refuse [OF assms(1)] pool_inv_cleanup [OF assms(1)])

text \<open>
  C10. Whatever filesystems are provisioned (also in vain) and cleaned up, across reloads in any
  order: the pool holds exactly one reference per live filesystem, so the client a filesystem
  works with is the pooled one and stays pooled until the last filesystem that shares it is
  cleaned up, and a key that nobody uses any more has no reference left.
\<close>

theorem pooled_clients_live_as_long_as_used:
  assumes "pool_contract env refs val" and "refs w0 = (\<lambda>_. 0)" and "pool_reach env w0 live w"
  shows "refs w key = users key live \<and>
    (f \<in> set live \<longrightarrow> 0 < refs w (g_poolKey f) \<and> g_client f = Some (val w (g_poolKey f)))"
  using pool_inv_reach [OF assms] users_pos [of f live] by (auto simp: pool_inv_def)

subsection \<open>A pool for concrete runs\<close>

text \<open>Reference counts and clients by key; a client is known by the options it was made with.\<close>

type_synonym pool = "(string \<Rightarrow> nat) \<times> (string \<Rightarrow> client_option list)"

definition pool_env :: "((pool, unit) gworld, client_option list) module_env" where
  "pool_env = \<lparr>mo_ReplaceAll = (\<lambda>s. s), mo_Getenv = (\<lambda>v. []), mo_TokenSource = (\<lambda>a w. (None, w)),
     mo_NewClient = (\<lambda>opts w. (Inr opts, w)), mo_CloseClient = (\<lambda>c w. (None, w)),
     mo_LoadOrNew = (\<lambda>key mk w. case gw_ext w of (n, v) \<Rightarrow>
       if 0 < n key then (Inr (v key), w\<lparr>gw_ext := (n(key := n key + 1), v)\<rparr>)
       else case mk w of
              (Inl e, w1) \<Rightarrow> (Inl e, w)
            | (Inr c, w1) \<Rightarrow> (Inr c, w\<lparr>gw_ext := (n(key := 1), v(key := c))\<rparr>)),
     mo_Delete = (\<lambda>key w. case gw_ext w of (n, v) \<Rightarrow> (None, w\<lparr>gw_ext := (n(key := n key - 1), v)\<rparr>)),
     mo_App = AppOther\<rparr>"

lemma pool_env_contract: "pool_contract pool_env (\<lambda>w. fst (gw_ext w)) (\<lambda>w. snd (gw_ext w))"
  by (auto simp: pool_contract_def pool_env_def split: prod.splits)

definition empty_pool :: "(pool, unit) gworld" where
  "empty_pool = \<lparr>gw_metrics = metrics_start (), gw_ext = (\<lambda>_. 0, \<lambda>_. [])\<rparr>"

definition bucket_fs :: "string \<Rightarrow> ((pool, unit) gworld, client_option list) GCSFS" where
  "bucket_fs account = \<lparr>g_StatFS = None, g_cache = None, g_BucketName = ''b'', g_PathPrefix = [], g_ProjectID = [],
     g_CredentialsFile = ''key.json'', g_CredentialsConfig = [], g_ServiceAccount = account, g_UseWorkloadIdentity = False,
     g_CacheTTL = 0, g_cacheTTLSet = True, g_CacheMaxEntries = 0, g_cacheMaxEntriesSet = False, g_client = None, g_poolKey = []\<rparr>"

lemma bucket_fs_provisioned:
  "\<exists>f' w'. Provision pool_env (bucket_fs a) w = Some (None, f', w')"
  by (cases "gw_ext w")
     (simp add: Provision_def pool_env_def bucket_fs_def expand_config_def effective_ttl_def new_client_def Let_def)

theorem pooled_clients_live_as_long_as_used_witness:
  "\<exists>f w. pool_reach pool_env empty_pool [f] w \<and> fst (gw_ext w) (g_poolKey f) = 1 \<and>
     g_client f = Some (snd (gw_ext w) (g_poolKey f))"
proof -
  obtain f w where p: "Provision pool_env (bucket_fs []) empty_pool = Some (None, f, w)"
    using bucket_fs_provisioned by blast
  have reach: "pool_reach pool_env empty_pool [f] w" by (rule pool_reach.provision [OF pool_reach.start p])
  from pooled_clients_live_as_long_as_used [OF pool_env_contract _ reach, of "g_poolKey f" f] reach show ?thesis
    by (auto simp: empty_pool_def)
qed

subsection \<open>Who shares a client\<close>

text \<open>
  C21. Two filesystems that use the same key file share one client even if they are configured to
  impersonate different service accounts: the second gets the client the first one made, with
  the first one's identity, although the comment says that the key uniquely identifies the
  client configuration. Without credential files the account is part of the key.
\<close>

theorem key_file_ignores_impersonation:
  assumes "pool_contract env refs val" and "mo_Getenv env ''STORAGE_EMULATOR_HOST'' = []"
    and "g_CredentialsConfig (expand_config env f) = []" and "g_CredentialsConfig (expand_config env g) = []"
    and "g_CredentialsFile (expand_config env f) \<noteq> []"
    and "g_CredentialsFile (expand_config env g) = g_CredentialsFile (expand_config env f)"
    and "Provision env f w = Some (None, f', w1)" and "Provision env g w1 = Some (None, g', w2)"
  shows "g_client g' = g_client f' \<and> refs w2 (g_poolKey f') = refs w (g_poolKey f') + 2 \<and>
    (clientPoolKey env (h\<lparr>g_CredentialsConfig := [], g_CredentialsFile := [], g_ServiceAccount := a\<rparr>) =
     clientPoolKey env (h\<lparr>g_CredentialsConfig := [], g_CredentialsFile := [], g_ServiceAccount := b\<rparr>) \<longleftrightarrow> a = b)"
proof -
  have same: "clientPoolKey env (expand_config env g) = clientPoolKey env (expand_config env f)"
    using assms(2-6) by (simp add: clientPoolKey_def)
  let ?key = "clientPoolKey env (expand_config env f)"
  obtain c where c: "mo_LoadOrNew env ?key (new_client env (expand_config env f)) w = (Inr c, w1)" "g_client f' = Some c"
    using Provision_success(2) [OF assms(7)] by blast
  obtain d where d: "mo_LoadOrNew env ?key (new_client env (expand_config env g)) w1 = (Inr d, w2)" "g_client g' = Some d"
    using Provision_success(2) [OF assms(8)] same by auto
  have "d = c" using pool_load(1,2) [OF assms(1) c(1)] pool_load(4) [OF assms(1) d(1)] by simp
  moreover have "refs w2 ?key = refs w ?key + 2"
    using pool_load(1) [OF assms(1) c(1)] pool_load(1) [OF assms(1) d(1)] by simp
  moreover have "clientPoolKey env (h\<lparr>g_CredentialsConfig := [], g_CredentialsFile := [], g_ServiceAccount := a\<rparr>) =
     clientPoolKey env (h\<lparr>g_CredentialsConfig := [], g_CredentialsFile := [], g_ServiceAccount := b\<rparr>) \<longleftrightarrow> a = b"
    using assms(2) by (auto simp: clientPoolKey_def)
  ultimately show ?thesis using c(2) d(2) Provision_success(1) [OF assms(7)] by simp
qed

theorem key_file_ignores_impersonation_witness:
  "\<exists>f w1 g w2. Provision pool_env (bucket_fs ''alice'') empty_pool = Some (None, f, w1) \<and>
     Provision pool_env (bucket_fs ''bob'') w1 = Some (None, g, w2) \<and> g_client g = g_client f \<and>
     g_ServiceAccount g = ''bob'' \<and> g_client f = Some [WithServiceAccountKey ''key.json'', WithTokenSource ''alice'']"
proof -
  obtain f w1 where f: "Provision pool_env (bucket_fs ''alice'') empty_pool = Some (None, f, w1)"
    using bucket_fs_provisioned by blast
  obtain g w2 where g: "Provision pool_env (bucket_fs ''bob'') w1 = Some (None, g, w2)"
    using bucket_fs_provisioned by blast
  have "g_client f = Some [WithServiceAccountKey ''key.json'', WithTokenSource ''alice'']"
    using f by (auto simp: Provision_def pool_env_def bucket_fs_def expand_config_def effective_ttl_def
        new_client_def empty_pool_def Let_def)
  moreover have "g_ServiceAccount g = ''bob''"
    using g by (cases "gw_ext w1") (auto simp: Provision_def pool_env_def bucket_fs_def expand_config_def effective_ttl_def
        new_client_def Let_def split: if_splits)
  moreover have "g_client g = g_client f"
    using key_file_ignores_impersonation [OF pool_env_contract _ _ _ _ _ f g]
    by (simp add: pool_env_def bucket_fs_def expand_config_def)
  ultimately show ?thesis using f g by blast
qed

subsection \<open>Exported cache metrics\<close>

definition tally :: "instrument \<Rightarrow> ('x, 'p) gworld \<Rightarrow> nat" where
  "tally i w = length (filter (\<lambda>m. me_instrument m = i) (ms_log (gw_metrics w)))"

text \<open>Nothing is recorded about the cache, and no instrument appears or goes.\<close>

definition steady :: "('x, 'p) gworld \<Rightarrow> ('x, 'p) gworld \<Rightarrow> bool" where
  "steady w w' \<longleftrightarrow> tally gcsCacheHits w' = tally gcsCacheHits w \<and> tally gcsCacheMisses w' = tally gcsCacheMisses w \<and>
     ms_inst (gw_metrics w') = ms_inst (gw_metrics w)"

definition quiet_client :: "(('x, 'p) gworld, 'r, 'it) gcs_api \<Rightarrow> bool" where
  "quiet_client api \<longleftrightarrow> (\<forall>p ctx w. steady w (snd (api_Attrs api p ctx w))) \<and> (\<forall>it w. steady w (snd (snd (api_Next api it w))))"

definition quiet_events :: "(('x, 'p) gworld, 'c) module_env \<Rightarrow> bool" where
  "quiet_events env \<longleftrightarrow> (\<forall>emit nm data w. loadEventsApp env = Some emit \<longrightarrow> steady w (emit nm data w))"

text \<open>The callbacks of a filesystem as \<open>Provision\<close> wires them.\<close>

definition wired :: "string \<Rightarrow> ('x, 'p) gworld gcsFS \<Rightarrow> bool" where
  "wired bucket fsys \<longleftrightarrow>
     fs_onCacheHit fsys = Some (in_metrics (RecordCacheHit bucket ''attr'')) \<and>
     fs_onCacheMiss fsys = Some (in_metrics (RecordCacheMiss bucket ''attr'')) \<and>
     fs_onGCSOp fsys = Some (on_gcs_op bucket) \<and>
     (\<forall>emit nm data w. fs_onEvent fsys = Some emit \<longrightarrow> steady w (emit nm data w))"

lemma steady_refl [simp]: "steady w w"
  by (simp add: steady_def)

lemma steady_trans: "steady w w' \<Longrightarrow> steady w' w'' \<Longrightarrow> steady w w''"
  by (simp add: steady_def)

lemma in_metrics_value:
  assumes "ms_inst (gw_metrics w) i"
  shows "gw_metrics (in_metrics (record_if i v as) w) =
    (gw_metrics w)\<lparr>ms_log := ms_log (gw_metrics w) @ [\<lparr>me_instrument = i, me_value = v, me_attrs = as\<rparr>]\<rparr>"
  using assms by (simp add: in_metrics_def record_if_def record_value_made)

lemma steady_record:
  assumes "i \<noteq> gcsCacheHits" "i \<noteq> gcsCacheMisses"
  shows "steady w (in_metrics (record_if i v as) w)"
  using assms by (auto simp: in_metrics_def record_if_def record_value_def steady_def tally_def)

lemma steady_on_gcs_op: "steady w (on_gcs_op bucket op dur err w)"
proof -
  have a: "steady u (in_metrics (RecordGCSOperation op bucket status dur) u)" for u status
    by (auto simp: in_metrics_def RecordGCSOperation_def record_value_def steady_def tally_def Let_def)
  have b: "steady w (in_metrics (RecordGCSError op bucket k) w)" for k
    unfolding RecordGCSError_def by (rule steady_record) simp_all
  show ?thesis
  proof (cases err)
    case None
    with a [of w "''success''"] show ?thesis by (simp add: on_gcs_op_def)
  next
    case (Some e)
    with steady_trans [OF b a, of "''error''" "classifyGCSError err"] show ?thesis
      by (simp add: on_gcs_op_def Let_def)
  qed
qed

lemma steady_recordGCSOp: "wired bucket fsys \<Longrightarrow> steady w (recordGCSOp api fsys op start err w)"
  by (simp add: recordGCSOp_def wired_def steady_on_gcs_op)

lemma steady_emitEvent: "wired bucket fsys \<Longrightarrow> steady w (emitEvent fsys nm data w)"
  by (auto simp: emitEvent_def wired_def split: option.splits)

text \<open>The counters of the cache against the recorded measurements, which began at \<open>h0\<close> and \<open>m0\<close>.\<close>

definition in_step :: "int \<Rightarrow> int \<Rightarrow> ('x, 'p) gworld fs_state \<Rightarrow> bool" where
  "in_step h0 m0 st \<longleftrightarrow> all_made (gw_metrics (st_world st)) \<and>
     (\<exists>c. st_cache st = Some c \<and> cache_inv c \<and>
        hits c = wrap64 (int (tally gcsCacheHits (st_world st)) - h0) \<and>
        misses c = wrap64 (int (tally gcsCacheMisses (st_world st)) - m0))"

lemma in_step_inv: "in_step h0 m0 st \<Longrightarrow> st_inv st"
  by (auto simp: in_step_def st_inv_def)

lemma in_step_world: "in_step h0 m0 st \<Longrightarrow> steady (st_world st) w \<Longrightarrow> in_step h0 m0 (st\<lparr>st_world := w\<rparr>)"
  by (simp add: in_step_def steady_def all_made_def)

lemma in_step_store:
  assumes "in_step h0 m0 st" and "store_ok k v st st'"
  shows "in_step h0 m0 st'"
proof -
  obtain c where c: "st_cache st = Some c" "cache_inv c" using assms(1) by (auto simp: in_step_def)
  then obtain c' n1 n2 rnd where c': "st_cache st' = Some c'" "cache_put n1 n2 rnd k v c = Some c'"
    using assms(2) by (auto simp: store_ok_def)
  have "cache_inv c' \<and> same_meta c' c"
    by (rule cache_put_spec [OF c(2), of n1 n2 rnd k v]) (use c'(2) in auto)
  with assms c c'(1) show ?thesis by (auto simp: in_step_def store_ok_def same_meta_def)
qed

lemma in_step_found: "in_step h0 m0 st \<Longrightarrow> stat_found en i k oa st = Some (r, st') \<Longrightarrow> in_step h0 m0 st'"
  using cacheAttrs_ok [OF in_step_inv, of h0 m0 st en i k oa] in_step_store by (fastforce simp: stat_found_def)

lemma in_step_notFound: "in_step h0 m0 st \<Longrightarrow> cacheNotFound en i f st = Some st' \<Longrightarrow> in_step h0 m0 st'"
  using cacheNotFound_ok [OF in_step_inv, of h0 m0 st en i f] in_step_store by fastforce

lemma in_step_fail:
  assumes "wired bucket fsys" and "in_step h0 m0 st" and "stat_fail api fsys en i e f st = Some (r, st')"
  shows "in_step h0 m0 st'"
proof -
  have ev: "in_step h0 m0 (s\<lparr>st_world := emitEvent fsys nm data (st_world s)\<rparr>)" if "in_step h0 m0 s" for s nm data
    using that steady_emitEvent [OF assms(1)] by (rule in_step_world)
  from assms(2,3) show ?thesis
    by (auto simp: stat_fail_def translateError_def split: if_splits option.splits
        intro!: ev intro: in_step_notFound)
qed

lemma in_step_probe:
  assumes "wired bucket fsys" and "quiet_client api" and "in_step h0 m0 st" and "stat_probe api fsys en f st = Some (r, st')"
  shows "in_step h0 m0 st'"
proof -
  let ?it = "api_Objects api (opCtx fsys (api_Now api (st_world st))) (dir_query fsys (name f))"
  obtain res it' w1 where n: "api_Next api ?it (st_world st) = (res, it', w1)" by (metis prod.exhaust)
  let ?st1 = "st\<lparr>st_world := recordGCSOp api fsys ''list'' (api_Now api (st_world st)) (err_of res) w1\<rparr>"
  have "steady (st_world st) w1" using assms(2) n unfolding quiet_client_def by (metis snd_conv)
  then have st1: "in_step h0 m0 ?st1"
    by (intro in_step_world [OF assms(3)] steady_trans [OF _ steady_recordGCSOp [OF assms(1)]])
  from assms(4) n st1 show ?thesis
    unfolding stat_probe_def Let_def
    by (auto split: sum.splits if_splits option.splits
        intro: in_step_found in_step_fail [OF assms(1)] in_step_fail [OF assms(1) in_step_notFound])
qed

lemma in_step_uncached:
  assumes "wired bucket fsys" and "quiet_client api" and "in_step h0 m0 st" and "stat_uncached api fsys en f st = Some (r, st')"
  shows "in_step h0 m0 st'"
proof -
  let ?p = "object_path fsys (name f)" and ?ctx = "opCtx fsys (api_Now api (st_world st))"
  obtain res w1 where a: "api_Attrs api ?p ?ctx (st_world st) = (res, w1)" by (metis prod.exhaust)
  let ?st1 = "st\<lparr>st_world := recordGCSOp api fsys ''attrs'' (api_Now api (st_world st)) (err_of res) w1\<rparr>"
  have "steady (st_world st) w1" using assms(2) a unfolding quiet_client_def by (metis snd_conv)
  then have st1: "in_step h0 m0 ?st1"
    by (intro in_step_world [OF assms(3)] steady_trans [OF _ steady_recordGCSOp [OF assms(1)]])
  from assms(3,4) a st1 show ?thesis
    unfolding stat_uncached_def Let_def
    by (auto split: sum.splits if_splits
        intro: in_step_found in_step_fail [OF assms(1)] in_step_probe [OF assms(1,2)])
qed

lemma cache_get_counts:
  assumes "cache_inv c" and "cache_get n1 n2 k c = Some (r, c')"
  shows "cache_inv c'"
    and "hits c' = (if r = None then hits c else wrap64 (hits c + 1))"
    and "misses c' = (if r = None then wrap64 (misses c + 1) else misses c)"
proof -
  obtain d where "get_expire n2 k c = Some d" "same_meta d c"
    using get_expire_spec [OF assms(1), of n2 k] by metis
  with assms(2) show "hits c' = (if r = None then hits c else wrap64 (hits c + 1))"
      "misses c' = (if r = None then wrap64 (misses c + 1) else misses c)"
    by (auto simp: cache_get_def add_miss_def add_hit_def same_meta_def split: option.splits if_splits)
  show "cache_inv c'" using attr_cache.get_total [OF assms(1), of n1 n2 k] assms(2) by auto
qed

lemma in_step_count:
  assumes "wired bucket fsys" and "in_step h0 m0 st" and "st_cache st = Some c"
    and "cache_get n1 n2 k c = Some (r, c')"
  shows "in_step h0 m0 (st\<lparr>st_cache := Some c',
    st_world := (if r = None then recordCacheMiss fsys (st_world st) else recordCacheHit fsys (st_world st))\<rparr>)"
proof -
  let ?w = "st_world st"
  have made: "ms_inst (gw_metrics ?w) i" for i using assms(2) by (simp add: in_step_def all_made_def)
  have inv: "cache_inv c" using assms(2,3) by (auto simp: in_step_def)
  have hit: "gw_metrics (recordCacheHit fsys ?w) = (gw_metrics ?w)\<lparr>ms_log := ms_log (gw_metrics ?w) @
      [\<lparr>me_instrument = gcsCacheHits, me_value = MInt 1, me_attrs = [AString ''gcs.bucket'' bucket, AString ''cache.type'' ''attr'']\<rparr>]\<rparr>"
    using assms(1) made [of gcsCacheHits] by (simp add: recordCacheHit_def wired_def RecordCacheHit_def in_metrics_value)
  have miss: "gw_metrics (recordCacheMiss fsys ?w) = (gw_metrics ?w)\<lparr>ms_log := ms_log (gw_metrics ?w) @
      [\<lparr>me_instrument = gcsCacheMisses, me_value = MInt 1, me_attrs = [AString ''gcs.bucket'' bucket, AString ''cache.type'' ''attr'']\<rparr>]\<rparr>"
    using assms(1) made [of gcsCacheMisses] by (simp add: recordCacheMiss_def wired_def RecordCacheMiss_def in_metrics_value)
  have one: "wrap64 (wrap64 (int n - x) + 1) = wrap64 (int (Suc n) - x)" for n x
    using wrap64_add_left [of "int n - x" 1] by (simp add: algebra_simps)
  have t: "tally gcsCacheHits (recordCacheHit fsys ?w) = Suc (tally gcsCacheHits ?w)"
      "tally gcsCacheMisses (recordCacheHit fsys ?w) = tally gcsCacheMisses ?w"
      "tally gcsCacheHits (recordCacheMiss fsys ?w) = tally gcsCacheHits ?w"
      "tally gcsCacheMisses (recordCacheMiss fsys ?w) = Suc (tally gcsCacheMisses ?w)"
    by (simp_all add: tally_def hit miss)
  show ?thesis
  proof (cases "r = None")
    case True
    with assms(2,3) cache_get_counts [OF inv assms(4)] t made one show ?thesis
      by (simp add: in_step_def all_made_def miss)
  next
    case False
    with assms(2,3) cache_get_counts [OF inv assms(4)] t made one show ?thesis
      by (auto simp: in_step_def all_made_def hit)
  qed
qed

lemma in_step_Stat:
  assumes "wired bucket fsys" and "quiet_client api" and "in_step h0 m0 st" and "gcsFile_Stat api fsys en f st = Some (r, st')"
  shows "in_step h0 m0 st'"
proof -
  obtain c where c: "st_cache st = Some c" "cache_inv c" using assms(3) by (auto simp: in_step_def)
  obtain a c1 where g: "cache_get (e_clk en 0) (e_clk en 1) (fullPath f) c = Some (a, c1)"
    using attr_cache.get_total [OF c(2)] by blast
  note one = in_step_count [OF assms(1,3) c(1) g]
  show ?thesis
  proof (cases a)
    case None
    with assms(4) c(1) g have "stat_uncached api fsys en f (st\<lparr>st_cache := Some c1, st_world := recordCacheMiss fsys (st_world st)\<rparr>) = Some (r, st')"
      by (simp add: gcsFile_Stat_def)
    with one None show ?thesis by (auto intro: in_step_uncached [OF assms(1,2)])
  next
    case (Some x)
    with assms(4) c(1) g one show ?thesis
      by (auto simp: gcsFile_Stat_def Let_def split: if_splits intro: in_step_fail [OF assms(1)])
  qed
qed

lemma in_step_run:
  assumes "wired bucket fsys" and "quiet_client api" and "in_step h0 m0 st" and "stat_run api fsys calls st = Some (rs, st')"
  shows "in_step h0 m0 st'"
  using assms(3,4)
proof (induction calls arbitrary: st rs)
  case (Cons call calls)
  obtain en nm where call: "call = (en, nm)" by force
  with Cons.prems(2) obtain r st1 rs1 where s: "fs_Stat api fsys en nm st = Some (r, st1)" "stat_run api fsys calls st1 = Some (rs1, st')"
    by (auto split: option.splits prod.splits)
  have "in_step h0 m0 st1"
    using s(1) Cons.prems(1) in_step_Stat [OF assms(1,2)] by (auto simp: fs_Stat_def split: sum.splits)
  with Cons.IH s(2) show ?case by blast
qed simp

text \<open>Every call of a run returns, so the agreement is not about runs that never end.\<close>

lemma stat_run_total: "st_inv st \<Longrightarrow> \<exists>rs st'. stat_run api fsys calls st = Some (rs, st')"
proof (induction calls arbitrary: st)
  case (Cons call calls)
  obtain en nm where call: "call = (en, nm)" by force
  have "\<exists>r st1. fs_Stat api fsys en nm st = Some (r, st1) \<and> st_inv st1"
    using gcsFile_Stat_returns [OF Cons.prems]
    by (fastforce simp: fs_Stat_def stat_returns_def Cons.prems split: sum.splits)
  with Cons.IH call show ?case by fastforce
qed simp

lemma Provision_wired:
  assumes "Provision env f w = Some (None, f', w')" and "quiet_events env" and "g_StatFS f' = Some fsys"
  shows "wired (g_BucketName f') fsys"
  using assms
  by (auto simp: Provision_def wired_def wire_callbacks_def fs_Sub_def newGCSFS_def quiet_events_def Let_def
      split: if_splits prod.splits sum.splits option.splits)

lemma Provision_cache:
  assumes "Provision env f w = Some (None, f', w')" and "g_cache f' = Some c"
  shows "cache_inv c" and "hits c = 0" and "misses c = 0"
proof -
  obtain t m where "newAttrCache t m = Some c"
    using assms by (auto simp: Provision_def Let_def split: if_splits prod.splits sum.splits option.splits)
  then show "cache_inv c" "hits c = 0" "misses c = 0"
    using newAttrCache_inv [of t m c] by (auto simp: newAttrCache_def split: if_splits)
qed

text \<open>
  C11. The two places where cache effectiveness can be read agree: once the instruments exist, for
  a provisioned filesystem with a cache, every sequence of \<open>Stat\<close> calls returns, and afterwards
  \<open>CacheStats\<close> reports exactly the numbers of hit and miss measurements recorded meanwhile (as
  64-bit counters), whatever the storage service answered and however entries expired or were
  evicted.
\<close>

theorem exported_cache_metrics_agree:
  assumes "Provision env f w = Some (None, f', w')" and "quiet_events env" and "quiet_client api"
    and "g_StatFS f' = Some fsys" and "g_cache f' = Some c" and "all_made (gw_metrics w0)"
  shows "\<exists>rs st'. stat_run api fsys calls \<lparr>st_cache = g_cache f', st_world = w0\<rparr> = Some (rs, st') \<and>
    CacheStats f' (st_cache st') =
      (wrap64 (int (tally gcsCacheHits (st_world st')) - int (tally gcsCacheHits w0)),
       wrap64 (int (tally gcsCacheMisses (st_world st')) - int (tally gcsCacheMisses w0)))"
proof -
  let ?st = "\<lparr>st_cache = g_cache f', st_world = w0\<rparr>"
  note c = Provision_cache [OF assms(1,5)]
  obtain rs st' where run: "stat_run api fsys calls ?st = Some (rs, st')"
    using stat_run_total [of ?st api fsys calls] c(1) assms(5) by (auto simp: st_inv_def)
  have "in_step (int (tally gcsCacheHits w0)) (int (tally gcsCacheMisses w0)) ?st"
    using c assms(5,6) by (simp add: in_step_def wrap64_def)
  from in_step_run [OF Provision_wired [OF assms(1,2,4)] assms(3) this run] run assms(4) show ?thesis
    by (auto simp: in_step_def CacheStats_def cache_stats_def)
qed

text \<open>A bucket with one object and a backend that answers without touching the metrics.\<close>

definition site_api :: "((pool, unit) gworld, unit, query) gcs_api" where
  "site_api =
     \<lparr>api_NewRangeReader = (\<lambda>_ _ _ _ w. (Inl (OtherError ''down''), w)),
      api_Read = (\<lambda>_ _ w. (([], Some EOF, ()), w)), api_Close = (\<lambda>_ w. (None, w)),
      api_Attrs = (\<lambda>p _ w. (sample_objects p, w)), api_Objects = (\<lambda>_ q. q),
      api_Next = (\<lambda>q w. (Inl IteratorDone, q, w)), api_Now = (\<lambda>_. 0), api_ErrorText = (\<lambda>_. [])\<rparr>"

definition metered :: "(pool, unit) gworld" where
  "metered = empty_pool\<lparr>gw_metrics := (metrics_start ())\<lparr>ms_inst := \<lambda>_. True\<rparr>\<rparr>"

theorem exported_cache_metrics_agree_witness:
  "\<exists>f fsys w' rs st'.
     Provision pool_env ((bucket_fs [])\<lparr>g_cacheTTLSet := False\<rparr>) empty_pool = Some (None, f, w') \<and> g_StatFS f = Some fsys \<and>
     stat_run site_api fsys [(sample_env, ''site/a.txt''), (sample_env, ''site/a.txt'')] \<lparr>st_cache = g_cache f, st_world = metered\<rparr> = Some (rs, st') \<and>
     CacheStats f (st_cache st') =
      (wrap64 (int (tally gcsCacheHits (st_world st'))), wrap64 (int (tally gcsCacheMisses (st_world st'))))"
proof -
  let ?f = "(bucket_fs [])\<lparr>g_cacheTTLSet := False\<rparr>"
  obtain f fsys c w' where p: "Provision pool_env ?f empty_pool = Some (None, f, w')" "g_StatFS f = Some fsys" "g_cache f = Some c"
    by (simp add: Provision_def pool_env_def bucket_fs_def expand_config_def effective_ttl_def effective_max_def
        new_client_def empty_pool_def newAttrCache_def Let_def)
  have "quiet_events pool_env" "quiet_client site_api"
    by (simp_all add: quiet_events_def loadEventsApp_def pool_env_def quiet_client_def site_api_def)
  from exported_cache_metrics_agree [OF p(1) this p(2,3), of metered] p(1,2) show ?thesis
    by (fastforce simp: metered_def all_made_def tally_def metrics_start_def)
qed

end
