(* ===== verification/Directives.thy ===== *)
theory Directives
  imports Caddyfile Health_Endpoint Validation_Endpoint Prometheus_Endpoint Module
begin

section \<open>The Caddyfile directives of the program\<close>

text \<open>
  Models of the six \<^verbatim>\<open>UnmarshalCaddyfile\<close> methods and the four \<^verbatim>\<open>ParseCaddyfile\<close> adapters, and of the
  error pages module (\<^verbatim>\<open>pkg/gcs/errorpages/caddy_module.go\<close>), over the token stream of theory
  \<open>Caddyfile\<close>. Each parser's \<^verbatim>\<open>switch\<close> is an interpretation of the reader contracts: it ends on every
  finite stream, and it implements a grammar given as a table of options. For the \<^verbatim>\<open>gcs\<close>
  filesystem also what an accepted block guarantees and that every configuration can be written
  down and read back.
\<close>

subsection \<open>The health endpoint\<close>

definition health_option ::
  "'d dispenser \<Rightarrow> 'd \<Rightarrow> 'w HealthEndpointHandler \<Rightarrow> ('w HealthEndpointHandler, 'd) parsed" where
  "health_option D d h =
     (let v = d_Val D d in
      if v = ''path'' \<or> v = ''health_path'' then with_arg D (\<lambda>a d1. (None, h\<lparr>HealthPath := a\<rparr>, d1)) d h
      else if v = ''readiness_path'' then with_arg D (\<lambda>a d1. (None, h\<lparr>ReadinessPath := a\<rparr>, d1)) d h
      else if v = ''liveness_path'' then with_arg D (\<lambda>a d1. (None, h\<lparr>LivenessPath := a\<rparr>, d1)) d h
      else if v = ''startup_path'' then with_arg D (\<lambda>a d1. (None, h\<lparr>StartupPath := a\<rparr>, d1)) d h
      else if v = ''enable_detailed'' then (None, h\<lparr>EnableDetailed := True\<rparr>, d)
      else if v = ''enable_metrics'' then (None, h\<lparr>EnableMetrics := True\<rparr>, d)
      else if v = ''label'' then
        with_arg D (\<lambda>key d1. with_arg D (\<lambda>val d2.
          (None, h\<lparr>CustomLabels := gomap_set key val (CustomLabels h)\<rparr>, d2)) d1 h) d h
      else if v = ''detailed_local_only'' then
        with_arg D (\<lambda>a d1.
          if a = ''true'' then (None, h\<lparr>DetailedLocalOnly := Some True\<rparr>, d1)
          else if a = ''false'' then (None, h\<lparr>DetailedLocalOnly := Some False\<rparr>, d1)
          else (Some (Errf (''detailed_local_only must be 'true' or 'false'' @ [CHR 0x27]) []), h, d1)) d h
      else (Some (Errf ''unrecognized gcs_health directive: %s'' [v]), h, d))"

definition health_UnmarshalCaddyfile ::
  "'d dispenser \<Rightarrow> 'd \<Rightarrow> 'w HealthEndpointHandler \<Rightarrow> ('w HealthEndpointHandler, 'd) parsed option" where
  "health_UnmarshalCaddyfile D = next_loop D (arg_then_block D (\<lambda>a h. h\<lparr>HealthPath := a\<rparr>) (health_option D))"

text \<open>The zero value of the handler; its start time is meaningless until \<^verbatim>\<open>Provision\<close> sets it.\<close>

definition zero_health :: "'w HealthEndpointHandler" where
  "zero_health = \<lparr>HealthPath = [], ReadinessPath = [], LivenessPath = [], StartupPath = [], CustomLabels = [],
     EnableDetailed = False, EnableMetrics = False, DetailedLocalOnly = None, checkers = [],
     compositeChecker = None, startTime = 0, startupComplete = False\<rparr>"

text \<open>What the adapters return: an error, or the handler.\<close>

definition adapted :: "('h, 'd) parsed \<Rightarrow> cf_error + 'h" where
  "adapted r = (case r of (Some e, _, _) \<Rightarrow> Inl e | (None, h, _) \<Rightarrow> Inr h)"

definition ParseCaddyfileHealth :: "'d dispenser \<Rightarrow> 'd \<Rightarrow> (cf_error + 'w HealthEndpointHandler) option" where
  "ParseCaddyfileHealth D d = map_option adapted (health_UnmarshalCaddyfile D d zero_health)"

subsection \<open>The validation endpoint\<close>

definition validation_option ::
  "'d dispenser \<Rightarrow> 'd \<Rightarrow> ValidationEndpointHandler \<Rightarrow> (ValidationEndpointHandler, 'd) parsed" where
  "validation_option D d v =
     (let x = d_Val D d in
      if x = ''path'' then with_arg D (\<lambda>a d1. (None, v\<lparr>vh_ValidationPath := a\<rparr>, d1)) d v
      else if x = ''enable_live'' then (None, v\<lparr>vh_EnableLive := True\<rparr>, d)
      else if x = ''enable_dry_run'' then (None, v\<lparr>vh_EnableDryRun := True\<rparr>, d)
      else if x = ''strict_mode'' then (None, v\<lparr>vh_StrictMode := True\<rparr>, d)
      else if x = ''validate_on_load'' then (None, v\<lparr>vh_ValidateOnLoad := True\<rparr>, d)
      else if x = ''local_only'' then
        with_arg D (\<lambda>a d1.
          if a = ''true'' then (None, v\<lparr>vh_LocalOnly := Some True\<rparr>, d1)
          else if a = ''false'' then (None, v\<lparr>vh_LocalOnly := Some False\<rparr>, d1)
          else (Some (Errf (''local_only must be 'true' or 'false'' @ [CHR 0x27]) []), v, d1)) d v
      else if x = ''label'' then
        with_arg D (\<lambda>key d1. with_arg D (\<lambda>val d2.
          (None, v\<lparr>vh_CustomLabels := gomap_set key val (vh_CustomLabels v)\<rparr>, d2)) d1 v) d v
      else (Some (Errf ''unrecognized config_validation directive: %s'' [x]), v, d))"

definition default_validation_path :: "ValidationEndpointHandler \<Rightarrow> ValidationEndpointHandler" where
  "default_validation_path v = (if vh_ValidationPath v = [] then v\<lparr>vh_ValidationPath := ''/validate''\<rparr> else v)"

definition validation_UnmarshalCaddyfile ::
  "'d dispenser \<Rightarrow> 'd \<Rightarrow> ValidationEndpointHandler \<Rightarrow> (ValidationEndpointHandler, 'd) parsed option" where
  "validation_UnmarshalCaddyfile D =
     next_loop D (\<lambda>d v. arg_then_block D (\<lambda>a v. v\<lparr>vh_ValidationPath := a\<rparr>) (validation_option D) d (default_validation_path v))"

text \<open>The zero value; the rules of its validator are meaningless until \<^verbatim>\<open>Provision\<close> makes one.\<close>

definition zero_validation :: ValidationEndpointHandler where
  "zero_validation = \<lparr>vh_ValidationPath = [], vh_EnableLive = False, vh_EnableDryRun = False, vh_StrictMode = False,
     vh_ValidateOnLoad = False, vh_CustomLabels = [], vh_LocalOnly = None,
     vh_validator = \<lparr>cv_rules = [], cv_StrictMode = False, cv_ValidateOnLoad = False, cv_CustomRules = []\<rparr>,
     vh_lastValidation = None\<rparr>"

definition ParseCaddyfileValidation :: "'d dispenser \<Rightarrow> 'd \<Rightarrow> (cf_error + ValidationEndpointHandler) option" where
  "ParseCaddyfileValidation D d = map_option adapted (validation_UnmarshalCaddyfile D d zero_validation)"

subsection \<open>The Prometheus endpoint\<close>

definition prometheus_option ::
  "'d dispenser \<Rightarrow> 'd \<Rightarrow> PrometheusEndpointHandler \<Rightarrow> (PrometheusEndpointHandler, 'd) parsed" where
  "prometheus_option D d p =
     (let x = d_Val D d in
      if x = ''path'' then with_arg D (\<lambda>a d1. (None, p\<lparr>pr_MetricsPath := a\<rparr>, d1)) d p
      else if x = ''enable_health'' then (None, p\<lparr>pr_EnableHealth := True\<rparr>, d)
      else if x = ''enable_debug'' then (None, p\<lparr>pr_EnableDebug := True\<rparr>, d)
      else if x = ''debug_local_only'' then
        with_arg D (\<lambda>a d1.
          if a = ''true'' then (None, p\<lparr>pr_DebugLocalOnly := Some True\<rparr>, d1)
          else if a = ''false'' then (None, p\<lparr>pr_DebugLocalOnly := Some False\<rparr>, d1)
          else (Some (Errf (''debug_local_only must be 'true' or 'false', got '%s'' @ [CHR 0x27]) [a]), p, d1)) d p
      else if x = ''label'' then
        with_arg D (\<lambda>key d1. with_arg D (\<lambda>val d2.
          (None, p\<lparr>pr_CustomLabels := gomap_set key val (pr_CustomLabels p)\<rparr>, d2)) d1 p) d p
      else (Some (Errf ''unrecognized prometheus directive: %s'' [x]), p, d))"

definition prometheus_UnmarshalCaddyfile ::
  "'d dispenser \<Rightarrow> 'd \<Rightarrow> PrometheusEndpointHandler \<Rightarrow> (PrometheusEndpointHandler, 'd) parsed option" where
  "prometheus_UnmarshalCaddyfile D = next_loop D (arg_then_block D (\<lambda>a p. p\<lparr>pr_MetricsPath := a\<rparr>) (prometheus_option D))"

definition zero_prometheus :: PrometheusEndpointHandler where
  "zero_prometheus = \<lparr>pr_MetricsPath = [], pr_EnableHealth = False, pr_EnableDebug = False, pr_CustomLabels = [],
     pr_DebugLocalOnly = None, pr_startTime = 0, pr_requestCount = 0\<rparr>"

definition ParseCaddyfilePrometheus :: "'d dispenser \<Rightarrow> 'd \<Rightarrow> (cf_error + PrometheusEndpointHandler) option" where
  "ParseCaddyfilePrometheus D d = map_option adapted (prometheus_UnmarshalCaddyfile D d zero_prometheus)"

subsection \<open>The metrics middleware\<close>

definition metrics_option :: "'d dispenser \<Rightarrow> 'd \<Rightarrow> MetricsHandler \<Rightarrow> (MetricsHandler, 'd) parsed" where
  "metrics_option D d m =
     (let x = d_Val D d in
      if x = ''path'' then with_arg D (\<lambda>a d1. (None, m\<lparr>mh_MetricsPath := a\<rparr>, d1)) d m
      else (Some (Errf ''unrecognized gcs_metrics directive: %s'' [x]), m, d))"

definition metrics_UnmarshalCaddyfile :: "'d dispenser \<Rightarrow> 'd \<Rightarrow> MetricsHandler \<Rightarrow> (MetricsHandler, 'd) parsed option" where
  "metrics_UnmarshalCaddyfile D = next_loop D (arg_then_block D (\<lambda>a m. m\<lparr>mh_MetricsPath := a\<rparr>) (metrics_option D))"

definition zero_metrics :: MetricsHandler where
  "zero_metrics = \<lparr>mh_MetricsPath = []\<rparr>"

definition ParseCaddyfileMetrics :: "'d dispenser \<Rightarrow> 'd \<Rightarrow> (cf_error + MetricsHandler) option" where
  "ParseCaddyfileMetrics D d = map_option adapted (metrics_UnmarshalCaddyfile D d zero_metrics)"

subsection \<open>The filesystem\<close>

text \<open>\<^verbatim>\<open>strconv.Atoi\<close>; its errors are not told apart by the caller.\<close>

definition Atoi :: "string \<Rightarrow> int option" where
  "Atoi s =
     (let neg = (s \<noteq> [] \<and> hd s = CHR ''-'');
          ds = (if s \<noteq> [] \<and> (hd s = CHR ''-'' \<or> hd s = CHR ''+'') then tl s else s);
          n = (if neg then - int (undec ds) else int (undec ds))
      in if ds = [] \<or> \<not> list_all is_digit ds \<or> \<not> in_i64 n then None else Some n)"

text \<open>
  The switch of the \<^verbatim>\<open>gcs\<close> block; \<open>seen\<close> are the options read so far and \<open>pd\<close> is
  \<^verbatim>\<open>caddy.ParseDuration\<close>.
\<close>

type_synonym ('w, 'c) gcs_config = "string list \<times> ('w, 'c) GCSFS"

definition gcs_switch ::
  "(string \<Rightarrow> string + duration) \<Rightarrow> 'd dispenser \<Rightarrow> 'd \<Rightarrow> ('w, 'c) gcs_config \<Rightarrow> (('w, 'c) gcs_config, 'd) parsed" where
  "gcs_switch pd D d s =
     (let x = d_Val D d; seen = fst s; f = snd s in
      if x = ''bucket_name'' then
        with_all D (g_BucketName f) (\<lambda>a. (seen, f\<lparr>g_BucketName := a\<rparr>)) (\<lambda>a d1. (None, (seen, f\<lparr>g_BucketName := a\<rparr>), d1)) d
      else if x = ''path_prefix'' then
        with_all D (g_PathPrefix f) (\<lambda>a. (seen, f\<lparr>g_PathPrefix := a\<rparr>)) (\<lambda>a d1. (None, (seen, f\<lparr>g_PathPrefix := a\<rparr>), d1)) d
      else if x = ''project_id'' then
        with_all D (g_ProjectID f) (\<lambda>a. (seen, f\<lparr>g_ProjectID := a\<rparr>)) (\<lambda>a d1. (None, (seen, f\<lparr>g_ProjectID := a\<rparr>), d1)) d
      else if x = ''credentials_file'' then
        with_all D (g_CredentialsFile f) (\<lambda>a. (seen, f\<lparr>g_CredentialsFile := a\<rparr>)) (\<lambda>a d1. (None, (seen, f\<lparr>g_CredentialsFile := a\<rparr>), d1)) d
      else if x = ''credentials_config'' then
        with_all D (g_CredentialsConfig f) (\<lambda>a. (seen, f\<lparr>g_CredentialsConfig := a\<rparr>)) (\<lambda>a d1. (None, (seen, f\<lparr>g_CredentialsConfig := a\<rparr>), d1)) d
      else if x = ''service_account'' then
        with_all D (g_ServiceAccount f) (\<lambda>a. (seen, f\<lparr>g_ServiceAccount := a\<rparr>)) (\<lambda>a d1. (None, (seen, f\<lparr>g_ServiceAccount := a\<rparr>), d1)) d
      else if x = ''use_workload_identity'' then (None, (seen, f\<lparr>g_UseWorkloadIdentity := True\<rparr>), d)
      else if x = ''cache_ttl'' then
        with_all D [] (\<lambda>raw. (seen, f)) (\<lambda>raw d1.
          case pd raw of
            Inl err \<Rightarrow> (Some (Errf ''invalid cache_ttl %q: %v'' [raw, err]), (seen, f), d1)
          | Inr dur \<Rightarrow> (None, (seen, f\<lparr>g_CacheTTL := dur, g_cacheTTLSet := True\<rparr>), d1)) d
      else if x = ''cache_max_entries'' then
        with_all D [] (\<lambda>raw. (seen, f)) (\<lambda>raw d1.
          case Atoi raw of
            None \<Rightarrow> (Some (Errf ''invalid cache_max_entries %q: must be a positive integer'' [raw]), (seen, f), d1)
          | Some n \<Rightarrow>
              (if n \<le> 0 then (Some (Errf ''invalid cache_max_entries %q: must be a positive integer'' [raw]), (seen, f), d1)
               else (None, (seen, f\<lparr>g_CacheMaxEntries := n, g_cacheMaxEntriesSet := True\<rparr>), d1))) d
      else (Some (Errf ''%s not a valid caddy.fs.gcs option'' [x]), s, d))"

definition gcs_option ::
  "(string \<Rightarrow> string + duration) \<Rightarrow> 'd dispenser \<Rightarrow> 'd \<Rightarrow> ('w, 'c) gcs_config \<Rightarrow> (('w, 'c) gcs_config, 'd) parsed" where
  "gcs_option pd D d s =
     (if d_Val D d \<in> set (fst s) then (Some (Errf ''duplicate directive: %s'' [d_Val D d]), s, d)
      else gcs_switch pd D d (d_Val D d # fst s, snd s))"

definition require_bucket :: "(('w, 'c) gcs_config, 'd) parsed \<Rightarrow> (('w, 'c) GCSFS, 'd) parsed" where
  "require_bucket r =
     (case r of (e, s, d) \<Rightarrow>
        (if e \<noteq> None then e else if g_BucketName (snd s) = [] then Some (Errf ''bucket_name is required'' []) else None, snd s, d))"

definition gcs_UnmarshalCaddyfile ::
  "(string \<Rightarrow> string + duration) \<Rightarrow> 'd dispenser \<Rightarrow> 'd \<Rightarrow> ('w, 'c) GCSFS \<Rightarrow> (('w, 'c) GCSFS, 'd) parsed option" where
  "gcs_UnmarshalCaddyfile pd D d f =
     (case d_Next D d of
        (ok, d1) \<Rightarrow>
          if \<not> ok then Some (Some ArgErr, f, d1)
          else map_option require_bucket (block_loop D (d_Nesting D d1) (gcs_option pd D) d1 ([], f)))"

subsection \<open>The error pages\<close>

text \<open>
  The embedded files are a parameter; \<^verbatim>\<open>fs.Sub\<close> of an embedded filesystem and a valid directory
  name makes a view of it and does not fail.
\<close>

record 'f EmbeddedErrorPages =
  ep_FS :: "('f \<times> string) option"

definition fs_Sub_std :: "'f \<Rightarrow> string \<Rightarrow> gerror + ('f \<times> string)" where
  "fs_Sub_std fsys dir = (if \<not> fs_ValidPath dir then Inl (PathError ''sub'' dir ErrInvalid) else Inr (fsys, dir))"

definition errorpages_Provision :: "'f \<Rightarrow> 'f EmbeddedErrorPages \<Rightarrow> gerror option \<times> 'f EmbeddedErrorPages" where
  "errorpages_Provision embeddedPages e =
     (case fs_Sub_std embeddedPages ''caddy'' of
        Inl err \<Rightarrow> (Some err, e)
      | Inr sub \<Rightarrow> (None, e\<lparr>ep_FS := Some sub\<rparr>))"

definition errorpages_UnmarshalCaddyfile ::
  "'d dispenser \<Rightarrow> 'd \<Rightarrow> 'f EmbeddedErrorPages \<Rightarrow> ('f EmbeddedErrorPages, 'd) parsed" where
  "errorpages_UnmarshalCaddyfile D d e =
     (case d_Next D d of
        (ok, d1) \<Rightarrow>
          if \<not> ok then (Some ArgErr, e, d1)
          else case d_NextBlock D (d_Nesting D d1) d1 of
                 (block, d2) \<Rightarrow>
                   if block then (Some (Errf ''caddy.fs.error_pages does not accept any configuration'' []), e, d2)
                   else (None, e, d2))"

subsection \<open>Every parser ends\<close>

lemmas rewind_rules = no_rewind_with_arg no_rewind_with_all

interpretation health: directive_block health_option
  by unfold_locales (auto simp: health_option_def Let_def intro!: rewind_rules)

interpretation validation: directive_block validation_option
  by unfold_locales (auto simp: validation_option_def Let_def intro!: rewind_rules)

interpretation prometheus: directive_block prometheus_option
  by unfold_locales (auto simp: prometheus_option_def Let_def intro!: rewind_rules)

interpretation middleware: directive_block metrics_option
  by unfold_locales (auto simp: metrics_option_def Let_def intro!: rewind_rules)

interpretation gcs: directive_block "gcs_option pd" for pd
  by unfold_locales (auto simp: gcs_option_def gcs_switch_def Let_def intro!: rewind_rules split: sum.split option.split)

text \<open>
  C24. No Caddyfile can make the program hang while it is read: on every finite token stream each
  of the six parsers returns, with a configuration or an error, and has not moved the stream back.
\<close>

theorem parsers_return:
  assumes "advances D left"
  shows "(\<exists>r. health_UnmarshalCaddyfile D d (h :: 'w HealthEndpointHandler) = Some r \<and> no_rewind left d r) \<and>
    (\<exists>r. validation_UnmarshalCaddyfile D d v = Some r \<and> no_rewind left d r) \<and>
    (\<exists>r. prometheus_UnmarshalCaddyfile D d p = Some r \<and> no_rewind left d r) \<and>
    (\<exists>r. metrics_UnmarshalCaddyfile D d m = Some r \<and> no_rewind left d r) \<and>
    (\<exists>r. gcs_UnmarshalCaddyfile pd D d (f :: ('x, 'c) GCSFS) = Some r \<and> no_rewind left d r) \<and>
    no_rewind left d (errorpages_UnmarshalCaddyfile D d (e :: 'f EmbeddedErrorPages))"
proof (intro conjI)
  show "\<exists>r. health_UnmarshalCaddyfile D d h = Some r \<and> no_rewind left d r"
    unfolding health_UnmarshalCaddyfile_def by (rule next_loop_returns [OF assms health.arg_block_returns [OF assms]])
  show "\<exists>r. validation_UnmarshalCaddyfile D d v = Some r \<and> no_rewind left d r"
    unfolding validation_UnmarshalCaddyfile_def by (rule next_loop_returns [OF assms validation.arg_block_returns [OF assms]])
  show "\<exists>r. prometheus_UnmarshalCaddyfile D d p = Some r \<and> no_rewind left d r"
    unfolding prometheus_UnmarshalCaddyfile_def by (rule next_loop_returns [OF assms prometheus.arg_block_returns [OF assms]])
  show "\<exists>r. metrics_UnmarshalCaddyfile D d m = Some r \<and> no_rewind left d r"
    unfolding metrics_UnmarshalCaddyfile_def by (rule next_loop_returns [OF assms middleware.arg_block_returns [OF assms]])
  obtain ok d1 where n: "d_Next D d = (ok, d1)" by force
  obtain r where "block_loop D (d_Nesting D d1) (gcs_option pd D) d1 ([], f) = Some r" "no_rewind left d1 r"
    using gcs.block_returns [OF assms] by blast
  with n advances_Next [OF assms n] show "\<exists>r. gcs_UnmarshalCaddyfile pd D d f = Some r \<and> no_rewind left d r"
    by (auto simp: gcs_UnmarshalCaddyfile_def no_rewind_def require_bucket_def split: prod.split)
  obtain b d2 where "d_NextBlock D (d_Nesting D d1) d1 = (b, d2)" by force
  with n advances_Next [OF assms n] advances_NextBlock [OF assms this]
  show "no_rewind left d (errorpages_UnmarshalCaddyfile D d e)"
    by (auto simp: errorpages_UnmarshalCaddyfile_def no_rewind_def)
qed

theorem parsers_return_witness:
  "\<exists>r. health_UnmarshalCaddyfile cursor_disp (Start [''/up''] [[''enable_metrics''], [''label'', ''a'']]) (zero_health :: nat HealthEndpointHandler) = Some r"
  using parsers_return [OF cursor_advances, where h = "zero_health :: nat HealthEndpointHandler"] by blast

subsection \<open>Grammars\<close>

definition bool_word :: "cf_error \<Rightarrow> (bool \<Rightarrow> 'h \<Rightarrow> 'h) \<Rightarrow> string \<Rightarrow> cf_error + ('h \<Rightarrow> 'h)" where
  "bool_word err g a = (if a = ''true'' then Inr (g True) else if a = ''false'' then Inr (g False) else Inl err)"

definition health_grammar :: "(string \<times> 'w HealthEndpointHandler option_kind) list" where
  "health_grammar =
     [(''path'', Word (\<lambda>a. Inr (\<lambda>h. h\<lparr>HealthPath := a\<rparr>))), (''health_path'', Word (\<lambda>a. Inr (\<lambda>h. h\<lparr>HealthPath := a\<rparr>))),
      (''readiness_path'', Word (\<lambda>a. Inr (\<lambda>h. h\<lparr>ReadinessPath := a\<rparr>))), (''liveness_path'', Word (\<lambda>a. Inr (\<lambda>h. h\<lparr>LivenessPath := a\<rparr>))),
      (''startup_path'', Word (\<lambda>a. Inr (\<lambda>h. h\<lparr>StartupPath := a\<rparr>))),
      (''enable_detailed'', Flag (\<lambda>h. h\<lparr>EnableDetailed := True\<rparr>)), (''enable_metrics'', Flag (\<lambda>h. h\<lparr>EnableMetrics := True\<rparr>)),
      (''label'', Two (\<lambda>k v h. h\<lparr>CustomLabels := gomap_set k v (CustomLabels h)\<rparr>)),
      (''detailed_local_only'', Word (bool_word (Errf (''detailed_local_only must be 'true' or 'false'' @ [CHR 0x27]) [])
         (\<lambda>b h. h\<lparr>DetailedLocalOnly := Some b\<rparr>)))]"

definition validation_grammar :: "(string \<times> ValidationEndpointHandler option_kind) list" where
  "validation_grammar =
     [(''path'', Word (\<lambda>a. Inr (\<lambda>v. v\<lparr>vh_ValidationPath := a\<rparr>))),
      (''enable_live'', Flag (\<lambda>v. v\<lparr>vh_EnableLive := True\<rparr>)), (''enable_dry_run'', Flag (\<lambda>v. v\<lparr>vh_EnableDryRun := True\<rparr>)),
      (''strict_mode'', Flag (\<lambda>v. v\<lparr>vh_StrictMode := True\<rparr>)), (''validate_on_load'', Flag (\<lambda>v. v\<lparr>vh_ValidateOnLoad := True\<rparr>)),
      (''local_only'', Word (bool_word (Errf (''local_only must be 'true' or 'false'' @ [CHR 0x27]) []) (\<lambda>b v. v\<lparr>vh_LocalOnly := Some b\<rparr>))),
      (''label'', Two (\<lambda>k x v. v\<lparr>vh_CustomLabels := gomap_set k x (vh_CustomLabels v)\<rparr>))]"

definition prometheus_grammar :: "(string \<times> PrometheusEndpointHandler option_kind) list" where
  "prometheus_grammar =
     [(''path'', Word (\<lambda>a. Inr (\<lambda>p. p\<lparr>pr_MetricsPath := a\<rparr>))),
      (''enable_health'', Flag (\<lambda>p. p\<lparr>pr_EnableHealth := True\<rparr>)), (''enable_debug'', Flag (\<lambda>p. p\<lparr>pr_EnableDebug := True\<rparr>)),
      (''debug_local_only'', Word (\<lambda>a. bool_word (Errf (''debug_local_only must be 'true' or 'false', got '%s'' @ [CHR 0x27]) [a])
         (\<lambda>b p. p\<lparr>pr_DebugLocalOnly := Some b\<rparr>) a)),
      (''label'', Two (\<lambda>k x p. p\<lparr>pr_CustomLabels := gomap_set k x (pr_CustomLabels p)\<rparr>))]"

definition metrics_grammar :: "(string \<times> MetricsHandler option_kind) list" where
  "metrics_grammar = [(''path'', Word (\<lambda>a. Inr (\<lambda>m. m\<lparr>mh_MetricsPath := a\<rparr>)))]"

text \<open>The parsers' switches implement the tables.\<close>

lemma health_reads:
  assumes "presents D view"
  shows "reads_option view (read_table ''unrecognized gcs_health directive: %s'' health_grammar) (health_option D)"
proof (rule reads_tableI)
  fix d v as ls h k assume d: "view d = Inside v as ls" and k: "(v, k) \<in> set health_grammar"
  note rules = option_agrees_word [OF assms d] option_agrees_two [OF assms d] option_agrees_flag [of view, OF d]
  from k show "option_agrees view as ls (health_option D d h) (read_kind k as h)"
    unfolding health_grammar_def list.set
    by (elim insertE emptyE; simp add: health_option_def presents_inside(1) [OF assms d] Let_def del: read_kind.simps)
       (rule rules; simp add: apply_word_def bool_word_def)+
qed (simp add: health_grammar_def health_option_def presents_inside(1) [OF assms] Let_def)

lemma validation_reads:
  assumes "presents D view"
  shows "reads_option view (read_table ''unrecognized config_validation directive: %s'' validation_grammar) (validation_option D)"
proof (rule reads_tableI)
  fix d v as ls h k assume d: "view d = Inside v as ls" and k: "(v, k) \<in> set validation_grammar"
  note rules = option_agrees_word [OF assms d] option_agrees_two [OF assms d] option_agrees_flag [of view, OF d]
  from k show "option_agrees view as ls (validation_option D d h) (read_kind k as h)"
    unfolding validation_grammar_def list.set
    by (elim insertE emptyE; simp add: validation_option_def presents_inside(1) [OF assms d] Let_def del: read_kind.simps)
       (rule rules; simp add: apply_word_def bool_word_def)+
qed (simp add: validation_grammar_def validation_option_def presents_inside(1) [OF assms] Let_def)

lemma prometheus_reads:
  assumes "presents D view"
  shows "reads_option view (read_table ''unrecognized prometheus directive: %s'' prometheus_grammar) (prometheus_option D)"
proof (rule reads_tableI)
  fix d v as ls h k assume d: "view d = Inside v as ls" and k: "(v, k) \<in> set prometheus_grammar"
  note rules = option_agrees_word [OF assms d] option_agrees_two [OF assms d] option_agrees_flag [of view, OF d]
  from k show "option_agrees view as ls (prometheus_option D d h) (read_kind k as h)"
    unfolding prometheus_grammar_def list.set
    by (elim insertE emptyE; simp add: prometheus_option_def presents_inside(1) [OF assms d] Let_def del: read_kind.simps)
       (rule rules; simp add: apply_word_def bool_word_def)+
qed (simp add: prometheus_grammar_def prometheus_option_def presents_inside(1) [OF assms] Let_def)

lemma metrics_reads:
  assumes "presents D view"
  shows "reads_option view (read_table ''unrecognized gcs_metrics directive: %s'' metrics_grammar) (metrics_option D)"
proof (rule reads_tableI)
  fix d v as ls h k assume d: "view d = Inside v as ls" and k: "(v, k) \<in> set metrics_grammar"
  note rules = option_agrees_word [OF assms d] option_agrees_two [OF assms d] option_agrees_flag [of view, OF d]
  from k show "option_agrees view as ls (metrics_option D d h) (read_kind k as h)"
    unfolding metrics_grammar_def list.set
    by (elim insertE emptyE; simp add: metrics_option_def presents_inside(1) [OF assms d] Let_def del: read_kind.simps)
       (rule rules; simp add: apply_word_def bool_word_def)+
qed (simp add: metrics_grammar_def metrics_option_def presents_inside(1) [OF assms] Let_def)

definition gcs_grammar :: "(string \<Rightarrow> string + duration) \<Rightarrow> (string \<times> ('w, 'c) gcs_config option_kind) list" where
  "gcs_grammar pd =
     [(''bucket_name'', Sole (\<lambda>a. Inr (\<lambda>(seen, f). (seen, f\<lparr>g_BucketName := a\<rparr>)))),
      (''path_prefix'', Sole (\<lambda>a. Inr (\<lambda>(seen, f). (seen, f\<lparr>g_PathPrefix := a\<rparr>)))),
      (''project_id'', Sole (\<lambda>a. Inr (\<lambda>(seen, f). (seen, f\<lparr>g_ProjectID := a\<rparr>)))),
      (''credentials_file'', Sole (\<lambda>a. Inr (\<lambda>(seen, f). (seen, f\<lparr>g_CredentialsFile := a\<rparr>)))),
      (''credentials_config'', Sole (\<lambda>a. Inr (\<lambda>(seen, f). (seen, f\<lparr>g_CredentialsConfig := a\<rparr>)))),
      (''service_account'', Sole (\<lambda>a. Inr (\<lambda>(seen, f). (seen, f\<lparr>g_ServiceAccount := a\<rparr>)))),
      (''use_workload_identity'', Flag (\<lambda>(seen, f). (seen, f\<lparr>g_UseWorkloadIdentity := True\<rparr>))),
      (''cache_ttl'', Sole (\<lambda>a. case pd a of
         Inl err \<Rightarrow> Inl (Errf ''invalid cache_ttl %q: %v'' [a, err])
       | Inr dur \<Rightarrow> Inr (\<lambda>(seen, f). (seen, f\<lparr>g_CacheTTL := dur, g_cacheTTLSet := True\<rparr>)))),
      (''cache_max_entries'', Sole (\<lambda>a.
         if \<exists>n > 0. Atoi a = Some n
         then Inr (\<lambda>(seen, f). (seen, f\<lparr>g_CacheMaxEntries := the (Atoi a), g_cacheMaxEntriesSet := True\<rparr>))
         else Inl (Errf ''invalid cache_max_entries %q: must be a positive integer'' [a])))]"

text \<open>Each option at most once.\<close>

definition gcs_line :: "(string \<Rightarrow> string + duration) \<Rightarrow> ('w, 'c) gcs_config option_reader" where
  "gcs_line pd v as s =
     (if v \<in> set (fst s) then (Some (Errf ''duplicate directive: %s'' [v]), s, 0)
      else read_table ''%s not a valid caddy.fs.gcs option'' (gcs_grammar pd) v as (v # fst s, snd s))"

lemma gcs_switch_reads:
  assumes "presents D view"
  shows "reads_option view (read_table ''%s not a valid caddy.fs.gcs option'' (gcs_grammar pd)) (gcs_switch pd D)"
proof (rule reads_tableI)
  fix d v as ls k s
  assume d: "view d = Inside v as ls" and k: "(v, k) \<in> set (gcs_grammar pd)"
  note rules = option_agrees_sole [OF assms d] option_agrees_flag [of view, OF d]
  from k show "option_agrees view as ls (gcs_switch pd D d s) (read_kind k as s)"
    unfolding gcs_grammar_def list.set
    by (elim insertE emptyE; simp add: gcs_switch_def presents_inside(1) [OF assms d] Let_def del: read_kind.simps)
       (rule rules; auto simp: apply_word_def split: prod.split sum.split option.split)+
qed (simp add: gcs_grammar_def gcs_switch_def presents_inside(1) [OF assms] Let_def)

lemma gcs_reads:
  assumes "presents D view"
  shows "reads_option view (gcs_line pd :: ('w, 'c) gcs_config option_reader) (gcs_option pd D)"
  unfolding reads_option_def
proof (intro allI impI)
  fix d v as ls and s :: "('w, 'c) gcs_config" assume d: "view d = Inside v as ls"
  from gcs_switch_reads [OF assms, unfolded reads_option_def, rule_format, OF d, of pd "(v # fst s, snd s)"]
  show "option_agrees view as ls (gcs_option pd D d s) (gcs_line pd v as s)"
    by (simp add: gcs_line_def gcs_option_def presents_inside(1) [OF assms d] option_agrees_error)
qed

interpretation health: directive_reader health_option "read_table ''unrecognized gcs_health directive: %s'' health_grammar"
  by unfold_locales (rule health_reads)

interpretation validation: directive_reader validation_option "read_table ''unrecognized config_validation directive: %s'' validation_grammar"
  by unfold_locales (rule validation_reads)

interpretation prometheus: directive_reader prometheus_option "read_table ''unrecognized prometheus directive: %s'' prometheus_grammar"
  by unfold_locales (rule prometheus_reads)

interpretation middleware: directive_reader metrics_option "read_table ''unrecognized gcs_metrics directive: %s'' metrics_grammar"
  by unfold_locales (rule metrics_reads)

interpretation gcs: directive_reader "gcs_option pd" "gcs_line pd" for pd
  by unfold_locales (rule gcs_reads)

text \<open>What a directive with first words \<open>as\<close> and a block of lines means.\<close>

definition directive_spec ::
  "string \<Rightarrow> (string \<times> 'h option_kind) list \<Rightarrow> (string \<Rightarrow> 'h \<Rightarrow> 'h) \<Rightarrow> string list \<Rightarrow> string list list \<Rightarrow> 'h \<Rightarrow> cf_error option \<times> 'h" where
  "directive_spec unknown table set_path as ls h =
     block_spec (read_table unknown table) ls (case as of [] \<Rightarrow> h | a # _ \<Rightarrow> set_path a h)"

definition gcs_spec :: "(string \<Rightarrow> string + duration) \<Rightarrow> string list list \<Rightarrow> ('w, 'c) GCSFS \<Rightarrow> cf_error option \<times> ('w, 'c) GCSFS" where
  "gcs_spec pd ls f =
     (case block_spec (gcs_line pd) ls ([], f) of
        (e, s) \<Rightarrow> (if e = None \<and> g_BucketName (snd s) = [] then Some (Errf ''bucket_name is required'' []) else e, snd s))"

lemma gcs_parses:
  assumes "presents D view" and "view d = Start [] ls"
  shows "yields (gcs_UnmarshalCaddyfile pd D d f) (gcs_spec pd ls f)"
proof -
  obtain d1 where d1: "d_Next D d = (True, d1)" "view d1 = Head [] ls"
    using presents_outside(1) [OF assms] by blast
  obtain e s d2 where "block_loop D 0 (gcs_option pd D) d1 ([], f) = Some (e, s, d2)"
      "parsed_as view Finished (e, s, d2) (block_spec (gcs_line pd) ls ([], f))"
    using gcs.block_parses [OF assms(1) d1(2), of pd "([], f)"] by auto
  with d1 presents_outside(3) [OF assms(1) d1(2)] show ?thesis
    by (auto simp: gcs_UnmarshalCaddyfile_def require_bucket_def yields_def gcs_spec_def parsed_as_def split: prod.split)
qed

text \<open>
  C23. The parsers implement their grammars. On any stream that presents one directive, words and a
  block of lines, the parsers of \<^verbatim>\<open>gcs_health\<close>, \<^verbatim>\<open>config_validation\<close>, \<^verbatim>\<open>prometheus\<close>, \<^verbatim>\<open>gcs_metrics\<close>
  and \<^verbatim>\<open>gcs\<close> return, and with exactly the error or the configuration that reading the lines with
  the table of options gives, whatever the stream does internally.
\<close>

theorem parsers_follow_grammar:
  fixes h :: "'w HealthEndpointHandler" and f :: "('x, 'c) GCSFS"
  assumes "presents D view" and "view d = Start as ls"
  shows "yields (health_UnmarshalCaddyfile D d h)
      (directive_spec ''unrecognized gcs_health directive: %s'' health_grammar (\<lambda>a h. h\<lparr>HealthPath := a\<rparr>) as ls h) \<and>
    yields (validation_UnmarshalCaddyfile D d v)
      (directive_spec ''unrecognized config_validation directive: %s'' validation_grammar
         (\<lambda>a v. v\<lparr>vh_ValidationPath := a\<rparr>) as ls (default_validation_path v)) \<and>
    yields (prometheus_UnmarshalCaddyfile D d p)
      (directive_spec ''unrecognized prometheus directive: %s'' prometheus_grammar (\<lambda>a p. p\<lparr>pr_MetricsPath := a\<rparr>) as ls p) \<and>
    yields (metrics_UnmarshalCaddyfile D d m)
      (directive_spec ''unrecognized gcs_metrics directive: %s'' metrics_grammar (\<lambda>a m. m\<lparr>mh_MetricsPath := a\<rparr>) as ls m) \<and>
    (as = [] \<longrightarrow> yields (gcs_UnmarshalCaddyfile pd D d f) (gcs_spec pd ls f))"
  unfolding directive_spec_def health_UnmarshalCaddyfile_def validation_UnmarshalCaddyfile_def
    prometheus_UnmarshalCaddyfile_def metrics_UnmarshalCaddyfile_def
  by (intro conjI next_loop_once [OF assms] health.arg_block_parses [OF assms(1)] validation.arg_block_parses [OF assms(1)]
      prometheus.arg_block_parses [OF assms(1)] middleware.arg_block_parses [OF assms(1)])
     (use assms gcs_parses in auto)

theorem parsers_follow_grammar_witness:
  "yields (prometheus_UnmarshalCaddyfile cursor_disp (Start [''/m''] [[''enable_debug''], [''label'', ''env'', ''prod'', ''enable_health'']]) zero_prometheus)
     (None, zero_prometheus\<lparr>pr_MetricsPath := ''/m'', pr_EnableDebug := True, pr_EnableHealth := True,
        pr_CustomLabels := [(''env'', ''prod'')]\<rparr>)"
  using conjunct1 [OF conjunct2 [OF conjunct2 [OF parsers_follow_grammar [OF cursor_presents refl,
     of "[''/m'']" "[[''enable_debug''], [''label'', ''env'', ''prod'', ''enable_health'']]"]]], of zero_prometheus]
  by (simp add: directive_spec_def read_table_def prometheus_grammar_def zero_prometheus_def)

subsection \<open>Which filesystem configurations a Caddyfile can give\<close>

definition zero_gcs :: "('w, 'c) GCSFS" where
  "zero_gcs = \<lparr>g_StatFS = None, g_cache = None, g_BucketName = [], g_PathPrefix = [], g_ProjectID = [],
     g_CredentialsFile = [], g_CredentialsConfig = [], g_ServiceAccount = [], g_UseWorkloadIdentity = False,
     g_CacheTTL = 0, g_cacheTTLSet = False, g_CacheMaxEntries = 0, g_cacheMaxEntriesSet = False, g_client = None, g_poolKey = []\<rparr>"

text \<open>Nothing of the run time is set, and a value that was not given is zero.\<close>

definition plain_config :: "('w, 'c) GCSFS \<Rightarrow> bool" where
  "plain_config f \<longleftrightarrow> g_StatFS f = None \<and> g_cache f = None \<and> g_client f = None \<and> g_poolKey f = [] \<and>
     (\<not> g_cacheTTLSet f \<longrightarrow> g_CacheTTL f = 0) \<and>
     (if g_cacheMaxEntriesSet f then 0 < g_CacheMaxEntries f \<and> g_CacheMaxEntries f < 2 ^ 63 else g_CacheMaxEntries f = 0)"

lemma plain_config_zero [simp]: "plain_config zero_gcs"
  by (simp add: plain_config_def zero_gcs_def)

lemma Atoi_range: "Atoi s = Some n \<Longrightarrow> in_i64 n"
  by (auto simp: Atoi_def Let_def split: if_splits)

lemma Atoi_dec: "int n < 2 ^ 63 \<Longrightarrow> Atoi (dec n) = Some (int n)"
proof -
  assume n: "int n < 2 ^ 63"
  have d: "is_digit (hd (dec n))" using dec_digits [of "hd (dec n)" n] dec_not_Nil [of n] by simp
  then have "hd (dec n) \<noteq> CHR ''-''" "hd (dec n) \<noteq> CHR ''+''" by (auto simp: is_digit_def)
  with n show ?thesis by (auto simp: Atoi_def Let_def in_i64_def list_all_iff dest: dec_digits)
qed

lemma with_allE:
  assumes "with_all D old g k d = (None, h', d')"
  obtains a d1 where "k a d1 = (None, h', d')"
  using assms by (auto simp: with_all_def split: prod.splits if_splits)

lemma plain_config_set:
  "plain_config (f\<lparr>g_BucketName := a\<rparr>) = plain_config f" "plain_config (f\<lparr>g_PathPrefix := a\<rparr>) = plain_config f"
  "plain_config (f\<lparr>g_ProjectID := a\<rparr>) = plain_config f" "plain_config (f\<lparr>g_CredentialsFile := a\<rparr>) = plain_config f"
  "plain_config (f\<lparr>g_CredentialsConfig := a\<rparr>) = plain_config f" "plain_config (f\<lparr>g_ServiceAccount := a\<rparr>) = plain_config f"
  "plain_config (f\<lparr>g_UseWorkloadIdentity := b\<rparr>) = plain_config f"
  by (simp_all add: plain_config_def)

lemma plain_config_ttl: "plain_config f \<Longrightarrow> plain_config (f\<lparr>g_CacheTTL := t, g_cacheTTLSet := True\<rparr>)"
  by (auto simp: plain_config_def split: if_splits)

lemma plain_config_max:
  "plain_config f \<Longrightarrow> in_i64 n \<Longrightarrow> 0 < n \<Longrightarrow> plain_config (f\<lparr>g_CacheMaxEntries := n, g_cacheMaxEntriesSet := True\<rparr>)"
  by (simp add: plain_config_def in_i64_def)

lemma gcs_option_plain:
  assumes "plain_config (snd s)" and "gcs_option pd D d s = (None, s', d')"
  shows "plain_config (snd s')"
proof -
  have "gcs_switch pd D d (d_Val D d # fst s, snd s) = (None, s', d')"
    using assms(2) by (simp add: gcs_option_def split: if_splits)
  with assms(1) show ?thesis
    unfolding gcs_switch_def Let_def
    by (simp only: split: if_split_asm)
       (auto elim!: with_allE split: sum.split_asm option.split_asm if_split_asm dest!: Atoi_range
         simp: plain_config_set plain_config_ttl plain_config_max)
qed

lemma gcs_accepted_plain:
  assumes "gcs_UnmarshalCaddyfile pd D d f = Some (None, f', d')" and "plain_config f"
  shows "plain_config f' \<and> g_BucketName f' \<noteq> []"
proof -
  obtain n d1 s d2 where b: "block_loop D n (gcs_option pd D) d1 ([], f) = Some (None, s, d2)" "snd s = f'" "g_BucketName f' \<noteq> []"
    using assms(1) by (auto simp: gcs_UnmarshalCaddyfile_def require_bucket_def split: prod.splits if_splits)
  have "plain_config (snd s)"
    by (rule block_loop_inv [where I = "\<lambda>s. plain_config (snd s)", OF _ b(1)]) (use assms(2) gcs_option_plain in auto)
  with b show ?thesis by simp
qed

text \<open>A configuration written down; empty words and unset values are left out.\<close>

definition word_line :: "string \<Rightarrow> string \<Rightarrow> string list list" where
  "word_line nm a = (if a \<noteq> [] then [[nm, a]] else [])"

definition gcs_lines :: "(duration \<Rightarrow> string) \<Rightarrow> ('w, 'c) GCSFS \<Rightarrow> string list list" where
  "gcs_lines tt f =
     word_line ''bucket_name'' (g_BucketName f) @ word_line ''path_prefix'' (g_PathPrefix f) @
     word_line ''project_id'' (g_ProjectID f) @ word_line ''credentials_file'' (g_CredentialsFile f) @
     word_line ''credentials_config'' (g_CredentialsConfig f) @ word_line ''service_account'' (g_ServiceAccount f) @
     (if g_UseWorkloadIdentity f then [[''use_workload_identity'']] else []) @
     (if g_cacheTTLSet f then [[''cache_ttl'', tt (g_CacheTTL f)]] else []) @
     (if g_cacheMaxEntriesSet f then [[''cache_max_entries'', dec (nat (g_CacheMaxEntries f))]] else [])"

text \<open>One line of a block, read as far as it goes.\<close>

lemma block_spec_line:
  assumes "nm \<notin> set seen" and "map_of (gcs_grammar pd) nm = Some k" and "read_kind k as (nm # seen, f) = (None, (nm # seen, f'), length as)"
  shows "block_spec (gcs_line pd) ((nm # as) # ls) (seen, f) = block_spec (gcs_line pd) ls (nm # seen, f')"
  using assms by (simp add: gcs_line_def read_table_def)

definition reads_to :: "(string \<Rightarrow> string + duration) \<Rightarrow> string list list \<Rightarrow> string set \<Rightarrow> ('w, 'c) GCSFS \<Rightarrow> ('w, 'c) GCSFS \<Rightarrow> bool" where
  "reads_to pd ls names f f' \<longleftrightarrow>
     (\<forall>seen rest. set seen \<inter> names = {} \<longrightarrow>
        (\<exists>seen'. set seen' \<subseteq> set seen \<union> names \<and>
           block_spec (gcs_line pd) (ls @ rest) (seen, f) = block_spec (gcs_line pd) rest (seen', f')))"

lemma reads_to_Nil: "reads_to pd [] names f f"
  unfolding reads_to_def by (metis Un_upper1 append_Nil)

lemma reads_to_line:
  assumes "map_of (gcs_grammar pd) nm = Some k" and "\<And>s. read_kind k as (s, f) = (None, (s, f'), length as)"
  shows "reads_to pd [nm # as] {nm} f f'"
  unfolding reads_to_def
proof (intro allI impI)
  fix seen rest assume "set seen \<inter> {nm} = {}"
  then have "nm \<notin> set seen" by simp
  from block_spec_line [OF this assms] show "\<exists>seen'. set seen' \<subseteq> set seen \<union> {nm} \<and>
      block_spec (gcs_line pd) ([nm # as] @ rest) (seen, f) = block_spec (gcs_line pd) rest (seen', f')"
    by (intro exI [of _ "nm # seen"]) simp
qed

lemma reads_to_append:
  assumes "reads_to pd ls ns f g" and "reads_to pd ls' ns' g h" and "ns \<inter> ns' = {}"
  shows "reads_to pd (ls @ ls') (ns \<union> ns') f h"
  unfolding reads_to_def
proof (intro allI impI)
  fix seen rest assume s: "set seen \<inter> (ns \<union> ns') = {}"
  then have "set seen \<inter> ns = {}" by blast
  then obtain s1 where s1: "set s1 \<subseteq> set seen \<union> ns"
      "block_spec (gcs_line pd) (ls @ ls' @ rest) (seen, f) = block_spec (gcs_line pd) (ls' @ rest) (s1, g)"
    using assms(1) unfolding reads_to_def by blast
  from s s1(1) assms(3) have "set s1 \<inter> ns' = {}" by blast
  then obtain s2 where s2: "set s2 \<subseteq> set s1 \<union> ns'"
      "block_spec (gcs_line pd) (ls' @ rest) (s1, g) = block_spec (gcs_line pd) rest (s2, h)"
    using assms(2) unfolding reads_to_def by blast
  have "set s2 \<subseteq> set seen \<union> (ns \<union> ns')" using s1(1) s2(1) by blast
  with s1(2) s2(2) show "\<exists>seen'. set seen' \<subseteq> set seen \<union> (ns \<union> ns') \<and>
      block_spec (gcs_line pd) ((ls @ ls') @ rest) (seen, f) = block_spec (gcs_line pd) rest (seen', h)" by auto
qed

lemma reads_to_if:
  assumes "b \<Longrightarrow> reads_to pd ls ns f g" and "\<not> b \<Longrightarrow> g = f"
  shows "reads_to pd (if b then ls else []) ns f g"
  using assms reads_to_Nil by (cases b) auto

lemma reads_to_word:
  assumes "map_of (gcs_grammar pd) nm = Some (Sole (\<lambda>a. Inr (\<lambda>(seen, f). (seen, u a f))))" and "a = [] \<Longrightarrow> u a f = f"
  shows "reads_to pd (word_line nm a) {nm} f (u a f)"
  unfolding word_line_def
  by (intro reads_to_if reads_to_line [OF assms(1)]) (use assms(2) in \<open>simp_all add: apply_word_def\<close>)

lemma gcs_lines_read:
  fixes f :: "('w, 'c) GCSFS"
  assumes "plain_config f" and "pd (tt (g_CacheTTL f)) = Inr (g_CacheTTL f)"
  shows "\<exists>names. reads_to pd (gcs_lines tt f) names zero_gcs f"
proof -
  let ?f0 = "zero_gcs :: ('w, 'c) GCSFS"
  let ?f1 = "?f0\<lparr>g_BucketName := g_BucketName f\<rparr>"
  let ?f2 = "?f1\<lparr>g_PathPrefix := g_PathPrefix f\<rparr>"
  let ?f3 = "?f2\<lparr>g_ProjectID := g_ProjectID f\<rparr>"
  let ?f4 = "?f3\<lparr>g_CredentialsFile := g_CredentialsFile f\<rparr>"
  let ?f5 = "?f4\<lparr>g_CredentialsConfig := g_CredentialsConfig f\<rparr>"
  let ?f6 = "?f5\<lparr>g_ServiceAccount := g_ServiceAccount f\<rparr>"
  let ?f7 = "?f6\<lparr>g_UseWorkloadIdentity := g_UseWorkloadIdentity f\<rparr>"
  let ?f8 = "?f7\<lparr>g_CacheTTL := g_CacheTTL f, g_cacheTTLSet := g_cacheTTLSet f\<rparr>"
  let ?f9 = "?f8\<lparr>g_CacheMaxEntries := g_CacheMaxEntries f, g_cacheMaxEntriesSet := g_cacheMaxEntriesSet f\<rparr>"
  have r1: "reads_to pd (word_line ''bucket_name'' (g_BucketName f)) {''bucket_name''} ?f0 ?f1"
    by (rule reads_to_word [where u = "\<lambda>a. g_BucketName_update (\<lambda>_. a)"]) (simp_all add: gcs_grammar_def zero_gcs_def)
  have r2: "reads_to pd (word_line ''path_prefix'' (g_PathPrefix f)) {''path_prefix''} ?f1 ?f2"
    by (rule reads_to_word [where u = "\<lambda>a. g_PathPrefix_update (\<lambda>_. a)"]) (simp_all add: gcs_grammar_def zero_gcs_def)
  have r3: "reads_to pd (word_line ''project_id'' (g_ProjectID f)) {''project_id''} ?f2 ?f3"
    by (rule reads_to_word [where u = "\<lambda>a. g_ProjectID_update (\<lambda>_. a)"]) (simp_all add: gcs_grammar_def zero_gcs_def)
  have r4: "reads_to pd (word_line ''credentials_file'' (g_CredentialsFile f)) {''credentials_file''} ?f3 ?f4"
    by (rule reads_to_word [where u = "\<lambda>a. g_CredentialsFile_update (\<lambda>_. a)"]) (simp_all add: gcs_grammar_def zero_gcs_def)
  have r5: "reads_to pd (word_line ''credentials_config'' (g_CredentialsConfig f)) {''credentials_config''} ?f4 ?f5"
    by (rule reads_to_word [where u = "\<lambda>a. g_CredentialsConfig_update (\<lambda>_. a)"]) (simp_all add: gcs_grammar_def zero_gcs_def)
  have r6: "reads_to pd (word_line ''service_account'' (g_ServiceAccount f)) {''service_account''} ?f5 ?f6"
    by (rule reads_to_word [where u = "\<lambda>a. g_ServiceAccount_update (\<lambda>_. a)"]) (simp_all add: gcs_grammar_def zero_gcs_def)
  have r7: "reads_to pd (if g_UseWorkloadIdentity f then [[''use_workload_identity'']] else []) {''use_workload_identity''} ?f6 ?f7"
    by (intro reads_to_if reads_to_line [where k = "Flag (\<lambda>(seen, f). (seen, f\<lparr>g_UseWorkloadIdentity := True\<rparr>))"])
       (simp_all add: gcs_grammar_def zero_gcs_def)
  have r8: "reads_to pd (if g_cacheTTLSet f then [[''cache_ttl'', tt (g_CacheTTL f)]] else []) {''cache_ttl''} ?f7 ?f8"
  proof (rule reads_to_if)
    assume "g_cacheTTLSet f"
    then show "reads_to pd [[''cache_ttl'', tt (g_CacheTTL f)]] {''cache_ttl''} ?f7 ?f8"
      by (intro reads_to_line [where k = "the (map_of (gcs_grammar pd) ''cache_ttl'')"])
         (simp_all add: gcs_grammar_def apply_word_def assms(2))
  qed (use assms(1) in \<open>simp add: plain_config_def zero_gcs_def\<close>)
  have r9: "reads_to pd (if g_cacheMaxEntriesSet f then [[''cache_max_entries'', dec (nat (g_CacheMaxEntries f))]] else [])
      {''cache_max_entries''} ?f8 ?f9"
  proof (rule reads_to_if)
    assume set: "g_cacheMaxEntriesSet f"
    with assms(1) have m: "0 < g_CacheMaxEntries f" "Atoi (dec (nat (g_CacheMaxEntries f))) = Some (g_CacheMaxEntries f)"
      using Atoi_dec [of "nat (g_CacheMaxEntries f)"] by (simp_all add: plain_config_def)
    with set show "reads_to pd [[''cache_max_entries'', dec (nat (g_CacheMaxEntries f))]] {''cache_max_entries''} ?f8 ?f9"
      by (intro reads_to_line [where k = "the (map_of (gcs_grammar pd) ''cache_max_entries'')"])
         (simp_all add: gcs_grammar_def apply_word_def)
  qed (use assms(1) in \<open>simp add: plain_config_def zero_gcs_def\<close>)
  have "?f9 = f" using assms(1) by (simp add: plain_config_def zero_gcs_def)
  moreover note reads_to_append [OF r1 reads_to_append [OF r2 reads_to_append [OF r3 reads_to_append [OF r4
    reads_to_append [OF r5 reads_to_append [OF r6 reads_to_append [OF r7 reads_to_append [OF r8 r9]]]]]]]]
  ultimately show ?thesis unfolding gcs_lines_def by (intro exI) simp
qed

text \<open>
  C25. The configurations a \<^verbatim>\<open>gcs\<close> block can give are exactly those with a bucket name, a cache size
  that is unset or a positive 64-bit number, and nothing of the run time set: every accepted block,
  whatever the token stream does, yields such a configuration, and every such configuration written
  down option by option is read back unchanged (if its cache lifetime is written so that it is read back).
\<close>

theorem gcs_block_round_trip:
  fixes f :: "('w, 'c) GCSFS"
  assumes "pd (tt (g_CacheTTL f)) = Inr (g_CacheTTL f)"
  shows "(gcs_UnmarshalCaddyfile pd D d zero_gcs = Some (None, f, d') \<longrightarrow> plain_config f \<and> g_BucketName f \<noteq> []) \<and>
    (plain_config f \<and> g_BucketName f \<noteq> [] \<and> presents D view \<and> view d = Start [] (gcs_lines tt f) \<longrightarrow>
      (\<exists>d'. gcs_UnmarshalCaddyfile pd D d zero_gcs = Some (None, f, d')))"
proof (intro conjI impI)
  assume f: "plain_config f \<and> g_BucketName f \<noteq> [] \<and> presents D view \<and> view d = Start [] (gcs_lines tt f)"
  then obtain names where "reads_to pd (gcs_lines tt f) names zero_gcs f"
    using gcs_lines_read [of f pd tt] assms by blast
  then obtain s where "block_spec (gcs_line pd) (gcs_lines tt f) ([], zero_gcs) = (None, (s, f))"
    unfolding reads_to_def by (metis append_Nil2 block_spec.simps(1) empty_set inf_bot_left)
  with f have "gcs_spec pd (gcs_lines tt f) zero_gcs = (None, f)" by (simp add: gcs_spec_def)
  with gcs_parses [of D view d "gcs_lines tt f" pd "zero_gcs :: ('w, 'c) GCSFS"] f
  show "\<exists>d'. gcs_UnmarshalCaddyfile pd D d zero_gcs = Some (None, f, d')" by (auto simp: yields_def)
qed (use gcs_accepted_plain [of pd D d "zero_gcs :: ('w, 'c) GCSFS" f] in auto)

text \<open>A block with a bucket, a cache of 500 entries and a lifetime of five minutes.\<close>

definition small_cache :: "(unit, unit) GCSFS" where
  "small_cache = zero_gcs\<lparr>g_BucketName := ''b'', g_CacheTTL := defaultCacheTTL, g_cacheTTLSet := True,
     g_CacheMaxEntries := 500, g_cacheMaxEntriesSet := True\<rparr>"

theorem gcs_block_round_trip_witness:
  "\<exists>d'. gcs_UnmarshalCaddyfile (\<lambda>_. Inr defaultCacheTTL) cursor_disp
     (Start [] [[''bucket_name'', ''b''], [''cache_ttl'', ''5m''], [''cache_max_entries'', ''500'']]) zero_gcs = Some (None, small_cache, d')"
proof -
  have "dec 500 = ''500''" by (simp add: dec_three digit_def char_of_def bit_0)
  then have l: "gcs_lines (\<lambda>_. ''5m'') small_cache = [[''bucket_name'', ''b''], [''cache_ttl'', ''5m''], [''cache_max_entries'', ''500'']]"
    by (simp add: gcs_lines_def word_line_def small_cache_def zero_gcs_def)
  have "(\<lambda>_. Inr defaultCacheTTL) ''5m'' = (Inr (g_CacheTTL small_cache) :: string + duration)" by (simp add: small_cache_def)
  note parsed = conjunct2 [OF gcs_block_round_trip [where f = small_cache and tt = "\<lambda>_. ''5m''", OF this,
    where D = cursor_disp and view = "\<lambda>c. c" and d = "Start [] (gcs_lines (\<lambda>_. ''5m'') small_cache)"]]
  have "plain_config small_cache" "g_BucketName small_cache \<noteq> []"
    by (simp_all add: plain_config_def small_cache_def zero_gcs_def)
  with parsed cursor_presents show ?thesis unfolding l by blast
qed

end
