(* ===== verification/Spec2Isabelle.thy ===== *)
theory Spec2Isabelle
  imports Gcs_File Logger Tracing Directives
begin

text \<open>
  \<^bold>\<open>The program.\<close> caddy-fs-gcs is a plugin of the Caddy web server. A \<^verbatim>\<open>gcs\<close> filesystem serves the
  objects of a Google Cloud Storage bucket through Go's \<^verbatim>\<open>fs\<close> interfaces, with an attribute cache in
  front of the storage client; an \<^verbatim>\<open>error_pages\<close> filesystem serves pages embedded in the binary. Four
  HTTP handlers observe and check it: health probes, a validation service for configurations, a
  Prometheus endpoint and a metrics middleware. Logging, tracing and build metadata serve all of them.
  The filesystem reports to metrics and events through callbacks that \<^verbatim>\<open>GCSFS.Provision\<close> wires; the
  handlers are configured by Caddyfile directives.

  \<^bold>\<open>Conventions.\<close> Go strings are byte lists, \<^verbatim>\<open>int\<close> and \<^verbatim>\<open>int64\<close> are \<^typ>\<open>int\<close> with \<open>wrap64\<close> at every
  addition that can overflow, maps are association lists with distinct keys, iteration over a map
  goes through a \<open>range_order\<close> parameter, a pointer that may be \<^verbatim>\<open>nil\<close> is an option, an error is a \<open>gerror\<close>
  with the tree \<^verbatim>\<open>errors.Is\<close> walks, a call that can panic returns an option with \<^const>\<open>None\<close> for the panic,
  and so does a loop that might not end. State is passed explicitly; a world of arbitrary type stands for
  whatever third-party code changes. Third-party code is a record of functions (\<open>gcs_api\<close>, \<open>module_env\<close>,
  \<open>otel\<close>, \<open>trace_env\<close>, \<open>prom_env\<close>, \<open>vsys\<close>, \<open>dispenser\<close>) that the definitions take as an argument; what is
  relied on of it is a named predicate, satisfied by a concrete instance in a witness.

  \<^bold>\<open>Theories.\<close>
  \<^item> \<open>Prelude\<close>: integers, maps, slices, splitting and joining. \<open>Go_Path\<close>, \<open>Go_Utf8\<close>, \<open>Go_Errors\<close>, \<open>Go_Context\<close>,
    \<open>Go_Net\<close>, \<open>Go_Http\<close>: what the program uses of Go's standard library (\<^verbatim>\<open>path\<close>, \<^verbatim>\<open>utf8\<close>, \<^verbatim>\<open>errors\<close>,
    \<^verbatim>\<open>context\<close>, \<^verbatim>\<open>net\<close>, \<^verbatim>\<open>net/http\<close>). \<open>Go_Path\<close> also holds \<^verbatim>\<open>validPath\<close> of \<^verbatim>\<open>gcsfs.go\<close>, and \<open>Go_Net\<close> the
    loopback test that the three endpoints with a local-only gate repeat.
  \<^item> \<open>Ttl_Cache\<close> is the contract of a cache with lifetimes (a locale); \<open>Attr_Cache\<close> models
    \<^verbatim>\<open>pkg/gcs/fs/attrcache.go\<close> and interprets it: the index and capacity invariant under every sequence
    and every interleaving of operations, what eviction removes, lifetimes, counters, the shared clock.
  \<^item> \<open>Gcs_Fs\<close> models the filesystem and \<^verbatim>\<open>Stat\<close> of \<^verbatim>\<open>pkg/gcs/fs/gcsfs.go\<close>: the cache is invisible on a bucket
    that does not change, changes become visible when the lifetime is over, opened names stay below the
    prefix, errors are translated. \<open>Read_Seeker\<close> is the contract of a seekable stream (a locale), which
    \<open>Gcs_File\<close>, the model of \<^verbatim>\<open>Read\<close>, \<^verbatim>\<open>Seek\<close>, \<^verbatim>\<open>Close\<close> and \<^verbatim>\<open>ReadDir\<close>, refines. The storage client may
    fail any call and cut any stream off; \<open>faithful\<close> asks that the bytes it delivers are those of the
    object and that it signals end-of-file only at the end, \<open>sized\<close> that the sizes it reports are right.
  \<^item> \<open>Metrics\<close>, \<open>Prometheus_Endpoint\<close>: \<^verbatim>\<open>pkg/observability/metrics\<close>. Life cycle of the instruments (with the
    semantics of \<^verbatim>\<open>sync.Once\<close>), what the middleware records, what remote clients see of the pages the
    handler writes itself; nothing is assumed of \<^verbatim>\<open>promhttp\<close>, which answers scrapes.
  \<^item> \<open>Module\<close>: \<^verbatim>\<open>pkg/gcs/fs/module.go\<close>. Reference counts of pooled clients over every history of
    provisioning and clean-up, sharing of clients, agreement of the exported metrics with the cache.
  \<^item> \<open>Health\<close>, \<open>Health_Endpoint\<close>: \<^verbatim>\<open>pkg/observability/health\<close>. A locale states what a checker promises; shown
    are truthful responses, no header injection, no error text for remote clients, and the
    life cycle of readiness.
  \<^item> \<open>Validation\<close>, \<open>Validation_Endpoint\<close>: \<^verbatim>\<open>pkg/validation\<close>. Exactly what each rule and the whole validator
    accept; the gate and the last result over every sequence of requests.
  \<^item> \<open>Logger\<close>, \<open>Tracing\<close>, \<open>Build_Info\<close>: \<^verbatim>\<open>pkg/observability/logger\<close>, \<^verbatim>\<open>pkg/observability/tracing\<close>, \<^verbatim>\<open>pkg/version.go\<close>.
  \<^item> \<open>Caddyfile\<close>, \<open>Directives\<close>: the \<^verbatim>\<open>UnmarshalCaddyfile\<close> methods and the error pages module. Locales state
    what a parser's switch owes its loop; from them follow termination on every finite stream and
    that each parser implements a grammar given as a table.
  \<^item> This theory: the path from a Caddyfile to the objects of a bucket.

  \<^bold>\<open>Bounds.\<close> No definition is bounded by fuel: loops are recursive functions with termination proofs, or
  partial functions proved to return (the Caddyfile loops for a finite stream; reading and directory
  listing for a client that answers). Sizes are those of the 64-bit targets.

  \<^bold>\<open>Findings.\<close> Where the code does not do what a comment or a document says, the theorem states what it
  does: \<open>transient_probe_error_cached\<close>, \<open>negative_hit_restarts_lifetime\<close>, \<open>negative_seek_desynchronizes\<close>,
  \<open>truncated_first_read_is_eof\<close>, \<open>scrape_is_promhttp\<close>, \<open>detailed_endpoint_not_redacted\<close>, \<open>no_checkers_always_healthy\<close>,
  \<open>number_rules_read_prefix\<close>, \<open>init_outcomes\<close>, \<open>early_hints_recorded\<close>, \<open>route_labels_unbounded\<close>,
  \<open>long_query_truncation\<close>, \<open>tracing_life_cycle\<close>, \<open>key_file_ignores_impersonation\<close>, \<open>caddyfile_to_objects\<close>.

  \<^bold>\<open>Not modelled.\<close> Module and directive registration (\<^verbatim>\<open>plugin.go\<close>, \<^verbatim>\<open>cmd/caddy/main.go\<close>, \<^verbatim>\<open>CaddyModule\<close>, interface
  assertions): no logic of their own. Log statements, except through the logger package. The span
  helpers of the tracing package, \<^verbatim>\<open>Hijack\<close> and \<^verbatim>\<open>Unwrap\<close> of the response writer: they hand over to
  third-party code and keep no state. JSON encoding and the quoting of \<^verbatim>\<open>%q\<close>: responses and errors
  are kept as the values that are encoded. Memory exhaustion. Data races: the operations of the
  handlers are atomic, only the cache and its clock are modelled with interleavings.
\<close>

section \<open>From a Caddyfile to objects\<close>

text \<open>The object prefix a configured path prefix stands for.\<close>

definition site_prefix :: "string \<Rightarrow> string" where
  "site_prefix pp = (if pp = [] then [] else path_Join [[], TrimSuffix (TrimPrefix pp ''/'') ''/''])"

lemma expand_cache_fields:
  "effective_ttl (expand_config env f) = effective_ttl f" "effective_max (expand_config env f) = effective_max f"
  by (simp_all add: effective_ttl_def effective_max_def expand_config_def Let_def)

lemma Provision_panics:
  "Module.Provision env f w = None \<longleftrightarrow>
     g_BucketName (expand_config env f) \<noteq> [] \<and>
     (\<exists>c w1. mo_LoadOrNew env (clientPoolKey env (expand_config env f)) (new_client env (expand_config env f)) w = (Inr c, w1)) \<and>
     0 < effective_ttl f \<and> newAttrCache (effective_ttl f) (effective_max f) = None"
  by (auto simp: Module.Provision_def Let_def expand_cache_fields split: prod.split sum.split)

lemma Provision_filesystem:
  assumes "Module.Provision env f w = Some (None, f', w')"
  shows "\<exists>fsys. g_StatFS f' = Some fsys \<and> fs_bucketName fsys = g_BucketName f' \<and> g_BucketName f' \<noteq> [] \<and>
    fs_prefix fsys = site_prefix (g_PathPrefix f')"
  using assms
  by (auto simp: Module.Provision_def Let_def wire_callbacks_def newGCSFS_def fs_Sub_def site_prefix_def
      split: if_splits prod.splits sum.splits)

lemma plain_config_cache:
  assumes "plain_config f"
  shows "newAttrCache t (effective_max f) = None \<longleftrightarrow> 2 ^ 44 < g_CacheMaxEntries f"
  using assms by (auto simp: plain_config_def effective_max_def newAttrCache_def split: if_splits)

text \<open>
  C22. From the Caddyfile to the bucket. For every configuration the \<^verbatim>\<open>gcs\<close> parser accepts,
  provisioning panics in one case only: the client was made, the cache is not disabled and
  \<^verbatim>\<open>cache_max_entries\<close> is above \<open>2 ^ 44\<close>, which the parser lets through although no slice can be
  that long. If provisioning succeeds, the filesystem works on the configured bucket, and every valid
  request path opens the object whose name is the configured prefix followed by that path.
\<close>

theorem caddyfile_to_objects:
  fixes f :: "(('x, 'p) gworld, 'c) GCSFS"
  assumes "gcs_UnmarshalCaddyfile pd D d zero_gcs = Some (None, f, d')"
  shows "(Module.Provision env f w = None \<longleftrightarrow>
      g_BucketName (expand_config env f) \<noteq> [] \<and>
      (\<exists>c w1. mo_LoadOrNew env (clientPoolKey env (expand_config env f)) (new_client env (expand_config env f)) w = (Inr c, w1)) \<and>
      0 < effective_ttl f \<and> 2 ^ 44 < g_CacheMaxEntries f) \<and>
    (Module.Provision env f w = Some (None, f', w') \<longrightarrow>
      (\<exists>fsys. g_StatFS f' = Some fsys \<and> fs_bucketName fsys = g_BucketName f' \<and> g_BucketName f' \<noteq> [] \<and>
        (\<forall>nm. validPath nm \<and> nm \<noteq> ''.'' \<longrightarrow>
          (\<exists>file :: ('r, 'it) gcsFile. fs_Open fsys nm = Inr file \<and>
             fullPath file = path_base (site_prefix (g_PathPrefix f')) @ nm))))"
proof (intro conjI impI)
  have plain: "plain_config f"
    using gcs_accepted_plain [OF assms] by simp
  show "Module.Provision env f w = None \<longleftrightarrow>
      g_BucketName (expand_config env f) \<noteq> [] \<and>
      (\<exists>c w1. mo_LoadOrNew env (clientPoolKey env (expand_config env f)) (new_client env (expand_config env f)) w = (Inr c, w1)) \<and>
      0 < effective_ttl f \<and> 2 ^ 44 < g_CacheMaxEntries f"
    unfolding Provision_panics plain_config_cache [OF plain] ..
  assume "Module.Provision env f w = Some (None, f', w')"
  then obtain fsys where fsys: "g_StatFS f' = Some fsys" "fs_bucketName fsys = g_BucketName f'" "g_BucketName f' \<noteq> []"
      "fs_prefix fsys = site_prefix (g_PathPrefix f')"
    using Provision_filesystem by blast
  with fsys show "\<exists>fsys. g_StatFS f' = Some fsys \<and> fs_bucketName fsys = g_BucketName f' \<and> g_BucketName f' \<noteq> [] \<and>
      (\<forall>nm. validPath nm \<and> nm \<noteq> ''.'' \<longrightarrow>
        (\<exists>file :: ('r, 'it) gcsFile. fs_Open fsys nm = Inr file \<and> fullPath file = path_base (site_prefix (g_PathPrefix f')) @ nm))"
    using fs_Open_object [of _ fsys] by fastforce
qed

theorem caddyfile_to_objects_witness:
  "\<exists>(f :: ((pool, unit) gworld, client_option list) GCSFS) d'.
     gcs_UnmarshalCaddyfile Inl cursor_disp (Start [] [[''bucket_name'', ''b''], [''cache_max_entries'', ''20000000000000'']]) zero_gcs = Some (None, f, d') \<and>
     Module.Provision pool_env f empty_pool = None"
proof -
  let ?ls = "[[''bucket_name'', ''b''], [''cache_max_entries'', ''20000000000000'']]"
  let ?f = "zero_gcs\<lparr>g_BucketName := ''b'', g_CacheMaxEntries := 20000000000000, g_cacheMaxEntriesSet := True\<rparr>
    :: ((pool, unit) gworld, client_option list) GCSFS"
  have a: "Atoi ''20000000000000'' = Some 20000000000000"
    by (simp add: Atoi_def undec_def is_digit_def digit_val_def in_i64_def)
  have "gcs_spec Inl ?ls zero_gcs = (None, ?f)"
    by (simp add: gcs_spec_def gcs_line_def read_table_def gcs_grammar_def apply_word_def a zero_gcs_def)
  with gcs_parses [OF cursor_presents refl, of Inl ?ls "zero_gcs :: ((pool, unit) gworld, client_option list) GCSFS"]
  obtain d' where p: "gcs_UnmarshalCaddyfile Inl cursor_disp (Start [] ?ls) zero_gcs = Some (None, ?f, d')"
    by (auto simp: yields_def)
  have "Module.Provision pool_env ?f empty_pool = None"
    unfolding conjunct1 [OF caddyfile_to_objects [OF p, of pool_env empty_pool]]
    by (simp add: expand_config_def pool_env_def empty_pool_def zero_gcs_def effective_ttl_def new_client_def Let_def)
  with p show ?thesis by blast
qed

end
